(* ===== verification/Prelude.thy ===== *)
theory Prelude
  imports Main "HOL-Library.Word"
begin

unbundle bit_operations_syntax

text \<open>
  What every component shares: bytes, the result type that carries undefined behaviour of the
  C++ code as a value, checked access to fixed-size arrays, and the exclusive-or of a block of
  bytes with its algebra.

  A pointer \<open>&buf[k]\<close> into an array is modelled by the suffix \<open>drop k buf\<close> of the array, so that
  reads past a frame but inside the array see what the array holds there, and reads past the
  array are a \<open>fault\<close>.
\<close>

section \<open>Bytes, faults and checked arrays\<close>

text \<open>
  The faults: an access outside an array, the use of a value that was never written, a NULL
  pointer followed, a pointer to freed memory followed, a list walk that does not end, and a C++
  exception nobody catches (which terminates the process).
\<close>

type_synonym byte = "8 word"

datatype fault = OutOfBounds | Uninitialised | NullPointer | Dangling | Diverges | UncaughtException

type_synonym 'a res = "fault + 'a"

named_theorems res_simps "evaluation of results that may be a fault"
named_theorems res_conv "when a fault-carrying computation returns a value"

definition bindE :: "'a res \<Rightarrow> ('a \<Rightarrow> 'b res) \<Rightarrow> 'b res" where
  "bindE m f = (case m of Inl e \<Rightarrow> Inl e | Inr v \<Rightarrow> f v)"

lemma bindE_simps [simp, res_simps]:
  "bindE (Inl e) f = Inl e"
  "bindE (Inr v) f = f v"
  by (simp_all add: bindE_def)

lemma bindE_Inr_conv [res_conv]: "bindE m f = Inr y \<longleftrightarrow> (\<exists>x. m = Inr x \<and> f x = Inr y)"
  by (cases m) auto

lemma bindE_Inl_conv [res_conv]:
  "bindE m f = Inl e \<longleftrightarrow> m = Inl e \<or> (\<exists>x. m = Inr x \<and> f x = Inl e)"
  by (cases m) auto

lemma bindE_assoc: "bindE (bindE m f) g = bindE m (\<lambda>x. bindE (f x) g)"
  by (cases m) auto

lemma bindE_cong [fundef_cong]:
  "m = m' \<Longrightarrow> (\<And>x. m' = Inr x \<Longrightarrow> f x = g x) \<Longrightarrow> bindE m f = bindE m' g"
  by (cases m') auto

primrec foldE :: "('a \<Rightarrow> 's \<Rightarrow> 's res) \<Rightarrow> 'a list \<Rightarrow> 's \<Rightarrow> 's res" where
  "foldE f [] s = Inr s"
| "foldE f (x # xs) s = bindE (f x s) (foldE f xs)"

lemma foldE_append: "foldE f (xs @ ys) s = bindE (foldE f xs s) (foldE f ys)"
proof (induction xs arbitrary: s)
  case Nil
  show ?case by simp
next
  case (Cons x xs)
  show ?case
    by (cases "f x s") (simp_all add: Cons)
qed

text \<open>An invariant of every step is an invariant of the fold.\<close>

lemma foldE_invariant:
  assumes "\<And>x s s'. P s \<Longrightarrow> f x s = Inr s' \<Longrightarrow> P s'"
    and "P s" and "foldE f xs s = Inr s'"
  shows "P s'"
  using assms(2,3)
proof (induction xs arbitrary: s)
  case Nil
  then show ?case by simp
next
  case (Cons x xs)
  from Cons.prems(2) obtain t where "f x s = Inr t" and "foldE f xs t = Inr s'"
    by (auto simp: res_conv)
  with Cons.prems(1) show ?case
    using assms(1) Cons.IH by blast
qed

text \<open>\<open>rd\<close> is a read \<open>buf[i]\<close>, \<open>wr_block\<close> a \<open>memcpy (buf + off, src, length src)\<close>.\<close>

definition rd :: "'a list \<Rightarrow> nat \<Rightarrow> 'a res" where
  "rd buf i = (if i < length buf then Inr (buf ! i) else Inl OutOfBounds)"

definition wr_block :: "'a list \<Rightarrow> nat \<Rightarrow> 'a list \<Rightarrow> 'a list res" where
  "wr_block buf off src =
     (if off + length src \<le> length buf
      then Inr (take off buf @ src @ drop (off + length src) buf)
      else Inl OutOfBounds)"

lemma rd_ok [simp, res_simps]: "i < length buf \<Longrightarrow> rd buf i = Inr (buf ! i)"
  by (simp add: rd_def)

lemma rd_Inr_conv [res_conv]: "rd buf i = Inr b \<longleftrightarrow> i < length buf \<and> b = buf ! i"
  by (auto simp: rd_def)

lemma rd_drop [simp]: "k \<le> length buf \<Longrightarrow> rd (drop k buf) i = rd buf (k + i)"
  by (auto simp: rd_def)

lemma wr_block_length: "wr_block buf off src = Inr buf' \<Longrightarrow> length buf' = length buf"
  by (auto simp: wr_block_def split: if_splits)

lemma wr_block_read:
  "wr_block buf off src = Inr buf' \<Longrightarrow> take (length src) (drop off buf') = src"
  by (auto simp: wr_block_def split: if_splits)

lemma wr_block_take:
  "wr_block buf off src = Inr buf' \<Longrightarrow> take off buf' = take off buf"
  by (auto simp: wr_block_def split: if_splits)

section \<open>Exclusive or over a block of bytes\<close>

named_theorems xor_algebra "associativity, commutativity and cancellation of exclusive or"

lemma xor_ac [xor_algebra]:
  "((x :: 'a::len word) XOR y) XOR z = x XOR (y XOR z)"
  "x XOR y = y XOR x"
  "x XOR (y XOR z) = y XOR (x XOR z)"
  by (simp_all add: ac_simps)

lemma xor_cancel_left [simp]: "(x :: 'a::len word) XOR (x XOR y) = y"
  by (simp add: xor.assoc [symmetric])

lemma xor_eq_0_conv: "(x :: 'a::len word) XOR y = 0 \<longleftrightarrow> x = y"
  by (metis xor.right_neutral xor_cancel_left xor_self_eq)

definition xors :: "byte list \<Rightarrow> byte" where
  "xors bs = foldr (XOR) bs 0"

lemma xors_simps [simp]:
  "xors [] = 0"
  "xors (b # bs) = b XOR xors bs"
  by (simp_all add: xors_def)

lemma xors_append: "xors (as @ bs) = xors as XOR xors bs"
  by (induction as) (simp_all add: ac_simps)

lemma xors_replicate_0 [simp]: "xors (replicate n 0) = 0"
  by (induction n) simp_all

text \<open>Changing one byte of a block always changes its exclusive or.\<close>

lemma xors_update:
  assumes "i < length bs"
  shows "xors (bs[i := b]) = xors bs XOR (bs ! i) XOR b"
proof -
  have "bs = take i bs @ bs ! i # drop (Suc i) bs"
    using assms by (simp add: id_take_nth_drop)
  then have "xors bs = xors (take i bs) XOR (bs ! i XOR xors (drop (Suc i) bs))"
    by (metis xors_append xors_simps(2))
  moreover have "bs[i := b] = take i bs @ b # drop (Suc i) bs"
    using assms by (rule upd_conv_take_nth_drop)
  ultimately show ?thesis
    by (simp add: xors_append ac_simps)
qed

lemma xors_update_changes:
  assumes "i < length bs" and "b \<noteq> bs ! i"
  shows "xors (bs[i := b]) \<noteq> xors bs"
proof
  assume "xors (bs[i := b]) = xors bs"
  then have "xors bs XOR (bs ! i XOR b) = xors bs XOR 0"
    using assms(1) by (simp add: xors_update ac_simps)
  then have "bs ! i XOR b = 0"
    by (metis xor_cancel_left)
  with assms(2) show False
    by (simp add: xor_eq_0_conv)
qed

section \<open>Slices\<close>

definition segment :: "nat \<Rightarrow> nat \<Rightarrow> 'a list \<Rightarrow> 'a list" where
  "segment off n xs = take n (drop off xs)"

lemma length_segment [simp]: "off + n \<le> length xs \<Longrightarrow> length (segment off n xs) = n"
  by (simp add: segment_def)

lemma segment_Suc_conv:
  "off < length xs \<Longrightarrow> segment off (Suc n) xs = xs ! off # segment (Suc off) n xs"
  by (simp add: segment_def flip: Cons_nth_drop_Suc)

lemma segment_snoc:
  "off + n < length xs \<Longrightarrow> segment off (Suc n) xs = segment off n xs @ [xs ! (off + n)]"
  by (simp add: segment_def take_Suc_conv_app_nth add.commute)

lemma segment_drop: "segment off n (drop k xs) = segment (k + off) n xs"
  by (simp add: segment_def add.commute)

end
