(* ===== verification/Convert.thy ===== *)
theory Convert
  imports Prelude
begin

text \<open>
  src/convert.c: the base64 codec and the guarded call of the external \<open>iconv\<close> library.

  The codec reads \<open>char\<close> values, which C promotes to \<open>int\<close> before shifting; whether \<open>char\<close> is
  signed depends on the target, so the promotion is an argument \<open>p\<close> of the encoder and the
  properties hold for both \<open>uint\<close> and \<open>sint\<close>. \<open>iconv_open\<close> and \<open>iconv\<close> are parameters of the model.
\<close>

section \<open>base64\<close>

definition base64char :: string where
  "base64char = ''ABCDEFGHIJKLMNOPQRSTUVWXYZabcdefghijklmnopqrstuvwxyz0123456789+/''"

text \<open>
  \<open>base64_encode\<close>: one iteration of the loop per three input bytes, with the two early exits for
  a final group of one or two bytes. The argument is \<open>binData + i\<close> up to \<open>binLength\<close>.
\<close>

fun base64_encode :: "(byte \<Rightarrow> int) \<Rightarrow> byte list \<Rightarrow> string" where
  "base64_encode p [] = []"
| "base64_encode p [b0] =
     [base64char ! nat (drop_bit 2 (p b0) AND 0x3F),
      base64char ! nat (push_bit 4 (p b0) AND 0x30), CHR ''='', CHR ''='']"
| "base64_encode p [b0, b1] =
     [base64char ! nat (drop_bit 2 (p b0) AND 0x3F),
      base64char ! nat ((push_bit 4 (p b0) AND 0x30) OR (drop_bit 4 (p b1) AND 0xF)),
      base64char ! nat (push_bit 2 (p b1) AND 0x3C), CHR ''='']"
| "base64_encode p (b0 # b1 # b2 # rest) =
     base64char ! nat (drop_bit 2 (p b0) AND 0x3F) #
     base64char ! nat ((push_bit 4 (p b0) AND 0x30) OR (drop_bit 4 (p b1) AND 0xF)) #
     base64char ! nat ((push_bit 2 (p b1) AND 0x3C) OR (drop_bit 6 (p b2) AND 0x03)) #
     base64char ! nat (p b2 AND 0x3F) # base64_encode p rest"

text \<open>
  \<open>base64_decode\<close>. \<open>for (j = 0; j < 64; j++) if (c == base64char[j]) temp[k] = j;\<close> leaves \<open>temp[k]\<close>
  as it was when \<open>c\<close> is not in the alphabet; \<open>temp\<close> survives from one group to the next.
\<close>

definition scan_alphabet :: "char \<Rightarrow> byte \<Rightarrow> byte" where
  "scan_alphabet c t = fold (\<lambda>j t. if c = base64char ! j then word_of_nat j else t) [0..<64] t"

function base64_decode_loop ::
  "byte \<times> byte \<times> byte \<times> byte \<Rightarrow> string \<Rightarrow> nat \<Rightarrow> byte list res" where
  "base64_decode_loop (t0, t1, t2, t3) base64Str n =
     (if n = 0 then Inr []
      else bindE (rd base64Str 0) (\<lambda>c0. bindE (rd base64Str 1) (\<lambda>c1.
           bindE (rd base64Str 2) (\<lambda>c2. bindE (rd base64Str 3) (\<lambda>c3.
           let t0 = scan_alphabet c0 t0; t1 = scan_alphabet c1 t1;
               t2 = scan_alphabet c2 t2; t3 = scan_alphabet c3 t3;
               d0 = (push_bit 2 t0 AND 0xFC) OR (drop_bit 4 t1 AND 0x03);
               d1 = (push_bit 4 t1 AND 0xF0) OR (drop_bit 2 t2 AND 0x0F);
               d2 = (push_bit 6 t2 AND 0xF0) OR (t3 AND 0x3F)
           in if c2 = CHR ''='' then Inr [d0]
              else if c3 = CHR ''='' then Inr [d0, d1]
              else bindE (base64_decode_loop (t0, t1, t2, t3) (drop 4 base64Str) (n - 4))
                     (\<lambda>ds. Inr (d0 # d1 # d2 # ds)))))))"
  by pat_completeness auto
termination
  by (relation "measure (\<lambda>(t, s, n). n)") auto

declare base64_decode_loop.simps [simp del]

definition base64_decode :: "string \<Rightarrow> nat \<Rightarrow> byte list res" where
  "base64_decode base64Str encodeStrLen = base64_decode_loop (0, 0, 0, 0) base64Str encodeStrLen"

subsection \<open>The alphabet\<close>

lemma length_base64char [simp]: "length base64char = 64"
  by (simp add: base64char_def)

lemma distinct_base64char: "distinct base64char"
  by (simp add: base64char_def)

lemma pad_not_in_alphabet: "k < 64 \<Longrightarrow> base64char ! k \<noteq> CHR ''=''"
proof -
  assume "k < 64"
  then have "base64char ! k \<in> set base64char"
    by simp
  moreover have "CHR ''='' \<notin> set base64char"
    by (simp add: base64char_def)
  ultimately show ?thesis
    by metis
qed

lemma fold_scan_miss:
  "\<forall>j\<in>set js. c \<noteq> base64char ! j \<Longrightarrow>
   fold (\<lambda>j t. if c = base64char ! j then word_of_nat j else t) js t = t"
  by (induction js arbitrary: t) auto

lemma scan_alphabet_hit:
  assumes "k < 64"
  shows "scan_alphabet (base64char ! k) t = word_of_nat k"
proof -
  have split: "[0..<64] = [0..<k] @ k # [Suc k..<64]"
    using assms by (metis le_add1 plus_nat.add_0 less_imp_le upt_add_eq_append upt_conv_Cons le_add_diff_inverse)
  have "base64char ! k \<noteq> base64char ! j" if "j \<noteq> k" "j < 64" for j
    using that assms distinct_base64char by (simp add: nth_eq_iff_index_eq)
  then show ?thesis
    unfolding scan_alphabet_def split by (simp add: fold_scan_miss)
qed

lemma scan_alphabet_miss: "c \<notin> set base64char \<Longrightarrow> scan_alphabet c t = t"
  unfolding scan_alphabet_def by (rule fold_scan_miss) (auto simp: in_set_conv_nth)

subsection \<open>The codec on bits\<close>

text \<open>\<open>promotes p\<close>: the promotion keeps the low eight bits, as both \<open>uint\<close> and \<open>sint\<close> do.\<close>

definition promotes :: "(byte \<Rightarrow> int) \<Rightarrow> bool" where
  "promotes p \<longleftrightarrow> (\<forall>b. (word_of_int (p b) :: byte) = b)"

lemma promotes_uint [simp]: "promotes uint" and promotes_sint [simp]: "promotes sint"
  by (simp_all add: promotes_def)

lemma promotes_bit:
  assumes "promotes p" "n < 8"
  shows "bit (p b) n = bit b n"
proof -
  have "bit (word_of_int (p b) :: byte) n = bit b n"
    using assms by (simp add: promotes_def)
  then show ?thesis
    using assms(2) by (simp add: bit_simps)
qed

lemma byte_bit_high [simp]: "8 \<le> n \<Longrightarrow> \<not> bit (b :: byte) n"
  using bit_imp_le_length [of b n] by auto

lemma byte_eqI:
  fixes a b :: byte
  assumes "bit a 0 = bit b 0" and "bit a 1 = bit b 1" and "bit a 2 = bit b 2" and "bit a 3 = bit b 3"
    and "bit a 4 = bit b 4" and "bit a 5 = bit b 5" and "bit a 6 = bit b 6" and "bit a 7 = bit b 7"
  shows "a = b"
proof (rule bit_word_eqI)
  fix n assume "n < LENGTH(8)"
  then have "n = 0 \<or> n = 1 \<or> n = 2 \<or> n = 3 \<or> n = 4 \<or> n = 5 \<or> n = 6 \<or> n = 7"
    by auto
  then show "bit a n = bit b n"
    using assms by (elim disjE) simp_all
qed

lemma sextets:
  assumes "promotes p"
  shows "word_of_int (drop_bit 2 (p b0) AND 0x3F) = drop_bit 2 b0"
    and "word_of_int (push_bit 4 (p b0) AND 0x30) = push_bit 4 b0 AND 0x30"
    and "word_of_int ((push_bit 4 (p b0) AND 0x30) OR (drop_bit 4 (p b1) AND 0xF)) =
         (push_bit 4 b0 AND 0x30) OR drop_bit 4 b1"
    and "word_of_int (push_bit 2 (p b1) AND 0x3C) = push_bit 2 b1 AND 0x3C"
    and "word_of_int ((push_bit 2 (p b1) AND 0x3C) OR (drop_bit 6 (p b2) AND 0x03)) =
         (push_bit 2 b1 AND 0x3C) OR drop_bit 6 b2"
    and "word_of_int (p b2 AND 0x3F) = b2 AND 0x3F"
  by - (rule byte_eqI; simp add: bit_simps promotes_bit [OF assms])+

lemma octets:
  fixes b0 b1 b2 :: byte
  shows "(push_bit 2 (drop_bit 2 b0) AND 0xFC) OR (drop_bit 4 (push_bit 4 b0) AND 0x03) = b0"
    and "(push_bit 4 (drop_bit 4 b1) AND 0xF0) OR (drop_bit 2 (push_bit 2 b1) AND 0x0F) = b1"
    and "(push_bit 6 (drop_bit 6 b2) AND 0xF0) OR (b2 AND 0x3F) = b2"
  by - (rule byte_eqI; simp add: bit_simps)+

text \<open>The masks of the decoder drop what the other half of a shared sextet contributed.\<close>

lemma octet_masks:
  fixes b0 b1 b2 :: byte
  shows "drop_bit 4 ((push_bit 4 b0 AND 0x30) OR drop_bit 4 b1) AND 0x03 = drop_bit 4 (push_bit 4 b0) AND 0x03"
    and "push_bit 4 ((push_bit 4 b0 AND 0x30) OR drop_bit 4 b1) AND 0xF0 = push_bit 4 (drop_bit 4 b1) AND 0xF0"
    and "drop_bit 2 ((push_bit 2 b1 AND 0x3C) OR drop_bit 6 b2) AND 0x0F = drop_bit 2 (push_bit 2 b1) AND 0x0F"
    and "push_bit 6 ((push_bit 2 b1 AND 0x3C) OR drop_bit 6 b2) AND 0xF0 = push_bit 6 (drop_bit 6 b2) AND 0xF0"
  by - (rule byte_eqI; simp add: bit_simps)+

lemma sextet_and:
  fixes x :: int
  assumes "0 \<le> m" and "m < 64"
  shows "0 \<le> x AND m" and "x AND m < 64"
  using assms AND_upper2 [of m x] by simp_all

lemma sextet_or:
  fixes x y :: int
  assumes "0 \<le> m" and "m < 64" and "0 \<le> k" and "k < 64"
  shows "0 \<le> (x AND m) OR (y AND k)" and "(x AND m) OR (y AND k) < 64"
  using OR_upper [of "x AND m" 6 "y AND k"] sextet_and [of m x] sextet_and [of k y] assms
  by simp_all

lemma alphabet_at:
  assumes "0 \<le> z" and "z < 64"
  shows "scan_alphabet (base64char ! nat z) t = word_of_int z" and "base64char ! nat z \<noteq> CHR ''=''"
  using assms scan_alphabet_hit [of "nat z" t] pad_not_in_alphabet [of "nat z"] by simp_all

lemmas alphabet_and = alphabet_at [OF sextet_and]

lemmas alphabet_or = alphabet_at [OF sextet_or]

lemma scan_pad [simp]: "scan_alphabet CHR ''='' t = t"
  by (rule scan_alphabet_miss) (simp add: base64char_def)

lemma length_base64_encode: "length (base64_encode p bs) = 4 * ((length bs + 2) div 3)"
proof (induction p bs rule: base64_encode.induct)
  case (4 p b0 b1 b2 bs)
  have "length (b0 # b1 # b2 # bs) + 2 = 3 + (length bs + 2)"
    by simp
  then have "(length (b0 # b1 # b2 # bs) + 2) div 3 = Suc ((length bs + 2) div 3)"
    by (metis div_add_self1 add.commute plus_1_eq_Suc zero_neq_numeral)
  with 4 show ?case
    by simp
qed simp_all

lemma base64_loop_encode:
  assumes "promotes p"
  shows "base64_decode_loop t (base64_encode p bs @ rest) (length (base64_encode p bs)) = Inr bs"
  using assms
proof (induction p bs arbitrary: t rule: base64_encode.induct)
  case (1 p)
  obtain t0 t1 t2 t3 where "t = (t0, t1, t2, t3)"
    by (metis prod_cases4)
  then show ?case
    by (simp add: base64_decode_loop.simps)
next
  case (2 p b0)
  obtain t0 t1 t2 t3 where "t = (t0, t1, t2, t3)"
    by (metis prod_cases4)
  then show ?case
    by (simp add: base64_decode_loop.simps Let_def rd_def alphabet_and alphabet_or
        sextets [OF 2] octets)
next
  case (3 p b0 b1)
  obtain t0 t1 t2 t3 where "t = (t0, t1, t2, t3)"
    by (metis prod_cases4)
  then show ?case
    by (simp add: base64_decode_loop.simps Let_def rd_def alphabet_and alphabet_or
        sextets [OF 3] octets octet_masks)
next
  case (4 p b0 b1 b2 bs)
  obtain t0 t1 t2 t3 where "t = (t0, t1, t2, t3)"
    by (metis prod_cases4)
  then show ?case
    using "4.IH" [OF "4.prems"]
    by (simp add: base64_decode_loop.simps [of t0 t1 t2 t3] Let_def rd_def alphabet_and alphabet_or
        sextets [OF "4.prems"] octets octet_masks)
qed

section \<open>Character set conversion\<close>

text \<open>
  \<open>charset_convert\<close>. \<open>iconv_open to from\<close> gives a descriptor or fails; \<open>iconv cd input out_left\<close>
  gives whether it succeeded and the bytes it wrote. A NULL pointer is \<open>None\<close>. The result is the
  return value and the output buffer afterwards.
\<close>

definition charset_convert ::
  "(string \<Rightarrow> string \<Rightarrow> 'cd option) \<Rightarrow> ('cd \<Rightarrow> byte list \<Rightarrow> nat \<Rightarrow> bool \<times> byte list) \<Rightarrow>
   string option \<Rightarrow> string option \<Rightarrow> byte list option \<Rightarrow> nat \<Rightarrow> byte list option \<Rightarrow> nat \<Rightarrow>
   (int \<times> byte list option) res" where
  "charset_convert iconv_open iconv from_charset to_charset in_buf in_left out_buf out_left =
     (case (from_charset, to_charset, in_buf, out_buf) of
        (Some from, Some to, Some ib, Some ob) \<Rightarrow>
          if in_left = 0 \<or> out_left = 0 then Inr (-1, Some ob)
          else (case iconv_open to from of
              None \<Rightarrow> Inr (-1, Some ob)
            | Some icd \<Rightarrow>
                (let (ok, written) = iconv icd (take in_left ib) out_left
                 in bindE (wr_block ob 0 written) (\<lambda>ob.
                    if \<not> ok then Inr (-1, Some ob)
                    else bindE (wr_block ob (length written) [0]) (\<lambda>ob.
                         Inr (int (length written), Some ob)))))
      | _ \<Rightarrow> Inr (-1, out_buf))"

definition charset_convert_UTF8_TO_GB2312 where
  "charset_convert_UTF8_TO_GB2312 io ic in_buf in_left out_buf out_left =
     charset_convert io ic (Some ''UTF-8'') (Some ''GB2312'') in_buf in_left out_buf out_left"

definition charset_convert_GB2312_TO_UTF8 where
  "charset_convert_GB2312_TO_UTF8 io ic in_buf in_left out_buf out_left =
     charset_convert io ic (Some ''GB2312'') (Some ''UTF-8'') in_buf in_left out_buf out_left"

definition charset_convert_UTF8_TO_UTF16 where
  "charset_convert_UTF8_TO_UTF16 io ic in_buf in_left out_buf out_left =
     charset_convert io ic (Some ''UTF-8'') (Some ''UTF-16LE'') in_buf in_left out_buf out_left"

definition charset_convert_GBK_TO_UTF16_LE where
  "charset_convert_GBK_TO_UTF16_LE io ic in_buf in_left out_buf out_left =
     charset_convert io ic (Some ''GBK'') (Some ''UTF-16LE'') in_buf in_left out_buf out_left"

definition charset_convert_GBK_TO_UTF8 where
  "charset_convert_GBK_TO_UTF8 io ic in_buf in_left out_buf out_left =
     charset_convert io ic (Some ''GBK'') (Some ''UTF-8'') in_buf in_left out_buf out_left"

definition charset_convert_UTF8_TO_GBK where
  "charset_convert_UTF8_TO_GBK io ic in_buf in_left out_buf out_left =
     charset_convert io ic (Some ''UTF-8'') (Some ''GBK'') in_buf in_left out_buf out_left"

lemma wr_block_zero_at:
  "wr_block ob 0 ws = Inr ob' \<Longrightarrow> wr_block ob' (length ws) [0] =
     (if length ws < length ob then Inr (ws @ 0 # drop (Suc (length ws)) ob) else Inl OutOfBounds)"
  by (auto simp: wr_block_def split: if_splits)

section \<open>Properties\<close>

text \<open>
  C33. Decoding what the encoder produced gives back the bytes, for every input length and for
  signed and unsigned \<open>char\<close>, and whatever follows the encoded text in the buffer.
\<close>

theorem base64_roundtrip:
  "base64_decode (base64_encode uint bs @ rest) (length (base64_encode uint bs)) = Inr bs \<and>
   base64_decode (base64_encode sint bs @ rest) (length (base64_encode sint bs)) = Inr bs"
  by (simp add: base64_decode_def base64_loop_encode)

text \<open>
  \<open>charset_convert\<close> with a converter that stays within the space it is given and an output
  buffer of exactly the announced size: it writes outside the buffer precisely when a successful
  conversion fills the buffer to the last byte, because the terminating zero goes to
  \<open>out_buf[outLen - out_left]\<close>; otherwise a successful conversion returns the number of bytes and
  leaves them zero-terminated.
\<close>

theorem charset_convert_fills_buffer:
  assumes "iconv_open to from = Some cd"
    and "iconv cd (take in_left ib) (length ob) = (True, written)"
    and "length written \<le> length ob" and "0 < in_left" and "0 < length ob"
  shows "charset_convert iconv_open iconv (Some from) (Some to) (Some ib) in_left (Some ob) (length ob) =
    (if length written = length ob then Inl OutOfBounds
     else Inr (int (length written), Some (written @ 0 # drop (Suc (length written)) ob)))"
proof -
  obtain ob' where ob': "wr_block ob 0 written = Inr ob'"
    using assms(3) by (simp add: wr_block_def)
  have "charset_convert iconv_open iconv (Some from) (Some to) (Some ib) in_left (Some ob) (length ob) =
      bindE (wr_block ob' (length written) [0]) (\<lambda>ob. Inr (int (length written), Some ob))"
    using assms ob' by (simp add: charset_convert_def)
  then show ?thesis
    using assms(3) wr_block_zero_at [OF ob'] by simp
qed

theorem charset_convert_fills_buffer_witness:
  "charset_convert (\<lambda>to from. Some ()) (\<lambda>cd ib n. (True, take n ib)) (Some ''GBK'') (Some ''UTF-8'')
     (Some [0x41, 0x42]) 2 (Some [7, 7]) 2 = Inl OutOfBounds \<and>
   charset_convert (\<lambda>to from. Some ()) (\<lambda>cd ib n. (True, take n ib)) (Some ''GBK'') (Some ''UTF-8'')
     (Some [0x41, 0x42]) 2 (Some [7, 7, 7]) 3 = Inr (2, Some [0x41, 0x42, 0])"
  using charset_convert_fills_buffer [of "\<lambda>to from. Some ()" "''UTF-8''" "''GBK''" "()"
      "\<lambda>cd ib n. (True, take n ib)" 2 "[0x41, 0x42]" "[7, 7]" "[0x41, 0x42]"]
    charset_convert_fills_buffer [of "\<lambda>to from. Some ()" "''UTF-8''" "''GBK''" "()"
      "\<lambda>cd ib n. (True, take n ib)" 2 "[0x41, 0x42]" "[7, 7, 7]" "[0x41, 0x42]"]
  by (simp add: eval_nat_numeral)

end
