(* ===== verification/Bcc.thy ===== *)
theory Bcc
  imports Prelude
begin

text \<open>
  \<open>IMachine::BCCDataCheck\<close> (src/IMachine.cpp): the block check character of the lane protocol,
  the exclusive or of the bytes from index 2 of a frame. Type 0 verifies a frame that carries
  its check byte at the end, any other type computes the check byte. The running value is an
  \<open>unsigned int\<close>, kept here at its 32 bits.

  The interface the rest of the program relies on is the locale \<open>checksum\<close>.
\<close>

section \<open>The code\<close>

text \<open>\<open>for (int i = from; i < to; ++i) xor_checksum ^= data[i];\<close>\<close>

function xor_loop :: "byte list \<Rightarrow> int \<Rightarrow> int \<Rightarrow> 32 word \<Rightarrow> 32 word res" where
  "xor_loop data i n acc =
     (if i < n
      then (if 0 \<le> i \<and> i < int (length data)
            then xor_loop data (i + 1) n (acc XOR ucast (data ! nat i))
            else Inl OutOfBounds)
      else Inr acc)"
  by pat_completeness auto
termination
  by (relation "measure (\<lambda>(data, i, n, acc). nat (n - i))") auto

declare xor_loop.simps [simp del]

definition rd_int :: "byte list \<Rightarrow> int \<Rightarrow> byte res" where
  "rd_int data i = (if 0 \<le> i then rd data (nat i) else Inl OutOfBounds)"

definition BCCDataCheck :: "byte list \<Rightarrow> int \<Rightarrow> int \<Rightarrow> int \<Rightarrow> 32 word res" where
  "BCCDataCheck data startIndex len type =
     (if type = 0
      then bindE (xor_loop data startIndex (startIndex + len - 1) 0) (\<lambda>xor_checksum.
           bindE (rd_int data (startIndex + len - 1)) (\<lambda>last.
           if xor_checksum AND 0xFF = ucast last then Inr 1 else Inr 0))
      else bindE (xor_loop data startIndex (startIndex + len) 0) (\<lambda>xor_checksum.
           Inr (xor_checksum AND 0xFF)))"

section \<open>What it computes\<close>

lemma ucast_xor_byte: "ucast ((a :: byte) XOR b) = (ucast a XOR ucast b :: 32 word)"
  by (rule bit_word_eqI) (auto simp: bit_simps)

lemma ucast_byte_mask [simp]: "(ucast (b :: byte) :: 32 word) AND 0xFF = ucast b"
proof -
  have m: "(0xFF :: 32 word) = mask 8"
    by (simp add: mask_eq_exp_minus_1)
  show ?thesis
    unfolding m using bit_imp_le_length [of b]
    by (auto intro!: bit_word_eqI simp: bit_simps)
qed

lemma ucast_byte_word_byte [simp]: "ucast (ucast (b :: byte) :: 32 word) = b"
  by (rule ucast_up_ucast_id) (simp add: is_up)

lemma ucast_byte_eq_iff [simp]: "(ucast (a :: byte) :: 32 word) = ucast b \<longleftrightarrow> a = b"
  by (metis ucast_byte_word_byte)

lemma xor_loop_xors:
  assumes "i + n \<le> length data"
  shows "xor_loop data (int i) (int i + int n) acc = Inr (acc XOR ucast (xors (segment i n data)))"
  using assms
proof (induction n arbitrary: i acc)
  case 0
  show ?case
    by (simp add: xor_loop.simps [of data "int i"] segment_def)
next
  case (Suc n)
  have "xor_loop data (int i) (int i + int (Suc n)) acc =
      xor_loop data (int (Suc i)) (int (Suc i) + int n) (acc XOR ucast (data ! i))"
    using Suc.prems by (subst xor_loop.simps) (simp add: ac_simps)
  also have "\<dots> = Inr ((acc XOR ucast (data ! i)) XOR ucast (xors (segment (Suc i) n data)))"
    using Suc.prems by (intro Suc.IH) simp
  finally show ?case
    using Suc.prems by (simp add: segment_Suc_conv ucast_xor_byte ac_simps)
qed

text \<open>The two modes in terms of the exclusive or of the checked block.\<close>

lemma BCCDataCheck_compute:
  assumes "type \<noteq> 0" and "s + n \<le> length data"
  shows "BCCDataCheck data (int s) (int n) type = Inr (ucast (xors (segment s n data)))"
  using assms by (simp add: BCCDataCheck_def xor_loop_xors)

lemma BCCDataCheck_verify_last:
  assumes "0 < n" and "s + n \<le> length data"
  shows "BCCDataCheck data (int s) (int n) 0 =
     Inr (if xors (segment s (n - 1) data) = data ! (s + n - 1) then 1 else 0)"
proof -
  obtain m where n: "n = Suc m"
    using assms(1) by (cases n) auto
  have "xor_loop data (int s) (int s + int m) 0 = Inr (ucast (xors (segment s m data)))"
    using assms(2) n by (simp add: xor_loop_xors)
  moreover have "nat (int s + int m) = s + m"
    by simp
  ultimately show ?thesis
    using assms(2) n by (simp add: BCCDataCheck_def rd_int_def)
qed

lemma BCCDataCheck_verify:
  assumes "0 < n" and "s + n \<le> length data"
  shows "BCCDataCheck data (int s) (int n) 0 = Inr (if xors (segment s n data) = 0 then 1 else 0)"
proof -
  obtain m where n: "n = Suc m"
    using assms(1) by (cases n) auto
  have "xors (segment s n data) = xors (segment s m data) XOR data ! (s + m)"
    using assms(2) n by (simp add: segment_snoc xors_append)
  then show ?thesis
    using BCCDataCheck_verify_last [OF assms] n by (simp add: xor_eq_0_conv)
qed

text \<open>An access outside the array is the only way the routine can go wrong.\<close>

lemma xor_loop_fault: "xor_loop data i n acc = Inl e \<Longrightarrow> e = OutOfBounds"
proof (induction data i n acc rule: xor_loop.induct)
  case (1 data i n acc)
  then show ?case
    by (subst (asm) (2) xor_loop.simps) (auto split: if_splits)
qed

lemma BCCDataCheck_out_of_range:
  assumes "length data < s + n" and "0 < n"
  shows "BCCDataCheck data (int s) (int n) 0 = Inl OutOfBounds"
proof -
  have "rd_int data (int s + int n - 1) = Inl OutOfBounds"
    using assms by (auto simp: rd_int_def rd_def)
  then show ?thesis
    by (cases "xor_loop data (int s) (int s + int n - 1) 0")
      (auto simp: BCCDataCheck_def dest: xor_loop_fault)
qed

section \<open>The contract\<close>

text \<open>
  What the sender and the receiver of the lane protocol assume of the check: \<open>compute\<close> gives a
  byte for a block and \<open>accepts\<close> recognises a block that ends in its own check byte and no block
  that differs from such a block in exactly one byte. The senders and receivers use the laws of
  this locale, never the loop.
\<close>

locale checksum =
  fixes compute :: "byte list \<Rightarrow> byte"
    and accepts :: "byte list \<Rightarrow> bool"
  assumes accepts_computed: "accepts (bs @ [compute bs])"
    and accepts_one_byte: "accepts bs \<Longrightarrow> i < length bs \<Longrightarrow> b \<noteq> bs ! i \<Longrightarrow> \<not> accepts (bs[i := b])"
begin

definition seal :: "nat \<Rightarrow> byte list \<Rightarrow> byte list" where
  "seal k bs = bs @ [compute (drop k bs)]"

lemma length_seal [simp]: "length (seal k bs) = Suc (length bs)"
  by (simp add: seal_def)

lemma accepts_seal: "k \<le> length bs \<Longrightarrow> accepts (drop k (seal k bs))"
  by (simp add: seal_def accepts_computed)

lemma seal_detects:
  assumes "k \<le> i" and "i \<le> length bs" and "b \<noteq> seal k bs ! i"
  shows "\<not> accepts (drop k ((seal k bs)[i := b]))"
proof -
  have "accepts (drop k (seal k bs))"
    using assms by (intro accepts_seal) simp
  moreover have "i - k < length (drop k (seal k bs))" and "b \<noteq> drop k (seal k bs) ! (i - k)"
    using assms by simp_all
  ultimately have "\<not> accepts ((drop k (seal k bs))[i - k := b])"
    by (rule accepts_one_byte)
  then show ?thesis
    using assms(1) by (simp add: drop_update_swap)
qed

end

definition bcc_accepts :: "byte list \<Rightarrow> bool" where
  "bcc_accepts bs \<longleftrightarrow> BCCDataCheck bs 0 (int (length bs)) 0 = Inr 1"

definition bcc_compute :: "byte list \<Rightarrow> byte" where
  "bcc_compute bs = (case BCCDataCheck bs 0 (int (length bs)) 2 of Inl e \<Rightarrow> 0 | Inr w \<Rightarrow> ucast w)"

lemma bcc_accepts_xors: "bs \<noteq> [] \<Longrightarrow> bcc_accepts bs \<longleftrightarrow> xors bs = 0"
  using BCCDataCheck_verify [of "length bs" 0 bs] by (simp add: bcc_accepts_def segment_def)

lemma BCCDataCheck_accepts:
  assumes "0 < n" and "s + n \<le> length data"
  shows "BCCDataCheck data (int s) (int n) 0 = Inr (if bcc_accepts (segment s n data) then 1 else 0)"
proof -
  have "segment s n data \<noteq> []"
    using assms by (auto simp: segment_def)
  then show ?thesis
    using assms by (simp add: BCCDataCheck_verify bcc_accepts_xors)
qed

lemma bcc_compute_xors: "bcc_compute bs = xors bs"
  using BCCDataCheck_compute [of 2 0 "length bs" bs]
  by (simp add: bcc_compute_def segment_def)

interpretation bcc: checksum bcc_compute bcc_accepts
proof
  show "bcc_accepts (bs @ [bcc_compute bs])" for bs
    by (simp add: bcc_accepts_xors bcc_compute_xors xors_append)
next
  fix bs :: "byte list" and i b
  assume "bcc_accepts bs" and i: "i < length bs" and b: "b \<noteq> bs ! i"
  then have "xors bs = 0"
    using bcc_accepts_xors [of bs] by force
  moreover have "xors (bs[i := b]) \<noteq> xors bs"
    using i b by (rule xors_update_changes)
  ultimately show "\<not> bcc_accepts (bs[i := b])"
    using i bcc_accepts_xors [of "bs[i := b]"] by force
qed

section \<open>Properties\<close>

text \<open>
  C32. Verifying mode accepts a block exactly when the exclusive or of the whole block, its check
  byte included, is zero, wherever in the array the block starts; and it answers 0 or 1, never
  a fault, as long as the block lies inside the array.
\<close>

theorem bcc_verify_iff_xor_zero:
  assumes "0 < n" and "s + n \<le> length data"
  shows "BCCDataCheck data (int s) (int n) 0 = Inr (if xors (segment s n data) = 0 then 1 else 0)"
  using assms by (rule BCCDataCheck_verify)

theorem bcc_verify_iff_xor_zero_witness:
  "BCCDataCheck [0xFF, 0xFF, 0, 0x90, 0x90] (int 2) (int 3) 0 = Inr 1"
  using bcc_verify_iff_xor_zero [of 3 2 "[0xFF, 0xFF, 0, 0x90, 0x90]"]
  by (simp add: segment_def)

text \<open>
  A frame sealed by the sender (check byte over the bytes from index 2 on) passes the
  receiver's check, and after any single byte from index 2 on is corrupted, the check byte
  included, the receiver refuses it.
\<close>

theorem bcc_seal_detects_one_byte:
  assumes "2 \<le> i" and "i \<le> length body" and "b \<noteq> (body @ [bcc_compute (drop 2 body)]) ! i"
  shows "BCCDataCheck (body @ [bcc_compute (drop 2 body)]) 2 (int (length body - 1)) 0 = Inr 1 \<and>
    BCCDataCheck ((body @ [bcc_compute (drop 2 body)])[i := b]) 2 (int (length body - 1)) 0 = Inr 0"
proof -
  let ?fr = "bcc.seal 2 body"
  have "BCCDataCheck xs 2 (int (length body - 1)) 0 = Inr (if bcc_accepts (drop 2 xs) then 1 else 0)"
    if "length xs = length ?fr" for xs
    using BCCDataCheck_accepts [of "length body - 1" 2 xs] that assms(1,2)
    by (simp add: segment_def)
  moreover have "bcc_accepts (drop 2 ?fr)"
    using assms(1,2) by (simp add: bcc.accepts_seal)
  moreover have "\<not> bcc_accepts (drop 2 (?fr[i := b]))"
    using assms by (intro bcc.seal_detects) (simp_all add: bcc.seal_def)
  ultimately show ?thesis
    by (simp flip: bcc.seal_def)
qed

theorem bcc_seal_detects_one_byte_witness:
  "BCCDataCheck [0xFF, 0xFF, 0, 0x90, 0x90] 2 3 0 = Inr 1 \<and>
   BCCDataCheck [0xFF, 0xFF, 1, 0x90, 0x90] 2 3 0 = Inr 0"
  using bcc_seal_detects_one_byte [of 2 "[0xFF, 0xFF, 0, 0x90]" 1]
  by (simp add: bcc_compute_xors)

end
