(* ===== verification/Framing.thy ===== *)
theory Framing
  imports Bcc
begin

text \<open>
  \<open>ReceiveCmd1\<close> and \<open>ReceiveCmd2\<close> (src/IMachine.cpp), the frame parsers of the two connections:
  they collect what \<open>recv\<close> returns in a 2048-byte array, look for the header FF FF, take the length
  of the frame from its kind, verify its check byte and hand the frame on. The two functions differ
  in the server and in the client they name.

  The local variables that survive a turn of the loop are the record \<open>rx\<close>. \<open>Command_Len\<close> is not
  initialised, and keeps its value when a frame is of no known kind: \<open>None\<close> is the uninitialised
  value. Handing a frame on is the argument \<open>deliver\<close>, which gets \<open>&Recv_Data[Index1]\<close> and the length.
\<close>

section \<open>The code\<close>

record rx =
  Recv_Data :: "byte list"
  pos :: nat
  Index1 :: int
  Index2 :: nat
  Command_Len :: "nat option"

definition rx_start :: "byte list \<Rightarrow> rx" where
  "rx_start junk = \<lparr>Recv_Data = junk, pos = 0, Index1 = -1, Index2 = 0, Command_Len = None\<rparr>"

text \<open>\<open>for (i = from; i < n; i++)\<close> looking for FF FF: whether it was found, and \<open>i\<close> after the loop.\<close>

function find_head :: "byte list \<Rightarrow> nat \<Rightarrow> nat \<Rightarrow> bool \<times> nat" where
  "find_head buf i n =
     (if i < n then if buf ! i = 0xFF \<and> buf ! (i + 1) = 0xFF then (True, i) else find_head buf (i + 1) n
      else (False, i))"
  by pat_completeness auto
termination
  by (relation "measure (\<lambda>(buf, i, n). n - i)") auto

declare find_head.simps [simp del]

text \<open>The length of the frame at \<open>i\<close>, by its kind; \<open>old\<close> is the value \<open>Command_Len\<close> had.\<close>

definition frame_length :: "byte list \<Rightarrow> nat \<Rightarrow> nat option \<Rightarrow> nat option res" where
  "frame_length buf i old =
     bindE (rd buf (i + 13)) (\<lambda>b13.
     bindE (rd buf (i + 8)) (\<lambda>b8.
     bindE (rd buf (i + 6)) (\<lambda>b6.
     bindE (rd buf (i + 3)) (\<lambda>b3.
     Inr (if b13 = 0x44 then Some 58
          else if b13 = 0x64 then Some 87
          else if b13 = 0x07 then Some 23
          else if b8 = 0xAE then Some 11
          else if b13 = 0x53 then Some (unat b6 + 9 + 10)
          else if b8 = 0xA3 then Some 11
          else if b3 = 0x90 then Some 9
          else old)))))"

text \<open>What the parser requires of the rest of the buffer before it looks at it as a frame.\<close>

definition announced :: "byte list \<Rightarrow> int res" where
  "announced buf =
     bindE (rd buf 9) (\<lambda>b9. bindE (rd buf 10) (\<lambda>b10. bindE (rd buf 11) (\<lambda>b11. bindE (rd buf 12) (\<lambda>b12.
     bindE (rd buf 7) (\<lambda>b7. bindE (rd buf 5) (\<lambda>b5. bindE (rd buf 3) (\<lambda>b3.
     Inr (if b9 = 0xA0 \<and> b10 = 0xB0 \<and> b11 = 0xC0 \<and> b12 = 0xD0 then uint b7 + 9
          else if b3 = 0x90 then uint b5 + 7
          else uint b7))))))))"

text \<open>After a frame: drop it, and say whether the rest is to be parsed now (\<open>goto Find_Frame\<close>).\<close>

definition next_frame :: "rx \<Rightarrow> (bool \<times> rx) res" where
  "next_frame r =
     (let cleared = replicate (length (Recv_Data r)) 0
      in if Index2 r = 0
         then Inr (False, r\<lparr>pos := 0, Index1 := -1, Index2 := 0, Recv_Data := cleared\<rparr>)
         else let n = pos r - Index2 r; rest = take n (drop (Index2 r) (Recv_Data r));
                  r = r\<lparr>pos := n, Recv_Data := rest @ drop n cleared\<rparr>
              in if n < 4 then Inr (False, r\<lparr>Index1 := -1, Index2 := 0\<rparr>)
                 else bindE (announced (Recv_Data r)) (\<lambda>a.
                      if a > int n then Inr (False, r\<lparr>Index1 := -1, Index2 := 0\<rparr>)
                      else Inr (True, r\<lparr>Index1 := -1, Index2 := 0\<rparr>)))"

text \<open>The check of the frame at \<open>Index1\<close>, of length \<open>L\<close>; a wrong frame is left for the second header in it.\<close>

definition check_frame ::
  "(byte list \<Rightarrow> int \<Rightarrow> 's \<Rightarrow> 's res) \<Rightarrow> nat \<Rightarrow> rx \<Rightarrow> 's \<Rightarrow> (bool \<times> rx \<times> 's) res" where
  "check_frame deliver L r s =
     bindE (BCCDataCheck (Recv_Data r) (Index1 r + 2) (int L - 2) 0) (\<lambda>bcc.
     if bcc = 1
     then bindE (deliver (drop (nat (Index1 r)) (Recv_Data r)) (int L) s) (\<lambda>s.
          bindE (next_frame r) (\<lambda>(again, r). Inr (again, r, s)))
     else case find_head (Recv_Data r) (nat (Index1 r) + 1) (pos r - 1) of
            (True, j) \<Rightarrow> Inr (True, r\<lparr>Index1 := -1, Index2 := j\<rparr>, s)
          | (False, _) \<Rightarrow> Inr (False, r\<lparr>Index2 := 0, pos := 0\<rparr>, s))"

text \<open>The length of the frame, and whether all of it is there.\<close>

definition measure_frame ::
  "(byte list \<Rightarrow> int \<Rightarrow> 's \<Rightarrow> 's res) \<Rightarrow> nat \<Rightarrow> rx \<Rightarrow> 's \<Rightarrow> (bool \<times> rx \<times> 's) res" where
  "measure_frame deliver i r s =
     bindE (frame_length (Recv_Data r) i (Command_Len r)) (\<lambda>cl.
     let r = r\<lparr>Command_Len := cl\<rparr>
     in case cl of
          None \<Rightarrow> Inl Uninitialised
        | Some L \<Rightarrow>
            if int L > int (pos r) - Index1 r then Inr (False, r, s)
            else check_frame deliver L
                   (r\<lparr>Index2 := if int L < int (pos r) - Index1 r then nat (Index1 r) + L else 0\<rparr>) s)"

text \<open>From the label \<open>Find_Frame\<close> to the next \<open>continue\<close> (False) or \<open>goto Find_Frame\<close> (True).\<close>

definition frame_pass ::
  "(byte list \<Rightarrow> int \<Rightarrow> 's \<Rightarrow> 's res) \<Rightarrow> rx \<Rightarrow> 's \<Rightarrow> (bool \<times> rx \<times> 's) res" where
  "frame_pass deliver r s =
     (case find_head (Recv_Data r) (Index2 r) (pos r - 1) of (found, i) \<Rightarrow>
        let r = (if found then r\<lparr>Index1 := int i\<rparr> else r)
        in if Index1 r < 0 then Inr (False, r\<lparr>Index2 := 0, pos := 0\<rparr>, s)
           else if int (pos r) - Index1 r < 7 then Inr (False, r, s)
           else measure_frame deliver i r s)"

section \<open>The parser ends\<close>

lemma find_head_bounds:
  "find_head buf i n = (b, j) \<Longrightarrow> i \<le> j \<and> (b \<longrightarrow> j < n \<and> buf ! j = 0xFF \<and> buf ! Suc j = 0xFF)"
proof (induction buf i n rule: find_head.induct)
  case (1 buf i n)
  from 1(2) show ?case
    by (subst (asm) find_head.simps) (use 1(1) in \<open>auto split: if_splits\<close>)
qed

lemma frame_length_pos: "frame_length buf i old = Inr (Some L) \<Longrightarrow> 9 \<le> L \<or> old = Some L"
  by (auto simp: frame_length_def res_conv split: if_splits)

lemma next_frame_again:
  assumes "next_frame r = Inr (True, r')" and "Index2 r \<noteq> 0" and "0 < pos r"
  shows "pos r' < pos r"
  using assms by (auto simp: next_frame_def Let_def res_conv split: if_splits)

definition rx_measure :: "rx \<Rightarrow> nat \<times> nat \<times> nat" where
  "rx_measure r = (pos r, if Index1 r < 0 then 0 else 1, pos r - Index2 r)"

text \<open>A jump back either consumed bytes, or forgot a header, or starts the search further on.\<close>

lemma check_frame_again:
  assumes "check_frame deliver L r s = Inr (True, r', s')" and "0 < pos r" and "0 \<le> Index1 r"
  shows "pos r' < pos r \<or> pos r' = pos r \<and> Index1 r' = -1 \<and> Index1 r < int (Index2 r') \<and> Index2 r' < pos r"
proof -
  obtain bcc where bcc: "BCCDataCheck (Recv_Data r) (Index1 r + 2) (int L - 2) 0 = Inr bcc"
    using assms(1) by (auto simp: check_frame_def res_conv)
  show ?thesis
  proof (cases "bcc = 1")
    case True
    then have nf: "next_frame r = Inr (True, r')"
      using assms(1) bcc by (auto simp: check_frame_def res_conv)
    then have "Index2 r \<noteq> 0"
      by (auto simp: next_frame_def Let_def split: if_splits)
    with next_frame_again [OF nf] assms(2) show ?thesis
      by blast
  next
    case False
    obtain f j where j: "find_head (Recv_Data r) (nat (Index1 r) + 1) (pos r - 1) = (f, j)"
      by fastforce
    with False assms(1) bcc have "f" and "r' = r\<lparr>Index1 := -1, Index2 := j\<rparr>"
      by (auto simp: check_frame_def split: bool.splits)
    then show ?thesis
      using find_head_bounds [OF j] assms(3) by auto
  qed
qed

lemma measure_frame_again:
  assumes "measure_frame deliver i r s = Inr (True, r', s')" and "0 < pos r" and "0 \<le> Index1 r"
  shows "pos r' < pos r \<or> pos r' = pos r \<and> Index1 r' = -1 \<and> Index1 r < int (Index2 r') \<and> Index2 r' < pos r"
proof -
  obtain cl where cl: "frame_length (Recv_Data r) i (Command_Len r) = Inr cl"
    using assms(1) by (auto simp: measure_frame_def res_conv)
  then obtain L where "cl = Some L"
    using assms(1) by (cases cl) (auto simp: measure_frame_def)
  with cl assms(1) have "check_frame deliver L (r\<lparr>Command_Len := Some L,
      Index2 := if int L < int (pos r) - Index1 r then nat (Index1 r) + L else 0\<rparr>) s = Inr (True, r', s')"
    by (simp add: measure_frame_def Let_def split: if_splits)
  from check_frame_again [OF this] assms(2,3) show ?thesis
    by simp
qed

lemma frame_pass_again:
  assumes "frame_pass deliver r s = Inr (True, r', s')"
  shows "(rx_measure r', rx_measure r) \<in> less_than <*lex*> less_than <*lex*> less_than"
proof -
  obtain found i where h: "find_head (Recv_Data r) (Index2 r) (pos r - 1) = (found, i)"
    by fastforce
  note hb = find_head_bounds [OF h]
  define r1 where "r1 = (if found then r\<lparr>Index1 := int i\<rparr> else r)"
  have r1: "pos r1 = pos r" "Index2 r1 = Index2 r"
    by (simp_all add: r1_def)
  have "0 \<le> Index1 r1" and p: "7 \<le> int (pos r1) - Index1 r1"
    and m: "measure_frame deliver i r1 s = Inr (True, r', s')"
    using assms unfolding frame_pass_def h by (auto simp: r1_def Let_def split: if_splits)
  moreover have "0 < pos r1"
    using p \<open>0 \<le> Index1 r1\<close> by simp
  ultimately consider "pos r' < pos r"
    | "pos r' = pos r" "Index1 r' = -1" "Index1 r1 < int (Index2 r')" "Index2 r' < pos r"
    using measure_frame_again [OF m] r1 by auto
  then show ?thesis
  proof cases
    case 1
    then show ?thesis by (simp add: rx_measure_def)
  next
    case 2
    show ?thesis
    proof (cases "Index1 r < 0")
      case True
      then have "found"
        using \<open>0 \<le> Index1 r1\<close> by (auto simp: r1_def split: if_splits)
      then have "Index2 r < Index2 r'"
        using hb 2(3) by (simp add: r1_def)
      then show ?thesis
        using 2 True by (auto simp: rx_measure_def)
    next
      case False
      then show ?thesis
        using 2 by (simp add: rx_measure_def)
    qed
  qed
qed

function find_frame ::
  "(byte list \<Rightarrow> int \<Rightarrow> 's \<Rightarrow> 's res) \<Rightarrow> rx \<Rightarrow> 's \<Rightarrow> (rx \<times> 's) res" where
  "find_frame deliver r s =
     bindE (frame_pass deliver r s) (\<lambda>(again, r, s).
       if again then find_frame deliver r s else Inr (r, s))"
  by pat_completeness auto
termination
  by (relation "inv_image (less_than <*lex*> less_than <*lex*> less_than) (\<lambda>(deliver, r, s). rx_measure r)")
    (auto intro: frame_pass_again simp del: in_lex_prod in_measure)

declare find_frame.simps [simp del]

text \<open>One turn of the outer loop: \<open>memcpy (Recv_Data + pos, ...)\<close>, then the frames it completes.\<close>

definition recv_chunk ::
  "(byte list \<Rightarrow> int \<Rightarrow> 's \<Rightarrow> 's res) \<Rightarrow> byte list \<Rightarrow> rx \<Rightarrow> 's \<Rightarrow> (rx \<times> 's) res" where
  "recv_chunk deliver chunk r s =
     bindE (wr_block (Recv_Data r) (pos r) chunk) (\<lambda>buf.
     let r = r\<lparr>Recv_Data := buf, pos := pos r + length chunk\<rparr>
     in if pos r < 4 then Inr (r, s) else find_frame deliver r s)"

section \<open>Frames of the protocol\<close>

text \<open>
  A frame the parser can recognise: header, zero bytes at index 2 and 4, a correct check byte, and
  a length (as the parser computes it for the frame followed by zeros) that is its own; and the
  length it announces in its length field is not more than that.
\<close>

abbreviation zeros :: "nat \<Rightarrow> byte list" where
  "zeros n \<equiv> replicate n 0"

definition wf_frame :: "byte list \<Rightarrow> bool" where
  "wf_frame f \<longleftrightarrow> 9 \<le> length f \<and> f ! 0 = 0xFF \<and> f ! 1 = 0xFF \<and> f ! 2 = 0 \<and> f ! 4 = 0 \<and>
     bcc_accepts (drop 2 f) \<and> frame_length (f @ zeros 14) 0 None = Inr (Some (length f)) \<and>
     (case announced (f @ zeros 14) of Inl _ \<Rightarrow> False | Inr a \<Rightarrow> a \<le> int (length f))"

text \<open>
  The values of the 14th byte that decide the length of a frame, whatever its other bytes are, and an
  array without them. What the array holds beyond the bytes received is read as the 14th byte of a frame
  shorter than that: zeros after the array was cleared, but stale bytes before the first frame of a connection (the array
  is never initialised) and after a lone damaged frame.
\<close>

definition length_marks :: "byte set" where
  "length_marks = {0x44, 0x64, 0x07, 0x53}"

definition unmarked :: "byte list \<Rightarrow> bool" where
  "unmarked z \<longleftrightarrow> (\<forall>b\<in>set z. b \<notin> length_marks)"

lemma unmarked_zeros [simp]: "unmarked (zeros n)"
  by (simp add: unmarked_def length_marks_def)

lemma unmarked_drop [simp]: "unmarked z \<Longrightarrow> unmarked (drop n z)"
  by (auto simp: unmarked_def dest: in_set_dropD)

lemma unmarked_nth: "unmarked z \<Longrightarrow> i < length z \<Longrightarrow> z ! i \<notin> length_marks"
  by (simp add: unmarked_def)

text \<open>What may follow a frame of 9 or 11 bytes without changing its length.\<close>

definition quiet_next :: "byte list \<Rightarrow> bool" where
  "quiet_next t \<longleftrightarrow> 5 \<le> length t \<and> t ! 2 \<notin> length_marks \<and> t ! 4 \<notin> length_marks"

text \<open>What may follow a frame in the buffer: the beginning of a frame, or zeros.\<close>

definition follows :: "byte list \<Rightarrow> bool" where
  "follows t \<longleftrightarrow> 5 \<le> length t \<and> (t ! 0 = 0 \<or> t ! 0 = 0xFF) \<and> t ! 2 = 0 \<and> t ! 4 = 0"

lemma follows_quiet: "follows t \<Longrightarrow> quiet_next t"
  by (simp add: follows_def quiet_next_def length_marks_def)

lemma frame_length_cong:
  assumes "13 < length a" and "13 < length b" and "a ! 13 = b ! 13" and "a ! 8 = b ! 8" and "a ! 6 = b ! 6"
    and "a ! 3 = b ! 3"
  shows "frame_length a 0 old = frame_length b 0 old"
  using assms by (simp add: frame_length_def)

lemma announced_cong:
  assumes "12 < length a" and "12 < length b" and "\<forall>i\<in>{3, 5, 7, 9, 10, 11, 12}. a ! i = b ! i"
  shows "announced a = announced b"
  using assms by (simp add: announced_def)

text \<open>A frame of at least 14 bytes decides its length alone; the shorter kinds are 9 and 11 bytes long.\<close>

lemma frame_length_known:
  "frame_length buf 0 None = Inr (Some L) \<Longrightarrow> frame_length buf 0 old = Inr (Some L)"
  by (auto simp: frame_length_def res_conv split: if_splits)

lemma wf_frameD:
  assumes "wf_frame f"
  shows "9 \<le> length f" "f ! 0 = 0xFF" "f ! 1 = 0xFF" "f ! 2 = 0" "f ! 4 = 0" "bcc_accepts (drop 2 f)"
    and "frame_length (f @ zeros 14) 0 None = Inr (Some (length f))"
    and "\<exists>a. announced (f @ zeros 14) = Inr a \<and> a \<le> int (length f)"
  using assms unfolding wf_frame_def by (blast, blast, blast, blast, blast, blast, blast, auto split: sum.splits)

lemma frame_length_values:
  "frame_length buf 0 None = Inr (Some L) \<Longrightarrow> L \<in> {58, 87, 23, 11, 9} \<or> 19 \<le> L"
  by (auto simp: frame_length_def res_conv split: if_splits)

lemma wf_frame_lengths:
  assumes "wf_frame f"
  shows "14 \<le> length f \<or> length f = 9 \<or> length f = 11"
proof -
  have "frame_length (f @ zeros 14) 0 None = Inr (Some (length f))"
    using assms by (rule wf_frameD)
  from frame_length_values [OF this] show ?thesis
    by auto
qed

lemma frame_length_unmarked:
  assumes "13 < length a" and "13 < length b" and "a ! 13 \<notin> length_marks" and "b ! 13 \<notin> length_marks"
    and "a ! 8 = b ! 8" and "a ! 3 = b ! 3"
  shows "frame_length a 0 old = frame_length b 0 old"
  using assms by (simp add: frame_length_def length_marks_def)

lemma wf_frame_length:
  assumes "wf_frame f" and "quiet_next t"
  shows "frame_length (f @ t) 0 old = Inr (Some (length f))"
proof -
  have f: "9 \<le> length f" "frame_length (f @ zeros 14) 0 old = Inr (Some (length f))"
    using wf_frameD(1) [OF assms(1)] frame_length_known [OF wf_frameD(7) [OF assms(1)]] by blast+
  have t: "5 \<le> length t" "t ! 2 \<notin> length_marks" "t ! 4 \<notin> length_marks"
    using assms(2) by (simp_all add: quiet_next_def)
  have same: "(f @ t) ! i = (f @ zeros 14) ! i" if "i < length f" for i
    using that by (simp add: nth_append)
  have "frame_length (f @ t) 0 old = frame_length (f @ zeros 14) 0 old"
  proof (cases "14 \<le> length f")
    case True
    then show ?thesis
      using same by (intro frame_length_cong) simp_all
  next
    case False
    then have l: "length f = 9 \<or> length f = 11"
      using wf_frame_lengths [OF assms(1)] by simp
    then have "(f @ t) ! 13 \<notin> length_marks" and "(f @ zeros 14) ! 13 \<notin> length_marks"
      using t(2,3) by (auto simp: nth_append length_marks_def)
    then show ?thesis
      using f(1) t(1) same by (intro frame_length_unmarked) simp_all
  qed
  with f(2) show ?thesis by simp
qed

lemma wf_announced:
  assumes "wf_frame f" and "follows t"
  shows "\<exists>a. announced (f @ t) = Inr a \<and> a \<le> int (length f)"
proof -
  have f: "9 \<le> length f"
    using assms(1) by (rule wf_frameD)
  obtain a where a: "announced (f @ zeros 14) = Inr a" "a \<le> int (length f)"
    using wf_frameD(8) [OF assms(1)] by blast
  have t: "5 \<le> length t" "t ! 0 = 0 \<or> t ! 0 = 0xFF"
    using assms(2) by (simp_all add: follows_def)
  have same: "(f @ t) ! i = (f @ zeros 14) ! i" if "i < length f" for i
    using that by (simp add: nth_append)
  show ?thesis
  proof (cases "14 \<le> length f")
    case True
    have "announced (f @ t) = announced (f @ zeros 14)"
      using True t(1) by (intro announced_cong) (auto simp: nth_append)
    then show ?thesis
      using a by auto
  next
    case False
    then have l: "length f = 9 \<or> length f = 11"
      using wf_frame_lengths [OF assms(1)] by simp
    have "\<not> ((f @ t) ! 9 = 0xA0 \<and> (f @ t) ! 10 = 0xB0 \<and> (f @ t) ! 11 = 0xC0 \<and> (f @ t) ! 12 = 0xD0)"
      using l t(2) by (auto simp: nth_append)
    moreover have "\<not> ((f @ zeros 14) ! 11 = 0xC0)"
      using l by (auto simp: nth_append)
    ultimately have "announced (f @ t) = announced (f @ zeros 14)"
      using f t(1) l same [of 3] same [of 5] same [of 7] by (auto simp: announced_def)
    then show ?thesis
      using a by auto
  qed
qed

lemma find_head_here: "i < n \<Longrightarrow> buf ! i = 0xFF \<Longrightarrow> buf ! Suc i = 0xFF \<Longrightarrow> find_head buf i n = (True, i)"
  by (subst find_head.simps) simp

section \<open>A buffer that starts with a frame\<close>

text \<open>
  At the head of the loop, and before every jump back from a good frame, the array holds the bytes \<open>q\<close> that
  are not yet consumed, followed by \<open>z\<close>, whatever it held there; \<open>k\<close> is what is left in \<open>Index1\<close>. A good
  frame clears the array: after it \<open>z\<close> consists of zeros.
\<close>

definition over :: "byte list \<Rightarrow> byte list \<Rightarrow> int \<Rightarrow> nat option \<Rightarrow> rx" where
  "over z q k cl = \<lparr>Recv_Data = q @ z, pos = length q, Index1 = k, Index2 = 0, Command_Len = cl\<rparr>"

definition holding :: "byte list \<Rightarrow> int \<Rightarrow> nat option \<Rightarrow> rx" where
  "holding q = over (zeros (2048 - length q)) q"

lemma over_sel [simp]:
  "Recv_Data (over z q k cl) = q @ z" "pos (over z q k cl) = length q"
  "Index1 (over z q k cl) = k" "Index2 (over z q k cl) = 0" "Command_Len (over z q k cl) = cl"
  by (simp_all add: over_def)

lemma holding_sel [simp]:
  "Recv_Data (holding q k cl) = q @ zeros (2048 - length q)" "pos (holding q k cl) = length q"
  "Index1 (holding q k cl) = k" "Index2 (holding q k cl) = 0" "Command_Len (holding q k cl) = cl"
  by (simp_all add: holding_def)

text \<open>The stale bytes fill the array and bear no mark.\<close>

definition stale :: "byte list \<Rightarrow> byte list \<Rightarrow> bool" where
  "stale z q \<longleftrightarrow> length (q @ z) = 2048 \<and> unmarked z"

lemma stale_zeros [simp]: "length q \<le> 2048 \<Longrightarrow> stale (zeros (2048 - length q)) q"
  by (simp add: stale_def)

lemma rx_start_over: "rx_start junk = over junk [] (-1) None"
  by (simp add: rx_start_def over_def)

lemma follows_zeros: "5 \<le> n \<Longrightarrow> follows (zeros n)"
  by (simp add: follows_def)

lemma follows_prefix:
  assumes "wf_frame g" and "take (length q) g = q" and "5 \<le> n" and "q \<noteq> []"
  shows "follows (q @ zeros n)"
proof -
  have "(q @ zeros n) ! i = (if i < length q then g ! i else 0)" if "i < 5" for i
    using that assms(3) nth_take [of i "length q" g] assms(2) by (auto simp: nth_append)
  from this [of 0] this [of 2] this [of 4] show ?thesis
    using wf_frameD [OF assms(1)] assms(3) by (simp add: follows_def)
qed

lemma follows_frame:
  assumes "wf_frame g"
  shows "follows (g @ t)"
proof -
  have "g \<noteq> []"
    using wf_frameD(1) [OF assms] by auto
  then show ?thesis
    using wf_frameD(1-5) [OF assms] by (simp add: follows_def nth_append)
qed

lemma wf_frame_bcc:
  assumes "wf_frame f"
  shows "BCCDataCheck (f @ t) 2 (int (length f) - 2) 0 = Inr 1"
proof -
  have f: "9 \<le> length f" "bcc_accepts (drop 2 f)"
    using wf_frameD [OF assms] by blast+
  then have n: "int (length f) - 2 = int (length f - 2)" and "segment 2 (length f - 2) (f @ t) = drop 2 f"
    by (simp_all add: segment_def)
  then show ?thesis
    using BCCDataCheck_accepts [of "length f - 2" 2 "f @ t"] f by simp
qed

text \<open>The pass over a frame followed by \<open>t\<close>: it is delivered, and \<open>t\<close> is what remains.\<close>

lemma frame_pass_frame:
  assumes "wf_frame f" and "quiet_next (t @ z)" and "length (f @ t @ z) = 2048"
  shows "frame_pass deliver (over z (f @ t) k cl) s =
    bindE (deliver (f @ t @ z) (int (length f)) s) (\<lambda>s.
    if t = [] then Inr (False, holding [] (-1) (Some (length f)), s)
    else if length t < 4 then Inr (False, holding t (-1) (Some (length f)), s)
    else bindE (announced (t @ zeros (2048 - length t))) (\<lambda>a.
      Inr (a \<le> int (length t), holding t (-1) (Some (length f)), s)))"
proof -
  note fD = wf_frameD [OF assms(1)]
  have fne: "f \<noteq> []"
    using fD(1) by auto
  let ?r = "over z (f @ t) k cl"
  let ?buf = "f @ t @ z"
  have h: "find_head ?buf 0 (length (f @ t) - 1) = (True, 0)"
    using fD by (intro find_head_here) (auto simp: nth_append)
  have fl: "frame_length ?buf 0 cl = Inr (Some (length f))"
    using wf_frame_length [OF assms(1,2)] .
  have bcc: "BCCDataCheck ?buf 2 (int (length f) - 2) 0 = Inr 1"
    using wf_frame_bcc [OF assms(1)] .
  let ?r2 = "?r\<lparr>Index1 := 0, Command_Len := Some (length f), Index2 := if t = [] then 0 else length f\<rparr>"
  have tk: "take (length t) (t @ z) = t" and dr: "drop (length f) ?buf = t @ z"
    by simp_all
  have nf: "next_frame ?r2 = (if t = [] then Inr (False, holding [] (-1) (Some (length f)))
      else if length t < 4 then Inr (False, holding t (-1) (Some (length f)))
      else bindE (announced (t @ zeros (2048 - length t))) (\<lambda>a.
        Inr (a \<le> int (length t), holding t (-1) (Some (length f)))))"
  proof (cases "t = []")
    case True
    then show ?thesis
      using assms(3) by (simp add: next_frame_def holding_def over_def)
  next
    case False
    have l: "length f + (length t + length z) = 2048"
      using assms(3) by simp
    show ?thesis
      using False fD(1) fne by (simp add: next_frame_def holding_def over_def l Let_def not_le [symmetric])
        (cases "announced (t @ zeros (2048 - length t))"; simp)
  qed
  have "frame_pass deliver ?r s = measure_frame deliver 0 (?r\<lparr>Index1 := 0\<rparr>) s"
    using fD(1) h by (simp add: frame_pass_def Let_def)
  also have "\<dots> = check_frame deliver (length f) ?r2 s"
    using fl by (simp add: measure_frame_def Let_def)
  also have "\<dots> = bindE (deliver ?buf (int (length f)) s) (\<lambda>s. bindE (next_frame ?r2) (\<lambda>(again, r). Inr (again, r, s)))"
    using bcc by (simp add: check_frame_def)
  finally show ?thesis
    unfolding nf by (auto simp: bindE_assoc intro!: bindE_cong)
qed

section \<open>A stream of frames\<close>

text \<open>
  Where a read may end: between two frames, or inside one, but not right after its 7th to its 13th
  byte, because the parser takes the kind of a frame of 7 bytes or more from its 14th byte.
\<close>

definition good_cut :: "byte list \<Rightarrow> bool" where
  "good_cut q \<longleftrightarrow> q = [] \<or> (\<exists>g. wf_frame g \<and> take (length q) g = q \<and> length q < length g \<and>
     (length q < 7 \<or> 14 \<le> length q))"

text \<open>
  The frames in the buffer handed on in order, each with everything the array holds behind it: the first
  is followed by \<open>z\<close>, the others by the zeros its success leaves.
\<close>

fun deliver_stream ::
  "(byte list \<Rightarrow> int \<Rightarrow> 's \<Rightarrow> 's res) \<Rightarrow> byte list \<Rightarrow> byte list list \<Rightarrow> byte list \<Rightarrow> 's \<Rightarrow> 's res" where
  "deliver_stream deliver z [] q s = Inr s"
| "deliver_stream deliver z (f # fs) q s =
     bindE (deliver (f @ (concat fs @ q) @ z) (int (length f)) s)
       (deliver_stream deliver (zeros (2048 - length (concat fs @ q))) fs q)"

definition left_over :: "byte list \<Rightarrow> byte list list \<Rightarrow> byte list \<Rightarrow> byte list" where
  "left_over z fs q = (if fs = [] then z else zeros (2048 - length q))"

lemma find_frame_pass:
  "frame_pass deliver r s = Inr (False, r', s') \<Longrightarrow> find_frame deliver r s = Inr (r', s')"
  by (subst find_frame.simps) simp

lemma find_frame_waits:
  assumes "good_cut q" and "4 \<le> length q" and "5 \<le> length z"
  shows "\<exists>cl'. \<forall>s. find_frame deliver (over z q k cl) s = Inr (over z q 0 cl', s)"
proof -
  obtain g where g: "wf_frame g" "take (length q) g = q" "length q < length g" "length q < 7 \<or> 14 \<le> length q"
    using assms(1,2) by (auto simp: good_cut_def)
  note gD = wf_frameD [OF g(1)]
  let ?buf = "q @ z"
  have nth: "?buf ! i = g ! i" if "i < length q" for i
    using that nth_take [of i "length q" g] g(2) by (simp add: nth_append)
  have h: "find_head ?buf 0 (length q - 1) = (True, 0)"
  proof (rule find_head_here)
    have "0 < length q" and "Suc 0 < length q"
      using assms(2) by linarith+
    then show "?buf ! 0 = 0xFF" and "?buf ! Suc 0 = 0xFF"
      using nth gD(2,3) by (simp_all only: One_nat_def)
  qed (use assms(2) in simp)
  show ?thesis
  proof (cases "length q < 7")
    case True
    then have "frame_pass deliver (over z q k cl) s = Inr (False, over z q 0 cl, s)" for s
      using h by (simp add: frame_pass_def over_def Let_def)
    then show ?thesis
      by (intro exI allI find_frame_pass)
  next
    case False
    then have l: "14 \<le> length q"
      using g(4) by simp
    have "frame_length ?buf 0 cl = frame_length (g @ zeros 14) 0 cl"
      using l g(3) assms(3) nth by (intro frame_length_cong) (simp_all add: nth_append)
    also have "\<dots> = Inr (Some (length g))"
      using frame_length_known [OF gD(7)] .
    finally have "frame_pass deliver (over z q k cl) s = Inr (False, over z q 0 (Some (length g)), s)" for s
      using h l g(3) by (simp add: frame_pass_def measure_frame_def over_def Let_def)
    then show ?thesis
      by (intro exI allI find_frame_pass)
  qed
qed

lemma announced_total: "13 \<le> length buf \<Longrightarrow> \<exists>a. announced buf = Inr a"
  by (simp add: announced_def)

lemma stream_follows:
  assumes "\<forall>f\<in>set fs. wf_frame f" and "good_cut q" and "5 \<le> n"
  shows "follows ((concat fs @ q) @ zeros n)"
proof (cases fs)
  case (Cons g gs)
  then show ?thesis
    using assms(1) follows_frame [of g] by simp
next
  case Nil
  then show ?thesis
    using assms(2,3) follows_zeros follows_prefix by (cases "q = []") (auto simp: good_cut_def)
qed

lemma quiet_prefix:
  assumes "take (length q) g = q" and "wf_frame g" and "unmarked z" and "5 \<le> length z"
  shows "quiet_next (q @ z)"
proof -
  have "(q @ z) ! i \<notin> length_marks" if "g ! i \<notin> length_marks" and "i < 5" for i
    using that nth_take [of i "length q" g] assms(1) unmarked_nth [OF assms(3), of "i - length q"] assms(4)
    by (auto simp: nth_append)
  moreover have "g ! 2 \<notin> length_marks" and "g ! 4 \<notin> length_marks"
    using wf_frameD(4,5) [OF assms(2)] by (simp_all add: length_marks_def)
  ultimately show ?thesis
    using assms(4) by (simp add: quiet_next_def)
qed

lemma stream_quiet:
  assumes "\<forall>f\<in>set fs. wf_frame f" and "good_cut q" and "unmarked z" and "5 \<le> length z"
  shows "quiet_next ((concat fs @ q) @ z)"
proof (cases fs)
  case (Cons g gs)
  then show ?thesis
    using assms(1) follows_frame [of g] follows_quiet by simp
next
  case Nil
  show ?thesis
  proof (cases "q = []")
    case True
    then show ?thesis
      using Nil assms(3,4) by (simp add: quiet_next_def unmarked_nth)
  next
    case False
    then show ?thesis
      using Nil assms(2) quiet_prefix [OF _ _ assms(3,4)] by (auto simp: good_cut_def)
  qed
qed

lemma find_frame_stream:
  assumes "\<forall>f\<in>set fs. wf_frame f" and "good_cut q" and "length (concat fs @ q) \<le> 2043"
    and "fs \<noteq> [] \<or> 4 \<le> length q" and "stale z (concat fs @ q)"
  shows "\<exists>k' cl'. \<forall>s. find_frame deliver (over z (concat fs @ q) k cl) s =
    bindE (deliver_stream deliver z fs q s) (\<lambda>s. Inr (over (left_over z fs q) q k' cl', s))"
  using assms
proof (induction fs arbitrary: k cl z)
  case Nil
  then have "5 \<le> length z"
    by (simp add: stale_def)
  then show ?case
    using Nil find_frame_waits [of q z deliver k cl] by (auto simp: left_over_def)
next
  case (Cons f fs)
  let ?t = "concat fs @ q" and ?z = "zeros (2048 - length (concat fs @ q))"
  have f: "wf_frame f" and l: "length (f @ ?t @ z) = 2048" and lt: "length ?t \<le> 2043" and z: "unmarked z" "5 \<le> length z"
    using Cons.prems by (simp_all add: stale_def)
  have wf: "\<forall>f\<in>set fs. wf_frame f"
    using Cons.prems(1) by simp
  have fo: "quiet_next (?t @ z)"
    using stream_quiet [OF wf Cons.prems(2) z] .
  have lo: "left_over ?z fs q = left_over z (f # fs) q"
    by (simp add: left_over_def)
  let ?H = "holding ?t (-1) (Some (length f))"
  let ?q = "zeros (2048 - length q)"
  define after_it where "after_it s = (if ?t = [] then Inr (False, holding [] (-1) (Some (length f)), s)
      else if length ?t < 4 then Inr (False, ?H, s)
      else bindE (announced (?t @ zeros (2048 - length ?t))) (\<lambda>a. Inr (a \<le> int (length ?t), ?H, s)))" for s :: 'a
  let ?goto = "\<lambda>(again, r, s). if again then find_frame deliver r s else Inr (r, s)"
  have pass: "frame_pass deliver (over z (concat (f # fs) @ q) k cl) s =
      bindE (deliver (f @ ?t @ z) (int (length f)) s) after_it" for s
    using frame_pass_frame [OF f fo l] by (simp add: after_it_def [abs_def])
  have step: "\<exists>k' cl'. \<forall>s. find_frame deliver (over z (concat (f # fs) @ q) k cl) s =
      bindE (deliver_stream deliver z (f # fs) q s) (\<lambda>s. Inr (over (left_over z (f # fs) q) q k' cl', s))"
    if "\<And>s. bindE (after_it s) ?goto = bindE (deliver_stream deliver ?z fs q s) (\<lambda>s. Inr (over ?q q k' cl', s))"
    for k' cl'
  proof (intro exI allI)
    show "find_frame deliver (over z (concat (f # fs) @ q) k cl) s =
      bindE (deliver_stream deliver z (f # fs) q s) (\<lambda>s. Inr (over (left_over z (f # fs) q) q k' cl', s))" for s
      by (subst find_frame.simps) (simp only: pass bindE_assoc that deliver_stream.simps left_over_def list.distinct if_False)
  qed
  show ?case
  proof (cases "fs = [] \<and> length q < 4")
    case True
    then have "bindE (after_it s) ?goto = bindE (deliver_stream deliver ?z fs q s)
        (\<lambda>s. Inr (over ?q q (-1) (Some (length f)), s))" for s
      by (auto simp: after_it_def holding_def)
    then show ?thesis
      by (rule step)
  next
    case False
    have ne: "9 \<le> length (concat fs)" if "fs \<noteq> []"
      using that wf wf_frameD(1) [of "hd fs"] by (cases fs) auto
    then have l4: "\<not> length ?t < 4" and tne: "?t \<noteq> []"
      using False by (cases "fs = []"; force)+
    obtain a where a: "announced (?t @ zeros (2048 - length ?t)) = Inr a"
      using announced_total [of "?t @ zeros (2048 - length ?t)"] lt by auto
    have e: "after_it s = Inr (a \<le> int (length ?t), ?H, s)" for s
      unfolding after_it_def if_not_P [OF tne] if_not_P [OF l4] a by simp
    have ne4: "fs \<noteq> [] \<or> 4 \<le> length q" and st: "stale ?z ?t"
      using False lt by (auto simp del: length_append)
    have lo2: "left_over ?z fs q = ?q"
      by (simp add: left_over_def)
    from Cons.IH [OF wf Cons.prems(2) lt ne4 st, of "-1" "Some (length f)", unfolded lo2]
    obtain k' cl' where IH: "\<forall>s. find_frame deliver ?H s =
        bindE (deliver_stream deliver ?z fs q s) (\<lambda>s. Inr (over ?q q k' cl', s))"
      unfolding holding_def by blast
    show ?thesis
    proof (cases "a \<le> int (length ?t)")
      case True
      then have "bindE (after_it s) ?goto = bindE (deliver_stream deliver ?z fs q s)
          (\<lambda>s. Inr (over ?q q k' cl', s))" for s
        unfolding e by (simp add: IH)
      then show ?thesis
        by (rule step)
    next
      case F: False
      have "fs = []"
      proof (rule ccontr)
        assume "fs \<noteq> []"
        then obtain g gs where g: "fs = g # gs" "wf_frame g"
          using wf by (cases fs) auto
        have "follows ((concat gs @ q) @ zeros (2048 - length ?t))"
          using stream_follows [OF _ Cons.prems(2)] wf g(1) lt by simp
        then show False
          using wf_announced [OF g(2)] a F g(1) by fastforce
      qed
      then have "bindE (after_it s) ?goto = bindE (deliver_stream deliver ?z fs q s)
          (\<lambda>s. Inr (over ?q q (-1) (Some (length f)), s))" for s
        unfolding e using F by (simp add: holding_def)
      then show ?thesis
        by (rule step)
    qed
  qed
qed

text \<open>One read: what was held, and what came, are delivered as far as they are whole frames.\<close>

lemma recv_chunk_over:
  assumes "length (p @ z) = 2048" and "length (p @ chunk) \<le> 2048"
  shows "recv_chunk deliver chunk (over z p k cl) s =
    (if length (p @ chunk) < 4 then Inr (over (drop (length chunk) z) (p @ chunk) k cl, s)
     else find_frame deliver (over (drop (length chunk) z) (p @ chunk) k cl) s)"
proof -
  have "wr_block (p @ z) (length p) chunk = Inr (p @ chunk @ drop (length chunk) z)"
    using assms by (simp add: wr_block_def)
  then show ?thesis
    by (simp add: recv_chunk_def) (simp add: over_def)
qed

lemma recv_chunk_holding:
  assumes "length (p @ chunk) \<le> 2048"
  shows "recv_chunk deliver chunk (holding p k cl) s =
    (if length (p @ chunk) < 4 then Inr (holding (p @ chunk) k cl, s)
     else find_frame deliver (holding (p @ chunk) k cl) s)"
  using recv_chunk_over [of p "zeros (2048 - length p)" chunk deliver k cl s] assms by (simp add: holding_def)

lemma recv_chunk_stream:
  assumes "p @ chunk = concat fs @ q" and "\<forall>f\<in>set fs. wf_frame f" and "good_cut q"
    and "length (p @ chunk) \<le> 2043" and "stale z p"
  shows "\<exists>k' cl'. \<forall>s. recv_chunk deliver chunk (over z p k cl) s =
    bindE (deliver_stream deliver (drop (length chunk) z) fs q s)
      (\<lambda>s. Inr (over (left_over (drop (length chunk) z) fs q) q k' cl', s))"
proof -
  have z: "length (p @ z) = 2048" "length (p @ chunk) \<le> 2048"
    using assms(4,5) by (simp_all add: stale_def)
  show ?thesis
  proof (cases "length (p @ chunk) < 4")
    case True
    have "fs = []"
    proof (rule ccontr)
      assume "fs \<noteq> []"
      then have "9 \<le> length (concat fs)"
        using assms(2) wf_frameD(1) [of "hd fs"] by (cases fs) auto
      then show False
        using True assms(1) by simp
    qed
    then show ?thesis
      using True assms(1) recv_chunk_over [OF z, of deliver k cl]
      by (intro exI [of _ k] exI [of _ cl]) (simp add: left_over_def)
  next
    case False
    then have "fs \<noteq> [] \<or> 4 \<le> length q"
      using assms(1) by (cases "fs = []") auto
    moreover have "length (concat fs @ q) \<le> 2043"
      using assms(1,4) by simp
    moreover have "stale (drop (length chunk) z) (concat fs @ q)"
      using assms(4,5) unfolding assms(1) [symmetric] by (auto simp: stale_def)
    ultimately obtain k' cl' where "\<forall>s. find_frame deliver (over (drop (length chunk) z) (concat fs @ q) k cl) s =
        bindE (deliver_stream deliver (drop (length chunk) z) fs q s)
          (\<lambda>s. Inr (over (left_over (drop (length chunk) z) fs q) q k' cl', s))"
      using find_frame_stream [OF assms(2,3)] by blast
    then show ?thesis
      using False assms(1) recv_chunk_over [OF z, of deliver k cl]
      by (intro exI [of _ k'] exI [of _ cl']) simp
  qed
qed

lemma stale_left:
  assumes "p @ chunk = concat fs @ q" and "length (p @ chunk) \<le> 2043" and "stale z p"
  shows "stale (left_over (drop (length chunk) z) fs q) q"
proof (cases "fs = []")
  case True
  then have q: "q = p @ chunk"
    using assms(1) by simp
  show ?thesis
    using True assms(2,3) unfolding q by (auto simp: left_over_def stale_def)
next
  case False
  then show ?thesis
    using assms(2) arg_cong [OF assms(1), of length] by (simp add: left_over_def)
qed

text \<open>Several reads, each with the frames it completes and the piece it leaves.\<close>

fun segmented :: "byte list \<Rightarrow> (byte list \<times> byte list list \<times> byte list) list \<Rightarrow> bool" where
  "segmented p [] \<longleftrightarrow> True"
| "segmented p ((chunk, fs, q) # xs) \<longleftrightarrow> p @ chunk = concat fs @ q \<and> list_all wf_frame fs \<and> good_cut q \<and>
     length (p @ chunk) \<le> 2043 \<and> segmented q xs"

fun recv_chunks ::
  "(byte list \<Rightarrow> int \<Rightarrow> 's \<Rightarrow> 's res) \<Rightarrow> byte list list \<Rightarrow> rx \<Rightarrow> 's \<Rightarrow> (rx \<times> 's) res" where
  "recv_chunks deliver [] r s = Inr (r, s)"
| "recv_chunks deliver (c # cs) r s = bindE (recv_chunk deliver c r s) (\<lambda>(r, s). recv_chunks deliver cs r s)"

text \<open>A receiver that keeps the frames it is given.\<close>

definition collect :: "byte list \<Rightarrow> int \<Rightarrow> byte list list \<Rightarrow> byte list list res" where
  "collect buf n log = Inr (log @ [take (nat n) buf])"

lemma deliver_stream_collect: "deliver_stream collect z fs q log = Inr (log @ fs)"
  by (induction fs arbitrary: z log) (simp_all add: collect_def)

lemma recv_chunks_segmented:
  assumes "segmented p xs" and "stale z p"
  shows "\<exists>r. recv_chunks collect (map fst xs) (over z p k cl) log = Inr (r, log @ concat (map (fst \<circ> snd) xs))"
  using assms
proof (induction xs arbitrary: p z k cl log)
  case Nil
  then show ?case by simp
next
  case (Cons x xs)
  obtain c fs q where x: "x = (c, fs, q)"
    by (cases x)
  have h: "p @ c = concat fs @ q" "\<forall>f\<in>set fs. wf_frame f" "good_cut q" "length (p @ c) \<le> 2043" "segmented q xs"
    using Cons.prems(1) unfolding x segmented.simps list_all_iff by blast+
  let ?z = "left_over (drop (length c) z) fs q"
  obtain k' cl' where "\<forall>s. recv_chunk collect c (over z p k cl) s =
      bindE (deliver_stream collect (drop (length c) z) fs q s) (\<lambda>s. Inr (over ?z q k' cl', s))"
    using recv_chunk_stream [OF h(1-4) Cons.prems(2)] by blast
  then have "recv_chunk collect c (over z p k cl) log = Inr (over ?z q k' cl', log @ fs)"
    by (simp add: deliver_stream_collect)
  then show ?case
    using Cons.IH [OF h(5) stale_left [OF h(1,4) Cons.prems(2)], of k' cl' "log @ fs"] x by simp
qed

end
