(* ===== verification/Frame_Stream.thy ===== *)
theory Frame_Stream
  imports Framing
begin

text \<open>
  What the frame parsers of theory \<open>Framing\<close> guarantee for a whole connection: which reads lose no
  frame, how the parser finds its way back after a damaged frame, which reads stay inside its arrays,
  and the reads on which it goes wrong.
\<close>

section \<open>Cutting a stream\<close>

text \<open>How many bytes of an unfinished frame a read that ends at byte \<open>n\<close> of the stream leaves behind.\<close>

fun residue :: "byte list list \<Rightarrow> nat \<Rightarrow> nat" where
  "residue [] n = 0"
| "residue (f # fs) n = (if n < length f then n else residue fs (n - length f))"

lemma residue_append: "residue (gs @ hs) (length (concat gs) + n) = residue hs n"
  by (induction gs) auto

lemma split_stream:
  assumes "xs @ ys = concat fs"
  shows "\<exists>gs hs q. fs = gs @ hs \<and> xs = concat gs @ q \<and> length q = residue fs (length xs) \<and>
    (q = [] \<or> hs \<noteq> [] \<and> take (length q) (hd hs) = q \<and> length q < length (hd hs))"
  using assms
proof (induction fs arbitrary: xs)
  case Nil
  then show ?case by simp
next
  case (Cons f fs)
  show ?case
  proof (cases "length xs < length f")
    case True
    then have "take (length xs) f = xs"
      using Cons.prems by (metis append_eq_append_conv_if concat.simps(2) less_or_eq_imp_le)
    then show ?thesis
      using True by (intro exI [of _ "[]"] exI [of _ "f # fs"] exI [of _ xs]) simp
  next
    case False
    then obtain zs where zs: "xs = f @ zs"
      using Cons.prems by (metis append_eq_append_conv_if append_take_drop_id concat.simps(2) not_less)
    with Cons.prems have "zs @ ys = concat fs"
      by simp
    from Cons.IH [OF this] obtain gs hs q where "fs = gs @ hs" "zs = concat gs @ q"
      "length q = residue fs (length zs)"
      "q = [] \<or> hs \<noteq> [] \<and> take (length q) (hd hs) = q \<and> length q < length (hd hs)"
      by blast
    then show ?thesis
      using zs by (intro exI [of _ "f # gs"] exI [of _ hs] exI [of _ q]) simp
  qed
qed

lemma wf_frame_le: "wf_frame f \<Longrightarrow> length f \<le> 274"
proof -
  assume "wf_frame f"
  then have "frame_length (f @ zeros 14) 0 None = Inr (Some (length f))"
    by (rule wf_frameD)
  then have "length f \<in> {58, 87, 23, 11, 9} \<or> length f = unat ((f @ zeros 14) ! 6) + 19"
    by (auto simp: frame_length_def res_conv split: if_splits)
  moreover have "unat ((f @ zeros 14) ! 6) < 2 ^ 8"
    using unsigned_less [of "(f @ zeros 14) ! 6", where ?'a = nat] by simp
  ultimately show ?thesis
    by (elim disjE) auto
qed

definition safe_cuts :: "byte list list \<Rightarrow> byte list list \<Rightarrow> bool" where
  "safe_cuts fs cs \<longleftrightarrow> (\<forall>i \<le> length cs. residue fs (length (concat (take i cs))) \<notin> {7..13})"

lemma stream_segmented:
  assumes "p @ concat cs = concat fs" and "\<forall>f\<in>set fs. wf_frame f" and "\<forall>c\<in>set cs. length c \<le> 1700"
    and "\<forall>i \<le> length cs. residue fs (length p + length (concat (take i cs))) \<notin> {7..13}"
    and "p = [] \<or> fs \<noteq> [] \<and> length p < length (hd fs)"
  shows "\<exists>xs. segmented p xs \<and> map fst xs = cs \<and> concat (map (fst \<circ> snd) xs) = fs"
  using assms
proof (induction cs arbitrary: p fs)
  case Nil
  have "fs = []"
  proof (cases fs)
    case (Cons f gs)
    then show ?thesis
      using Nil.prems(1,2,5) wf_frameD(1) [of f] by auto
  qed simp
  then show ?case
    by (intro exI [of _ "[]"]) simp
next
  case (Cons c cs)
  have "(p @ c) @ concat cs = concat fs"
    using Cons.prems(1) by simp
  from split_stream [OF this] obtain gs hs q where g: "fs = gs @ hs" "p @ c = concat gs @ q"
    "length q = residue fs (length (p @ c))"
    "q = [] \<or> hs \<noteq> [] \<and> take (length q) (hd hs) = q \<and> length q < length (hd hs)"
    by blast
  have rest: "q @ concat cs = concat hs"
  proof -
    have "(p @ c) @ concat cs = concat gs @ concat hs"
      using Cons.prems(1) g(1) by simp
    then show ?thesis
      unfolding g(2) by simp
  qed
  have "residue fs (length p + length (concat (take 1 (c # cs)))) \<notin> {7..13}"
    using Cons.prems(4) by (elim allE [of _ 1]) simp
  then have cut: "length q < 7 \<or> 14 \<le> length q"
    using g(3) by auto
  have good: "good_cut q"
  proof (cases "q = []")
    case False
    then have "wf_frame (hd hs)"
      using g(1,4) Cons.prems(2) by (cases hs) auto
    then show ?thesis
      using False g(4) cut unfolding good_cut_def by blast
  qed (simp add: good_cut_def)
  have "length p \<le> 274"
  proof (cases "p = []")
    case False
    then show ?thesis
      using Cons.prems(2,5) wf_frame_le [of "hd fs"] by (cases fs) auto
  qed simp
  then have short: "length (p @ c) \<le> 2043"
    using Cons.prems(3) by simp
  have cuts: "\<forall>i \<le> length cs. residue hs (length q + length (concat (take i cs))) \<notin> {7..13}"
  proof (intro allI impI)
    fix i assume "i \<le> length cs"
    then have "residue fs (length p + length (concat (take (Suc i) (c # cs)))) \<notin> {7..13}"
      using Cons.prems(4) by (elim allE [of _ "Suc i"]) simp
    moreover have "length p + length (concat (take (Suc i) (c # cs))) =
        length (concat gs) + (length q + length (concat (take i cs)))"
      using arg_cong [OF g(2), of length] by simp
    ultimately show "residue hs (length q + length (concat (take i cs))) \<notin> {7..13}"
      using g(1) residue_append by metis
  qed
  have "\<forall>f\<in>set hs. wf_frame f" and "\<forall>c\<in>set cs. length c \<le> 1700"
    using g(1) Cons.prems(2,3) by simp_all
  from Cons.IH [OF rest this cuts] g(4) obtain xs where xs: "segmented q xs" "map fst xs = cs"
    "concat (map (fst \<circ> snd) xs) = hs"
    by blast
  have "list_all wf_frame gs"
    using g(1) Cons.prems(2) by (simp add: list_all_iff)
  then show ?case
    using xs [unfolded o_def] g(1,2) good short
    by (intro exI [of _ "(c, gs, q) # xs"]) (simp only: segmented.simps list.simps fst_conv snd_conv concat.simps o_def simp_thms)
qed

lemma rx_start_holding: "rx_start (zeros 2048) = holding [] (-1) None"
  by (simp add: rx_start_over holding_def)

lemma recv_stream:
  assumes "\<forall>f\<in>set fs. wf_frame f" and "concat cs = concat fs" and "\<forall>c\<in>set cs. length c \<le> 1700"
    and "safe_cuts fs cs" and "length junk = 2048" and "unmarked junk"
  shows "\<exists>r. recv_chunks collect cs (rx_start junk) [] = Inr (r, fs)"
proof -
  obtain xs where "segmented [] xs" "map fst xs = cs" "concat (map (fst \<circ> snd) xs) = fs"
    using stream_segmented [of "[]" cs fs] assms by (auto simp: safe_cuts_def)
  then show ?thesis
    using recv_chunks_segmented [of "[]" xs junk "-1" None "[]"] assms(5,6) by (simp add: rx_start_over stale_def)
qed

section \<open>Back in step after damage\<close>

lemma frame_length_drop:
  "i \<le> length buf \<Longrightarrow> frame_length (drop i buf) 0 old = frame_length buf i old"
  by (simp add: frame_length_def)

lemma find_head_first:
  assumes "k \<le> j" and "j < n" and "buf ! j = 0xFF" and "buf ! Suc j = 0xFF"
    and "\<forall>i. k \<le> i \<and> i < j \<longrightarrow> \<not> (buf ! i = 0xFF \<and> buf ! Suc i = 0xFF)"
  shows "find_head buf k n = (True, j)"
  using assms
proof (induction buf k n rule: find_head.induct)
  case (1 buf k n)
  show ?case
  proof (cases "k = j")
    case True
    then show ?thesis
      using 1(3-5) by (simp add: find_head_here)
  next
    case False
    then have "find_head buf (k + 1) n = (True, j)"
      using 1(2-6) by (intro 1(1)) auto
    then show ?thesis
      using False 1(2,3,6) by (subst find_head.simps) auto
  qed
qed

text \<open>\<open>b\<close> is followed by a frame and nothing else, and the search for a header ends at the frame.\<close>

lemma frame_pass_at:
  assumes "wf_frame f" and "Recv_Data r = b @ f @ z" and "length (b @ f @ z) = 2048" and "quiet_next z"
    and "pos r = length (b @ f)" and "find_head (b @ f @ z) (Index2 r) (length (b @ f) - 1) = (True, length b)"
  shows "frame_pass deliver r s =
    bindE (deliver (f @ z) (int (length f)) s) (\<lambda>s. Inr (False, holding [] (-1) (Some (length f)), s))"
proof -
  have l: "9 \<le> length f"
    using wf_frameD(1) [OF assms(1)] .
  have fl: "frame_length (b @ f @ z) (length b) cl = Inr (Some (length f))" for cl
    using frame_length_drop [of "length b" "b @ f @ z" cl] wf_frame_length [OF assms(1,4)]
    by simp
  have "segment (length b + 2) (length f - 2) (b @ f @ z) = drop 2 f"
    using l by (simp add: segment_def)
  moreover have "int (length b) + 2 = int (length b + 2)" and "int (length f) - 2 = int (length f - 2)"
    using l by simp_all
  ultimately have bcc: "BCCDataCheck (b @ f @ z) (int (length b) + 2) (int (length f) - 2) 0 = Inr 1"
    using BCCDataCheck_accepts [of "length f - 2" "length b + 2" "b @ f @ z"] l wf_frameD(6) [OF assms(1)]
    by (simp add: add.commute)
  have h: "find_head (Recv_Data r) (Index2 r) (pos r - 1) = (True, length b)"
    using assms(2,5,6) by simp
  have "frame_pass deliver r s = measure_frame deliver (length b) (r\<lparr>Index1 := int (length b)\<rparr>) s"
    using l assms(5) unfolding frame_pass_def h by simp
  also have "\<dots> = check_frame deliver (length f)
      (r\<lparr>Index1 := int (length b), Command_Len := Some (length f), Index2 := 0\<rparr>) s"
    using fl assms(2,5) by (simp add: measure_frame_def)
  also have "\<dots> = bindE (deliver (f @ z) (int (length f)) s)
      (\<lambda>s. Inr (False, holding [] (-1) (Some (length f)), s))"
  proof -
    have "length b + (length f + length z) = 2048"
      using assms(3) by simp
    then show ?thesis
      using bcc assms(2) by (cases r) (simp add: check_frame_def next_frame_def holding_def over_def)
  qed
  finally show ?thesis .
qed

abbreviation no_header :: "nat \<Rightarrow> byte list \<Rightarrow> nat \<Rightarrow> bool" where
  "no_header k buf n \<equiv> \<forall>i. k \<le> i \<and> i < n \<longrightarrow> \<not> (buf ! i = 0xFF \<and> buf ! Suc i = 0xFF)"

lemma quiet_unmarked: "unmarked z \<Longrightarrow> 5 \<le> length z \<Longrightarrow> quiet_next z"
  by (simp add: quiet_next_def unmarked_nth)

lemma recv_at_start:
  assumes "length z = 2048" and "length (b @ f) \<le> 2048" and "9 \<le> length f"
  shows "recv_chunk deliver (b @ f) (over z [] k cl) s =
    find_frame deliver (over (drop (length (b @ f)) z) (b @ f) k cl) s"
  using assms recv_chunk_over [of "[]" z "b @ f" deliver k cl s] by simp

lemma find_head_after:
  assumes "wf_frame f" and "no_header k (b @ f) (length b)" and "k \<le> length b"
  shows "find_head (b @ f @ zs) k (length (b @ f) - 1) = (True, length b)"
proof (rule find_head_first)
  show "length b < length (b @ f) - 1"
    using wf_frameD(1) [OF assms(1)] by simp
  have "(b @ f @ zs) ! i = (b @ f) ! i" if "i \<le> length b" for i
    using that wf_frameD(1) [OF assms(1)] by (auto simp: nth_append)
  then show "\<forall>i. k \<le> i \<and> i < length b \<longrightarrow> \<not> ((b @ f @ zs) ! i = 0xFF \<and> (b @ f @ zs) ! Suc i = 0xFF)"
    using assms(2) by simp
  have "f \<noteq> []"
    using wf_frameD(1) [OF assms(1)] by auto
  then show "(b @ f @ zs) ! length b = 0xFF" and "(b @ f @ zs) ! Suc (length b) = 0xFF"
    using wf_frameD(1-3) [OF assms(1)] by (simp_all add: nth_append)
qed (fact assms(3))

lemma garbage_then_frame:
  assumes "wf_frame f" and "no_header 0 (b @ f) (length b)" and "length (b @ f) \<le> 2043" and "stale z []"
  shows "recv_chunk collect (b @ f) (over z [] k cl) log = Inr (holding [] (-1) (Some (length f)), log @ [f])"
proof -
  let ?z = "drop (length (b @ f)) z"
  have z: "length z = 2048" "length (b @ f @ ?z) = 2048" "quiet_next ?z"
    using assms(3,4) by (auto simp: stale_def intro!: quiet_unmarked)
  have "frame_pass collect (over ?z (b @ f) k cl) log = Inr (False, holding [] (-1) (Some (length f)), log @ [f])"
    using frame_pass_at [OF assms(1) _ z(2,3), of "over ?z (b @ f) k cl" collect log] find_head_after [OF assms(1,2)]
    by (simp add: collect_def)
  then show ?thesis
    using recv_at_start [OF z(1), of b f collect k cl log] assms(3) wf_frameD(1) [OF assms(1)] by (simp add: find_frame_pass)
qed

lemma bad_then_frame:
  assumes "wf_frame f" and "no_header 1 (b @ f) (length b)" and "length (b @ f) \<le> 2043"
    and "9 \<le> length b" and "b ! 0 = 0xFF" and "b ! 1 = 0xFF"
    and "frame_length (b @ f @ drop (length (b @ f)) z) 0 cl = Inr (Some (length b))"
    and "\<not> bcc_accepts (drop 2 b)" and "stale z []"
  shows "recv_chunk collect (b @ f) (over z [] k cl) log = Inr (holding [] (-1) (Some (length f)), log @ [f])"
proof -
  let ?z = "drop (length (b @ f)) z"
  have z: "length z = 2048" "length (b @ f @ ?z) = 2048" "quiet_next ?z"
    using assms(3,9) by (auto simp: stale_def intro!: quiet_unmarked)
  let ?r = "over ?z (b @ f) k cl"
  let ?r2 = "?r\<lparr>Index1 := -1, Command_Len := Some (length b), Index2 := length b\<rparr>"
  have h: "find_head (b @ f @ ?z) 0 (length (b @ f) - 1) = (True, 0)"
    using assms(4-6) by (intro find_head_here) (auto simp: nth_append)
  have lf: "9 \<le> length f" and fne: "f \<noteq> []"
    using wf_frameD(1) [OF assms(1)] by auto
  have "segment 2 (length b - 2) (b @ f @ ?z) = drop 2 b" and "int (length b) - 2 = int (length b - 2)"
    using assms(4) by (simp_all add: segment_def)
  then have bcc: "BCCDataCheck (b @ f @ ?z) 2 (int (length b) - 2) 0 = Inr 0"
    using BCCDataCheck_accepts [of "length b - 2" 2 "b @ f @ ?z"] assms(4,8) by simp
  have h2: "find_head (b @ f @ ?z) (Suc 0) (length (b @ f) - 1) = (True, length b)"
    using find_head_after [OF assms(1), of "Suc 0" b] assms(2,4) by simp
  have h3: "find_head (b @ f @ zs) (length b) (length (b @ f) - 1) = (True, length b)" for zs
    using assms(1) by (rule find_head_after) auto
  have "frame_pass collect ?r log = check_frame collect (length b)
      (?r\<lparr>Index1 := 0, Command_Len := Some (length b), Index2 := length b\<rparr>) log"
    using h assms(4,7) lf fne by (simp add: frame_pass_def measure_frame_def Let_def)
  also have "\<dots> = Inr (True, ?r2, log)"
    using bcc h2 by (simp add: check_frame_def)
  finally have one: "find_frame collect ?r log = find_frame collect ?r2 log"
    by (subst find_frame.simps) simp
  have "frame_pass collect ?r2 log = Inr (False, holding [] (-1) (Some (length f)), log @ [f])"
    using frame_pass_at [OF assms(1) _ z(2,3), of ?r2 collect log] h3
    by (simp add: collect_def)
  then have "find_frame collect ?r log = Inr (holding [] (-1) (Some (length f)), log @ [f])"
    unfolding one by (rule find_frame_pass)
  then show ?thesis
    using recv_at_start [OF z(1), of b f collect k cl log] assms(3) lf by simp
qed

section \<open>Two frames\<close>

definition heartbeat :: "byte list" where
  "heartbeat = [0xFF, 0xFF, 0, 0x90, 0, 2, 0, 0, 0x92]"

definition barrier_up :: "byte list" where
  "barrier_up = [0xFF, 0xFF, 0, 0x64, 0, 4, 0, 0x0B, 0xA3, 1, 0xC9]"

lemma wf_examples: "wf_frame heartbeat" "wf_frame barrier_up"
  by code_simp+

section \<open>Staying inside the arrays\<close>

text \<open>
  The state at the head of the loop when at most 2035 bytes are held: the classification of a frame
  reads up to 13 bytes past the last header candidate.
\<close>

definition rx_ok :: "rx \<Rightarrow> bool" where
  "rx_ok r \<longleftrightarrow> length (Recv_Data r) = 2048 \<and> pos r \<le> 2035 \<and> -1 \<le> Index1 r \<and> (Index2 r = 0 \<or> Index2 r < pos r) \<and>
     (case Command_Len r of None \<Rightarrow> True | Some L \<Rightarrow> 9 \<le> L)"

definition safe_outcome :: "(bool \<times> rx \<times> 's) res \<Rightarrow> bool" where
  "safe_outcome x \<longleftrightarrow> (case x of Inl e \<Rightarrow> e = Uninitialised | Inr (again, r, s) \<Rightarrow> rx_ok r)"

lemma safe_outcome_simps [simp]:
  "safe_outcome (Inl e) \<longleftrightarrow> e = Uninitialised" "safe_outcome (Inr (again, r, s)) \<longleftrightarrow> rx_ok r"
  by (simp_all add: safe_outcome_def)

lemma find_head_missing: "find_head buf i n = (False, j) \<Longrightarrow> j = max i n"
proof (induction buf i n rule: find_head.induct)
  case (1 buf i n)
  from 1(2) show ?case
    by (subst (asm) find_head.simps) (use 1(1) in \<open>auto split: if_splits\<close>)
qed

lemma next_frame_safe:
  assumes "rx_ok r" and "next_frame r = Inr (again, r')"
  shows "rx_ok r'"
proof (cases "Index2 r = 0")
  case True
  then show ?thesis
    using assms by (auto simp: next_frame_def rx_ok_def Let_def)
next
  case False
  then have "Index2 r < pos r" "pos r \<le> 2035" "length (Recv_Data r) = 2048"
    using assms(1) by (auto simp: rx_ok_def)
  moreover from this have "length (take (pos r - Index2 r) (drop (Index2 r) (Recv_Data r))) = pos r - Index2 r"
    by simp
  ultimately show ?thesis
    using assms False by (auto simp: next_frame_def rx_ok_def Let_def res_conv split: if_splits)
qed

lemma next_frame_returns:
  assumes "rx_ok r"
  shows "\<exists>again r'. next_frame r = Inr (again, r')"
proof (cases "Index2 r = 0")
  case False
  let ?buf = "take (pos r - Index2 r) (drop (Index2 r) (Recv_Data r)) @
    drop (pos r - Index2 r) (replicate (length (Recv_Data r)) 0)"
  have "13 \<le> length ?buf"
    using assms by (auto simp: rx_ok_def)
  from announced_total [OF this] obtain a where "announced ?buf = Inr a"
    by blast
  then show ?thesis
    using False by (auto simp: next_frame_def Let_def)
qed (auto simp: next_frame_def)

lemma check_frame_safe:
  assumes "rx_ok r" and "0 \<le> Index1 r" and "9 \<le> L" and "Index1 r + int L \<le> int (pos r)"
  shows "safe_outcome (check_frame collect L r s)"
proof -
  have eqs: "Index1 r + 2 = int (nat (Index1 r) + 2)" "int L - 2 = int (L - 2)"
    using assms(2,3) by simp_all
  obtain bcc where bcc: "BCCDataCheck (Recv_Data r) (Index1 r + 2) (int L - 2) 0 = Inr bcc"
    unfolding eqs using assms BCCDataCheck_accepts [of "L - 2" "nat (Index1 r) + 2" "Recv_Data r"]
    by (auto simp: rx_ok_def)
  show ?thesis
  proof (cases "bcc = 1")
    case True
    obtain again r' where "next_frame r = Inr (again, r')"
      using next_frame_returns [OF assms(1)] by blast
    then show ?thesis
      using True bcc next_frame_safe [OF assms(1)] by (simp add: check_frame_def collect_def)
  next
    case False
    obtain b j where j: "find_head (Recv_Data r) (nat (Index1 r) + 1) (pos r - 1) = (b, j)"
      by fastforce
    then show ?thesis
      using False bcc assms(1) find_head_bounds [OF j]
      by (auto simp: check_frame_def rx_ok_def split: bool.split)
  qed
qed

lemma frame_pass_safe:
  assumes "rx_ok r"
  shows "safe_outcome (frame_pass collect r s)"
proof -
  obtain b i where h: "find_head (Recv_Data r) (Index2 r) (pos r - 1) = (b, i)"
    by fastforce
  define r1 where "r1 = (if b then r\<lparr>Index1 := int i\<rparr> else r)"
  have ok1: "rx_ok r1" and pos1: "pos r1 = pos r"
    using assms by (simp_all add: r1_def rx_ok_def)
  have pass: "frame_pass collect r s =
      (if Index1 r1 < 0 then Inr (False, r1\<lparr>Index2 := 0, pos := 0\<rparr>, s)
       else if int (pos r1) - Index1 r1 < 7 then Inr (False, r1, s) else measure_frame collect i r1 s)"
    unfolding frame_pass_def h by (simp add: r1_def Let_def)
  show ?thesis
  proof (cases "Index1 r1 < 0 \<or> int (pos r1) - Index1 r1 < 7")
    case True
    then show ?thesis
      using pass ok1 by (auto simp: rx_ok_def)
  next
    case False
    then have p: "7 \<le> pos r" and "0 \<le> Index1 r1"
      using pos1 by linarith+
    have "i < pos r"
      using find_head_bounds [OF h] find_head_missing [of "Recv_Data r" "Index2 r" "pos r - 1" i] h p assms
      by (cases b) (auto simp: rx_ok_def)
    then have "i + 13 < length (Recv_Data r1)"
      using ok1 pos1 by (simp add: rx_ok_def)
    then obtain cl where cl: "frame_length (Recv_Data r1) i (Command_Len r1) = Inr cl"
      by (auto simp: frame_length_def)
    show ?thesis
    proof (cases cl)
      case None
      then show ?thesis
        using pass False cl by (simp add: measure_frame_def Let_def)
    next
      case (Some L)
      have L: "9 \<le> L"
        using frame_length_pos [OF cl [unfolded Some]] ok1 by (auto simp: rx_ok_def)
      have r2: "rx_ok (r1\<lparr>Command_Len := Some L, Index2 := if int L < int (pos r1) - Index1 r1 then nat (Index1 r1) + L else 0\<rparr>)"
        using ok1 L \<open>0 \<le> Index1 r1\<close> by (auto simp: rx_ok_def)
      then show ?thesis
        using pass False cl Some ok1 L check_frame_safe [OF r2 _ L] \<open>0 \<le> Index1 r1\<close>
        by (auto simp: measure_frame_def Let_def rx_ok_def)
    qed
  qed
qed

lemma find_frame_safe:
  assumes "rx_ok r"
  shows "case find_frame collect r s of Inl e \<Rightarrow> e = Uninitialised | Inr (r', s') \<Rightarrow> rx_ok r'"
proof -
  have "deliver = collect \<Longrightarrow> rx_ok r \<Longrightarrow>
      (case find_frame deliver r s of Inl e \<Rightarrow> e = Uninitialised | Inr (r', s') \<Rightarrow> rx_ok r')" for deliver
  proof (induction deliver r s rule: find_frame.induct)
    case (1 deliver r s)
    note safe = frame_pass_safe [OF 1(3), of s, folded 1(2)]
    show ?case
    proof (cases "frame_pass deliver r s")
      case (Inl e)
      then show ?thesis
        using safe by (subst find_frame.simps) simp
    next
      case (Inr x)
      obtain again r' s' where x: "x = (again, r', s')"
        by (cases x)
      have "rx_ok r'"
        using safe Inr x by simp
      then show ?thesis
        using Inr x 1(1) [of x again "(r', s')" r' s'] 1(2) by (subst find_frame.simps) simp
    qed
  qed
  then show ?thesis
    using assms by blast
qed

lemma recv_chunk_safe:
  assumes "rx_ok r" and "pos r + length chunk \<le> 2035"
  shows "case recv_chunk collect chunk r s of Inl e \<Rightarrow> e = Uninitialised | Inr (r', s') \<Rightarrow> rx_ok r'"
proof -
  obtain buf where buf: "wr_block (Recv_Data r) (pos r) chunk = Inr buf" "length buf = 2048"
    using assms by (auto simp: wr_block_def rx_ok_def)
  have ok: "rx_ok (r\<lparr>Recv_Data := buf, pos := pos r + length chunk\<rparr>)"
    using assms buf(2) by (auto simp: rx_ok_def)
  show ?thesis
    using buf(1) ok find_frame_safe [OF ok, of s] by (simp add: recv_chunk_def Let_def)
qed

lemma recv_chunk_overflow:
  "length (Recv_Data r) < pos r + length chunk \<Longrightarrow> recv_chunk deliver chunk r s = Inl OutOfBounds"
  by (simp add: recv_chunk_def wr_block_def)

section \<open>Reads on which it goes wrong\<close>

text \<open>A frame cut between its 7th and 13th byte is classified by bytes that have not arrived.\<close>

lemma cut_uninitialised:
  assumes "wf_frame g" and "7 \<le> n" and "n \<le> 13" and "n < length g" and "g ! 3 \<noteq> 0x90"
    and "n \<le> 8 \<or> g ! 8 \<notin> {0xA3, 0xAE}"
  shows "recv_chunk deliver (take n g) (rx_start (zeros 2048)) s = Inl Uninitialised"
proof -
  let ?q = "take n g"
  have l: "length ?q = n"
    using assms(4) by simp
  let ?buf = "?q @ zeros (2048 - n)"
  have nth: "?buf ! i = (if i < n then g ! i else 0)" if "i < 14" for i
    using that l assms(3) by (auto simp: nth_append)
  have h: "find_head ?buf 0 (n - 1) = (True, 0)"
    using wf_frameD(2,3) [OF assms(1)] nth [of 0] nth [of 1] assms(2) by (intro find_head_here) simp_all
  have fl: "frame_length ?buf 0 None = Inr None"
    using nth [of 13] nth [of 8] nth [of 3] assms by (auto simp: frame_length_def)
  have "frame_pass deliver (holding ?q (-1) None) s = Inl Uninitialised"
    using h fl l assms(2) by (simp add: frame_pass_def measure_frame_def holding_def over_def Let_def)
  then have "find_frame deliver (holding ?q (-1) None) s = Inl Uninitialised"
    by (subst find_frame.simps) simp
  then show ?thesis
    using recv_chunk_holding [of "[]" ?q deliver "-1" None s] l assms(2,3) by (simp add: rx_start_holding)
qed

text \<open>The state a single frame with a wrong check byte leaves: \<open>Index1\<close> still points at its header.\<close>

lemma bad_heartbeat_state:
  "recv_chunk collect (heartbeat[8 := 0]) (rx_start (zeros 2048)) [] =
     Inr (\<lparr>Recv_Data = heartbeat[8 := 0] @ zeros 2039, pos = 0, Index1 = 0, Index2 = 0, Command_Len = Some 9\<rparr>, [])"
proof -
  let ?q = "heartbeat[8 := 0]"
  have h: "find_head (?q @ zeros 2039) 0 8 = (True, 0)" and n: "find_head (?q @ zeros 2039) 1 8 = (False, 8)"
    by (simp_all add: find_head.simps heartbeat_def)
  have fl: "frame_length (?q @ zeros 2039) 0 None = Inr (Some 9)"
    by (simp add: frame_length_def heartbeat_def)
  have "bcc_accepts (drop 2 ?q) = False"
    by code_simp
  then have b: "BCCDataCheck (?q @ zeros 2039) 2 7 0 = Inr 0"
    using BCCDataCheck_accepts [of 7 2 "?q @ zeros 2039"] by (simp add: segment_def heartbeat_def)
  have "length ?q = 9"
    by (simp add: heartbeat_def)
  then have "frame_pass collect (holding ?q (-1) None) [] =
      Inr (False, (holding ?q (-1) None)\<lparr>Index1 := 0, Command_Len := Some 9, Index2 := 0, pos := 0\<rparr>, [])"
    using h n fl b by (simp add: frame_pass_def measure_frame_def check_frame_def Let_def)
  then show ?thesis
    using find_frame_pass [of collect "holding ?q (-1) None" "[]"] recv_chunk_holding [of "[]" ?q collect "-1" None "[]"]
      \<open>length ?q = 9\<close> by (simp add: rx_start_holding holding_def over_def)
qed

lemma stale_header_accepts:
  assumes "length c = 9" and "no_header 0 c 8" and "bcc_accepts (drop 2 c)"
  shows "\<exists>r. recv_chunk collect c \<lparr>Recv_Data = heartbeat[8 := 0] @ zeros 2039, pos = 0, Index1 = 0, Index2 = 0,
    Command_Len = Some 9\<rparr> log = Inr (r, log @ [c])"
proof -
  let ?r = "\<lparr>Recv_Data = c @ zeros 2039, pos = 9, Index1 = 0, Index2 = 0, Command_Len = Some 9\<rparr>"
  obtain b i where bi: "find_head (c @ zeros 2039) 0 8 = (b, i)"
    by fastforce
  have "\<not> b"
  proof
    assume b
    then have "i < 8" and "(c @ zeros 2039) ! i = 0xFF" and "(c @ zeros 2039) ! Suc i = 0xFF"
      using find_head_bounds [OF bi] by auto
    then show False
      using assms(1,2) by (auto simp: nth_append)
  qed
  then have h: "find_head (c @ zeros 2039) 0 8 = (False, 8)"
    using bi find_head_missing [of "c @ zeros 2039" 0 8 i] by simp
  have fl: "frame_length (c @ zeros 2039) 8 (Some 9) = Inr (Some 9)"
    using assms(1) by (simp add: frame_length_def nth_append)
  have b: "BCCDataCheck (c @ zeros 2039) 2 7 0 = Inr 1"
    using BCCDataCheck_accepts [of 7 2 "c @ zeros 2039"] assms by (simp add: segment_def)
  have "frame_pass collect ?r log = Inr (False, holding [] (-1) (Some 9), log @ [c])"
    using h fl b assms(1)
    by (simp add: frame_pass_def measure_frame_def check_frame_def next_frame_def collect_def Let_def holding_def over_def)
  moreover have "wr_block (heartbeat[8 := 0] @ zeros 2039) 0 c = Inr (c @ zeros 2039)"
    using assms(1) by (simp add: wr_block_def heartbeat_def)
  ultimately show ?thesis
    using find_frame_pass [of collect ?r log] assms(1) by (simp add: recv_chunk_def Let_def)
qed

text \<open>The first read of a connection: the array still holds whatever the stack held.\<close>

lemma fresh_heartbeat_lost:
  assumes "length junk = 2048" and "junk ! 13 = 0x44"
  shows "\<exists>r. recv_chunk collect heartbeat (rx_start junk) log = Inr (r, log)"
proof -
  let ?buf = "heartbeat @ drop 9 junk"
  have l: "length heartbeat = 9"
    by (simp add: heartbeat_def)
  have h: "find_head ?buf 0 8 = (True, 0)"
    by (simp add: find_head.simps heartbeat_def)
  have fl: "frame_length ?buf 0 None = Inr (Some 58)"
    using assms l by (simp add: frame_length_def nth_append)
  let ?r = "\<lparr>Recv_Data = ?buf, pos = 9, Index1 = -1, Index2 = 0, Command_Len = None\<rparr>"
  have "frame_pass collect ?r log = Inr (False, ?r\<lparr>Index1 := 0, Command_Len := Some 58\<rparr>, log)"
    using h fl by (simp add: frame_pass_def measure_frame_def Let_def)
  moreover have "wr_block junk 0 heartbeat = Inr ?buf"
    using assms(1) l by (simp add: wr_block_def)
  ultimately show ?thesis
    using find_frame_pass [of collect ?r log] l by (simp add: recv_chunk_def rx_start_def Let_def)
qed

section \<open>Claims\<close>

text \<open>
  C5. Whatever the reads a connection delivers a stream of well-formed frames in, whole frames, several at
  once, or pieces, every frame is handed on exactly once, complete and in order, under three conditions: no read
  ends between the 7th and the 13th byte of a frame; no read brings more than 1700 bytes; and none of the
  bytes that the receive array, which the code never initialises, holds when the connection begins is one of
  0x44, 0x64, 0x07 and 0x53, the values of a 14th byte that decide the length of a frame.
\<close>

theorem stream_delivered_in_order:
  assumes "\<forall>f\<in>set fs. wf_frame f" and "concat cs = concat fs" and "\<forall>c\<in>set cs. length c \<le> 1700"
    and "safe_cuts fs cs" and "length junk = 2048" and "unmarked junk"
  shows "\<exists>r. recv_chunks collect cs (rx_start junk) [] = Inr (r, fs)"
  using assms by (rule recv_stream)

theorem stream_delivered_in_order_witness:
  "\<exists>r. recv_chunks collect [take 3 heartbeat, drop 3 heartbeat @ barrier_up @ take 4 heartbeat, drop 4 heartbeat]
     (rx_start (replicate 2048 0xCC)) [] = Inr (r, [heartbeat, barrier_up, heartbeat])"
proof (rule stream_delivered_in_order)
  show "\<forall>f\<in>set [heartbeat, barrier_up, heartbeat]. wf_frame f"
    using wf_examples by simp
  show "safe_cuts [heartbeat, barrier_up, heartbeat]
      [take 3 heartbeat, drop 3 heartbeat @ barrier_up @ take 4 heartbeat, drop 4 heartbeat]"
    by (simp add: safe_cuts_def heartbeat_def barrier_up_def le_Suc_eq all_conj_distrib imp_conjL)
qed (simp_all add: heartbeat_def barrier_up_def unmarked_def length_marks_def)

text \<open>
  C27. After a damaged frame in front of a well-formed one in the same read (at least nine bytes from its header on, its length recognised, its check
  byte wrong, no other header in it), the parser finds its way back: the damaged frame is not handed on,
  the good one is, and nothing of either is left in the buffer. The read finds no unfinished frame waiting and
  brings at most 2043 bytes; the array may hold anything beyond them (the code neither initialises it nor
  clears it after a lone damaged frame) except one of 0x44, 0x64, 0x07 and 0x53, because a frame shorter than 14 bytes
  is measured by what the array holds behind it.
\<close>

theorem damaged_frame_skipped:
  assumes "wf_frame f" and "no_header 1 (b @ f) (length b)" and "length (b @ f) \<le> 2043"
    and "9 \<le> length b" and "b ! 0 = 0xFF" and "b ! 1 = 0xFF"
    and "frame_length (b @ f @ drop (length (b @ f)) z) 0 cl = Inr (Some (length b))"
    and "\<not> bcc_accepts (drop 2 b)" and "stale z []"
  shows "recv_chunk collect (b @ f) (over z [] k cl) log = Inr (holding [] (-1) (Some (length f)), log @ [f])"
  using assms by (rule bad_then_frame)

theorem damaged_frame_skipped_witness:
  "recv_chunk collect (heartbeat[8 := 0] @ barrier_up) (over (replicate 2048 0xCC) [] (-1) None) [] =
     Inr (holding [] (-1) (Some (length barrier_up)), [] @ [barrier_up])"
proof (rule damaged_frame_skipped)
  show "wf_frame barrier_up"
    by (rule wf_examples)
  show "\<not> bcc_accepts (drop 2 (heartbeat[8 := 0]))"
    by code_simp
  show "stale (replicate 2048 0xCC) []"
    by (simp add: stale_def unmarked_def length_marks_def)
qed (simp_all add: heartbeat_def barrier_up_def frame_length_def nth_Cons')

text \<open>
  C6. Memory safety of the receive buffer: as long as a read brings the bytes held to at most 2035, no
  byte sequence makes the parser leave its array (the only fault is the use of the length variable
  before it has a value), and the loop state stays well formed. A read that brings them above 2048,
  which \<open>recv\<close> with its 2048-byte limit may do whenever part of a frame is held, writes past the array.
\<close>

theorem receive_buffer_bounds:
  assumes "rx_ok r"
  shows "(pos r + length chunk \<le> 2035 \<longrightarrow>
      (case recv_chunk collect chunk r s of Inl e \<Rightarrow> e = Uninitialised | Inr (r', s') \<Rightarrow> rx_ok r')) \<and>
    (2048 < pos r + length chunk \<longrightarrow> recv_chunk collect chunk r s = Inl OutOfBounds)"
  using assms recv_chunk_safe [OF assms] recv_chunk_overflow [of r chunk collect s] by (simp add: rx_ok_def)

theorem receive_buffer_bounds_witness:
  "recv_chunk collect (zeros 2048) (holding [0xFF, 0xFF, 0] (-1) None) [] = Inl OutOfBounds"
  using receive_buffer_bounds [of "holding [0xFF, 0xFF, 0] (-1) None" "zeros 2048" "[]"]
  by (simp add: rx_ok_def)

text \<open>
  A frame that is not a heartbeat, whose first read of the connection ends between its 7th and 13th
  byte, is measured with \<open>Command_Len\<close> never assigned: the parser does not wait for the missing bytes
  before it classifies the frame by its 14th byte.
\<close>

theorem cut_frame_length_uninitialised:
  assumes "wf_frame g" and "7 \<le> n" and "n \<le> 13" and "n < length g" and "g ! 3 \<noteq> 0x90"
    and "n \<le> 8 \<or> g ! 8 \<notin> {0xA3, 0xAE}"
  shows "recv_chunk collect (take n g) (rx_start (zeros 2048)) s = Inl Uninitialised"
  using assms by (rule cut_uninitialised)

theorem cut_frame_length_uninitialised_witness:
  "recv_chunk collect (take 8 barrier_up) (rx_start (zeros 2048)) [] = Inl Uninitialised"
proof (rule cut_frame_length_uninitialised)
  show "wf_frame barrier_up"
    by (rule wf_examples)
qed (simp_all add: barrier_up_def)

text \<open>
  After a lone frame with a wrong check byte, \<open>Index1\<close> keeps pointing at the header it had: a
  following read of nine bytes without any header FF FF is handed on as a frame, if its check byte fits.
\<close>

theorem stale_header_after_bad_frame:
  assumes "length c = 9" and "no_header 0 c 8" and "bcc_accepts (drop 2 c)"
  shows "\<exists>r. recv_chunks collect [heartbeat[8 := 0], c] (rx_start (zeros 2048)) [] = Inr (r, [c])"
  using stale_header_accepts [OF assms, of "[]"] by (auto simp: bad_heartbeat_state)

theorem stale_header_after_bad_frame_witness:
  "\<exists>r. recv_chunks collect [heartbeat[8 := 0], zeros 9] (rx_start (zeros 2048)) [] = Inr (r, [zeros 9])"
proof (rule stale_header_after_bad_frame)
  show "bcc_accepts (drop 2 (zeros 9))"
    by code_simp
qed (simp_all add: nth_replicate)

text \<open>
  The receive array is not cleared before the first read: a nine-byte heartbeat that opens a
  connection is held back, not handed on, when the uninitialised 14th byte of the array happens to be
  the mark of a display command.
\<close>

theorem first_heartbeat_depends_on_stack:
  assumes "length junk = 2048" and "junk ! 13 = 0x44"
  shows "\<exists>r. recv_chunks collect [heartbeat] (rx_start junk) [] = Inr (r, [])"
  using fresh_heartbeat_lost [OF assms, of "[]"] by auto

theorem first_heartbeat_depends_on_stack_witness:
  "\<exists>r. recv_chunks collect [heartbeat] (rx_start (replicate 2048 0x44)) [] = Inr (r, [])"
  by (rule first_heartbeat_depends_on_stack) (simp_all add: nth_replicate)

end
