(* ===== verification/CString.thy ===== *)
theory CString
  imports Prelude
begin

text \<open>
  The operations of the C and C++ string libraries that the sources use, on \<open>string\<close> (a list of
  characters): \<open>std::string::find_first_of\<close>, \<open>find_last_of\<close>, \<open>substr\<close>, \<open>atoi\<close> and the decimal
  printing of \<open>snprintf ("%d")\<close>. A C string is the characters before its terminating zero.
\<close>

section \<open>Searching and cutting\<close>

fun find_first_of :: "('a \<Rightarrow> bool) \<Rightarrow> 'a list \<Rightarrow> nat option" where
  "find_first_of P [] = None"
| "find_first_of P (c # s) = (if P c then Some 0 else map_option Suc (find_first_of P s))"

definition find_last_of :: "(char \<Rightarrow> bool) \<Rightarrow> string \<Rightarrow> nat option" where
  "find_last_of P s = map_option (\<lambda>i. length s - Suc i) (find_first_of P (rev s))"

text \<open>\<open>npos\<close> as a count means the rest of the string; a start past the end throws \<open>out_of_range\<close>.\<close>

definition substr :: "nat \<Rightarrow> nat option \<Rightarrow> string \<Rightarrow> string res" where
  "substr pos n s =
     (if length s < pos then Inl UncaughtException
      else Inr (case n of None \<Rightarrow> drop pos s | Some n \<Rightarrow> take n (drop pos s)))"

lemma find_first_of_None [simp]: "find_first_of P s = None \<longleftrightarrow> (\<forall>c\<in>set s. \<not> P c)"
  by (induction s) auto

lemma find_first_of_Some:
  "find_first_of P s = Some i \<longleftrightarrow> i < length s \<and> P (s ! i) \<and> (\<forall>c\<in>set (take i s). \<not> P c)"
proof (induction s arbitrary: i)
  case (Cons c s)
  then show ?case by (cases i) auto
qed simp

lemma find_first_of_append:
  "\<forall>c\<in>set s. \<not> P c \<Longrightarrow> find_first_of P (s @ t) = map_option (\<lambda>i. length s + i) (find_first_of P t)"
  by (induction s) (cases "find_first_of P t"; simp del: find_first_of_None)+

lemma find_first_of_bound: "find_first_of P s = Some i \<Longrightarrow> i < length s"
  by (simp add: find_first_of_Some)

lemma substr_ok [simp]: "pos \<le> length s \<Longrightarrow>
    substr pos n s = Inr (case n of None \<Rightarrow> drop pos s | Some n \<Rightarrow> take n (drop pos s))"
  by (simp add: substr_def)

section \<open>Decimal numbers\<close>

definition is_space :: "char \<Rightarrow> bool" where
  "is_space c \<longleftrightarrow> of_char c = (32 :: nat) \<or> 9 \<le> (of_char c :: nat) \<and> of_char c \<le> (13 :: nat)"

definition is_digit :: "char \<Rightarrow> bool" where
  "is_digit c \<longleftrightarrow> 48 \<le> (of_char c :: nat) \<and> of_char c \<le> (57 :: nat)"

definition digits_value :: "string \<Rightarrow> nat" where
  "digits_value s = foldl (\<lambda>n c. 10 * n + (of_char c - 48)) 0 (takeWhile is_digit s)"

text \<open>\<open>strtol\<close> clamps to the 64 bits of a \<open>long\<close>; \<open>atoi\<close> converts its result to \<open>int\<close>.\<close>

definition strtol :: "string \<Rightarrow> int" where
  "strtol s =
     (let s = dropWhile is_space s;
          v = (case s of
                 [] \<Rightarrow> 0
               | c # t \<Rightarrow> if c = CHR ''-'' then - int (digits_value t)
                          else if c = CHR ''+'' then int (digits_value t)
                          else int (digits_value s))
      in max (- (2 ^ 63)) (min (2 ^ 63 - 1) v))"

definition atoi :: "string \<Rightarrow> int" where
  "atoi s = sint (word_of_int (strtol s) :: 32 word)"

fun dec_nat :: "nat \<Rightarrow> string" where
  "dec_nat n = (if n < 10 then [char_of (48 + n)] else dec_nat (n div 10) @ [char_of (48 + n mod 10)])"

declare dec_nat.simps [simp del]

definition to_string :: "int \<Rightarrow> string" where
  "to_string i = (if i < 0 then CHR ''-'' # dec_nat (nat (- i)) else dec_nat (nat i))"

lemma of_char_digit [simp]: "n < 10 \<Longrightarrow> of_char (char_of (48 + n) :: char) = (48 + n :: nat)"
  by (simp add: of_char_of)

lemma is_digit_digit [simp]: "(n :: nat) < 10 \<Longrightarrow> is_digit (char_of (48 + n))"
  by (simp add: is_digit_def)

lemma dec_nat_digits: "c \<in> set (dec_nat n) \<Longrightarrow> is_digit c"
proof (induction n rule: dec_nat.induct)
  case (1 n)
  then show ?case
    by (subst (asm) (2) dec_nat.simps) (auto split: if_splits)
qed

lemma digits_value_snoc:
  assumes "\<forall>c\<in>set s. is_digit c" and "n < 10"
  shows "digits_value (s @ [char_of (48 + n)]) = 10 * digits_value s + n"
proof -
  have "takeWhile is_digit (s @ [char_of (48 + n)]) = s @ [char_of (48 + n)]"
    using assms by (simp add: takeWhile_eq_all_conv)
  moreover have "takeWhile is_digit s = s"
    using assms(1) by (simp add: takeWhile_eq_all_conv)
  ultimately show ?thesis
    using assms(2) unfolding digits_value_def by (simp only: foldl_append foldl_Cons foldl_Nil) simp
qed

lemma digits_value_dec_nat: "digits_value (dec_nat n) = n"
proof (induction n rule: dec_nat.induct)
  case (1 n)
  show ?case
  proof (cases "n < 10")
    case True
    then have "dec_nat n = [] @ [char_of (48 + n)]"
      by (subst dec_nat.simps) simp
    then show ?thesis
      using digits_value_snoc [of "[]" n] True by (simp add: digits_value_def)
  next
    case False
    then have "dec_nat n = dec_nat (n div 10) @ [char_of (48 + n mod 10)]"
      by (subst dec_nat.simps) simp
    then show ?thesis
      using digits_value_snoc [of "dec_nat (n div 10)" "n mod 10"] 1 False dec_nat_digits by simp
  qed
qed

lemma dec_nat_Cons: "\<exists>c s. dec_nat n = c # s \<and> is_digit c"
  by (cases "dec_nat n") (use dec_nat_digits [of _ n] in \<open>auto simp: dec_nat.simps [of n] split: if_splits\<close>)

lemma digit_not_space: "is_digit c \<Longrightarrow> \<not> is_space c \<and> c \<noteq> CHR ''-'' \<and> c \<noteq> CHR ''+''"
  by (auto simp: is_digit_def is_space_def)

lemma strtol_to_string: "\<bar>i\<bar> < 2 ^ 63 \<Longrightarrow> strtol (to_string i) = i"
proof -
  assume b: "\<bar>i\<bar> < 2 ^ 63"
  have neg: "\<not> is_space (CHR ''-'')"
    by (simp add: is_space_def)
  obtain c s where d: "dec_nat (nat \<bar>i\<bar>) = c # s" "is_digit c"
    using dec_nat_Cons by blast
  show ?thesis
    using b neg d digit_not_space [OF d(2)] digits_value_dec_nat [of "nat \<bar>i\<bar>"]
    by (auto simp: strtol_def to_string_def Let_def)
qed

lemma atoi_to_string:
  assumes "- (2 ^ 31) \<le> i" and "i < 2 ^ 31"
  shows "atoi (to_string i) = i"
proof -
  have "strtol (to_string i) = i"
    using assms by (intro strtol_to_string) simp
  then show ?thesis
    using assms by (simp add: atoi_def signed_of_int signed_take_bit_int_eq_self)
qed

end
