(* ===== verification/Os.thy ===== *)
theory Os
  imports CString
begin

text \<open>
  The system calls the sources make, as data, and the operating system as a parameter of the
  model: a \<open>kernel\<close> answers a call with a result code, data read, and a new state of the world.
  Every call is also appended to a trace, so that a property can say what the program asked for,
  whatever the kernel answers.
\<close>

text \<open>
  The functions of the speech library (include/tts/qtts.h, msp_cmn.h) that the player calls, with the
  arguments it passes; \<open>Audio_get\<close> carries the session only, the other arguments of
  \<open>QTTSAudioGet\<close> are results.
\<close>

datatype msp_call =
    Login string
  | Logout
  | Session_begin string
  | Text_put string "byte list"
  | Audio_get string
  | Session_end string string

datatype syscall =
    Opendir string
  | Open_file string
  | Write_fd int "byte list"
  | Read_fd int nat
  | Lseek int
  | Close_fd int
  | Socket
  | Setsockopt int string int
  | Bind int nat
  | Listen int int
  | Accept_conn int
  | Spawn_accept
  | Shutdown int
  | Send_sock int "byte list"
  | Select_fd int int
  | Recv_sock int nat
  | System "byte list"
  | Open_tty string
  | Tcflush int
  | Tcsetattr int int
  | Connect int string nat
  | Spawn_connect
  | Cancel_connect
  | Socket_dgram
  | Sendto int string nat "byte list"
  | Recvfrom int nat
  | Access string
  | Mkdir string
  | Fopen string
  | Ftell int
  | Fclose int
  | Fwrite int string
  | Fflush int
  | Statvfs string
  | Remove string
  | Fopen_wb string
  | Fwrite_block int "byte list"
  | Fseek int int
  | Msp msp_call

record 'w os =
  world :: 'w
  calls :: "syscall list"

type_synonym 'w kernel = "syscall \<Rightarrow> 'w \<Rightarrow> (int \<times> byte list) \<times> 'w"

definition do_sys :: "'w kernel \<Rightarrow> syscall \<Rightarrow> 'w os \<Rightarrow> (int \<times> byte list) \<times> 'w os" where
  "do_sys K c s = (case K c (world s) of (r, w) \<Rightarrow> (r, \<lparr>world = w, calls = calls s @ [c]\<rparr>))"

definition answer :: "'w kernel \<Rightarrow> syscall \<Rightarrow> 'w os \<Rightarrow> int" where
  "answer K c s = fst (fst (K c (world s)))"

definition after :: "'w kernel \<Rightarrow> syscall \<Rightarrow> 'w os \<Rightarrow> 'w os" where
  "after K c s = snd (do_sys K c s)"

lemma calls_after [simp]: "calls (after K c s) = calls s @ [c]"
  by (simp add: after_def do_sys_def split: prod.splits)

lemma world_after: "world (after K c s) = snd (K c (world s))"
  by (simp add: after_def do_sys_def split: prod.split)

lemma fst_fst_do_sys [simp]: "fst (fst (do_sys K c s)) = answer K c s"
  by (simp add: answer_def do_sys_def split: prod.splits)

lemma snd_do_sys [simp]: "snd (do_sys K c s) = after K c s"
  by (simp add: after_def)

text \<open>
  A \<open>std::thread\<close> object: not started, started with its body still to run, or finished and not
  joined; \<open>joinable\<close> is false only for the first. Joining runs a body that is still to run.
\<close>

datatype thread_state = NotStarted | Running | Finished

definition joinable :: "thread_state \<Rightarrow> bool" where
  "joinable t \<longleftrightarrow> t \<noteq> NotStarted"

text \<open>The characters of a string, as the bytes that a call passes.\<close>

definition bytes_of :: "string \<Rightarrow> byte list" where
  "bytes_of s = map of_char s"

definition string_of :: "byte list \<Rightarrow> string" where
  "string_of bs = map (\<lambda>b. char_of (unat b)) bs"

lemma string_of_bytes_of [simp]: "string_of (bytes_of s) = s"
proof -
  have "char_of (unat (of_char c :: byte)) = c" for c
  proof -
    have "(of_char c :: nat) < 256"
      by (metis of_char_mod_256 mod_less_divisor zero_less_numeral)
    then have "unat (word_of_nat (of_char c) :: byte) = (of_char c :: nat)"
      by (simp add: unat_of_nat take_bit_nat_eq_self)
    then have "unat (of_char c :: byte) = (of_char c :: nat)"
      by (simp only: of_nat_of_char)
    then show ?thesis
      by simp
  qed
  then show ?thesis
    by (simp add: string_of_def bytes_of_def comp_def)
qed

text \<open>The C string in a buffer: the characters before the first zero byte.\<close>

definition c_string :: "byte list \<Rightarrow> byte list" where
  "c_string buf = takeWhile (\<lambda>b. b \<noteq> 0) buf"

end
