(* ===== verification/Transport.thy ===== *)
theory Transport
  imports Os
begin

text \<open>
  \<open>Communication\<close> and its subclasses: \<open>SerialPort\<close> (src/Uart.cpp), \<open>TcpClient\<close> (src/Tcp.cpp),
  \<open>UdpClient\<close> (src/Udp.cpp), and the factory \<open>CommManage::CreatComm\<close> (src/CommManage.cpp).
  A descriptor that was never assigned is \<open>None\<close>, and using it a fault. A read returns the result
  code with the bytes it stored. The virtual calls are the functions \<open>comm_*\<close>; what the program
  relies on is the locale \<open>transport\<close>, whose laws the serial port and the TCP client obey.
\<close>

section \<open>The serial port\<close>

record serial =
  ser_fd :: "int option"
  ser_open :: bool
  ser_port :: string
  ser_baud :: int

text \<open>The speed constants stand for the speeds they name.\<close>

definition SetBaud :: "int \<Rightarrow> int" where
  "SetBaud baudRate = (if baudRate \<in> {9600, 19200, 38400, 57600, 115200} then baudRate else 115200)"

definition SerialPort_new :: "string \<Rightarrow> int \<Rightarrow> serial" where
  "SerialPort_new p baudRate = \<lparr>ser_fd = None, ser_open = False, ser_port = p, ser_baud = SetBaud baudRate\<rparr>"

definition SerialPort_Close :: "'w kernel \<Rightarrow> serial \<Rightarrow> 'w os \<Rightarrow> (bool \<times> serial \<times> 'w os) res" where
  "SerialPort_Close K t s =
     (case ser_fd t of
        None \<Rightarrow> Inl Uninitialised
      | Some f \<Rightarrow> Inr (True, t\<lparr>ser_open := False\<rparr>, snd (do_sys K (Close_fd f) s)))"

definition SerialPort_Open :: "'w kernel \<Rightarrow> serial \<Rightarrow> 'w os \<Rightarrow> (bool \<times> serial \<times> 'w os) res" where
  "SerialPort_Open K t s =
     bindE (if ser_open t then SerialPort_Close K t s else Inr (True, t, s)) (\<lambda>(_, t, s).
     let (r, s) = do_sys K (Open_tty (ser_port t)) s; t = t\<lparr>ser_fd := Some (fst r)\<rparr>
     in if fst r < 0 then Inr (False, t, s)
        else let (_, s) = do_sys K (Tcflush (fst r)) s;
                 (a, s) = do_sys K (Tcsetattr (fst r) (ser_baud t)) s
             in if fst a < 0 then Inr (False, t, s) else Inr (True, t\<lparr>ser_open := True\<rparr>, s))"

definition SerialPort_Send :: "'w kernel \<Rightarrow> byte list \<Rightarrow> serial \<Rightarrow> 'w os \<Rightarrow> (int \<times> serial \<times> 'w os) res" where
  "SerialPort_Send K buf t s =
     (if \<not> ser_open t then Inr (0, t, s)
      else case ser_fd t of
             None \<Rightarrow> Inl Uninitialised
           | Some f \<Rightarrow> let (r, s) = do_sys K (Write_fd f buf) s in Inr (if fst r < 0 then 0 else 1, t, s))"

definition SerialPort_Recv ::
  "'w kernel \<Rightarrow> nat \<Rightarrow> serial \<Rightarrow> 'w os \<Rightarrow> ((int \<times> byte list) \<times> serial \<times> 'w os) res" where
  "SerialPort_Recv K len t s =
     (case ser_fd t of
        None \<Rightarrow> Inl Uninitialised
      | Some f \<Rightarrow> let (r, s) = do_sys K (Read_fd f len) s in Inr (r, t, s))"

definition SerialPort_RecvTimeout ::
  "'w kernel \<Rightarrow> nat \<Rightarrow> int \<Rightarrow> serial \<Rightarrow> 'w os \<Rightarrow> ((int \<times> byte list) \<times> serial \<times> 'w os) res" where
  "SerialPort_RecvTimeout K len timeout t s =
     (if \<not> ser_open t then Inr ((0, []), t, s)
      else case ser_fd t of
             None \<Rightarrow> Inl Uninitialised
           | Some f \<Rightarrow>
               let (r, s) = do_sys K (Select_fd f timeout) s
               in if fst r < 0 then Inr ((-1, []), t, s)
                  else if fst r = 0 then Inr ((0, []), t, s)
                  else let (r, s) = do_sys K (Read_fd f len) s in Inr (r, t, s))"

definition SerialPort_Clear :: "'w kernel \<Rightarrow> serial \<Rightarrow> 'w os \<Rightarrow> (bool \<times> 'w os) res" where
  "SerialPort_Clear K t s =
     (case ser_fd t of None \<Rightarrow> Inl Uninitialised | Some f \<Rightarrow> Inr (True, snd (do_sys K (Tcflush f) s)))"

definition SerialPort_delete :: "'w kernel \<Rightarrow> serial \<Rightarrow> 'w os \<Rightarrow> 'w os res" where
  "SerialPort_delete K t s = bindE (SerialPort_Close K t s) (\<lambda>(_, _, s). Inr s)"

section \<open>The TCP client\<close>

record tcp_client =
  cli_open :: bool
  cli_fd :: int
  cli_ip :: string
  cli_port :: nat
  ConnectLen :: int

definition TcpClient_new :: "'w kernel \<Rightarrow> string \<Rightarrow> int \<Rightarrow> 'w os \<Rightarrow> tcp_client \<times> 'w os" where
  "TcpClient_new K ip p s =
     (let n = nat (p mod 2 ^ 16)
      in (\<lparr>cli_open = False, cli_fd = -1, cli_ip = ip, cli_port = n, ConnectLen = 0\<rparr>,
          if n \<noteq> 0 then snd (do_sys K Spawn_connect s) else s))"

definition TcpClient_Open :: "'w kernel \<Rightarrow> tcp_client \<Rightarrow> 'w os \<Rightarrow> (bool \<times> tcp_client \<times> 'w os) res" where
  "TcpClient_Open K t s =
     (let (r, s) = do_sys K Socket s; t = t\<lparr>cli_fd := fst r\<rparr>
      in if cli_fd t < 0 then Inr (False, t, s)
         else let (r, s) = do_sys K (Connect (cli_fd t) (cli_ip t) (cli_port t)) s
              in if fst r < 0
                 then let n = (if ConnectLen t \<le> 0 \<or> ConnectLen t > 600 then 0 else ConnectLen t);
                          (_, s) = do_sys K (Close_fd (cli_fd t)) s
                      in Inr (False, t\<lparr>ConnectLen := n + 1\<rparr>, s)
                 else Inr (True, t\<lparr>cli_open := True, ConnectLen := 0\<rparr>, s))"

definition TcpClient_Close :: "'w kernel \<Rightarrow> tcp_client \<Rightarrow> 'w os \<Rightarrow> (bool \<times> tcp_client \<times> 'w os) res" where
  "TcpClient_Close K t s =
     (let (_, s) = do_sys K Cancel_connect s
      in Inr (True, t, if cli_open t then snd (do_sys K (Close_fd (cli_fd t)) s) else s))"

text \<open>What every operation does when the peer is gone.\<close>

definition client_disconnected :: "'w kernel \<Rightarrow> tcp_client \<Rightarrow> 'w os \<Rightarrow> tcp_client \<times> 'w os" where
  "client_disconnected K t s = (t\<lparr>cli_open := False\<rparr>, snd (do_sys K (Close_fd (cli_fd t)) s))"

definition TcpClient_Send ::
  "'w kernel \<Rightarrow> byte list \<Rightarrow> tcp_client \<Rightarrow> 'w os \<Rightarrow> (int \<times> tcp_client \<times> 'w os) res" where
  "TcpClient_Send K buf t s =
     (if \<not> cli_open t then Inr (0, t, s)
      else let (r, s) = do_sys K (Send_sock (cli_fd t) buf) s
           in if fst r < 0 then Inr (-1, client_disconnected K t s) else Inr (1, t, s))"

definition TcpClient_Recv ::
  "'w kernel \<Rightarrow> nat \<Rightarrow> tcp_client \<Rightarrow> 'w os \<Rightarrow> ((int \<times> byte list) \<times> tcp_client \<times> 'w os) res" where
  "TcpClient_Recv K len t s =
     (if \<not> cli_open t then Inr ((-1, []), t, s)
      else let (r, s) = do_sys K (Recv_sock (cli_fd t) len) s
           in if fst r \<le> 0 then Inr ((-1, []), client_disconnected K t s) else Inr (r, t, s))"

definition TcpClient_RecvTimeout ::
  "'w kernel \<Rightarrow> nat \<Rightarrow> int \<Rightarrow> tcp_client \<Rightarrow> 'w os \<Rightarrow> ((int \<times> byte list) \<times> tcp_client \<times> 'w os) res" where
  "TcpClient_RecvTimeout K len timeout t s =
     (if \<not> cli_open t then Inr ((-1, []), t, s)
      else let (r, s) = do_sys K (Select_fd (cli_fd t) timeout) s
           in if fst r < 0 then Inr ((-1, []), t, s)
              else if fst r = 0 then Inr ((0, []), t, s)
              else let (r, s) = do_sys K (Recv_sock (cli_fd t) len) s
                   in if fst r \<le> 0 then Inr ((-1, []), client_disconnected K t s) else Inr (r, t, s))"

definition TcpClient_delete :: "'w kernel \<Rightarrow> tcp_client \<Rightarrow> 'w os \<Rightarrow> 'w os res" where
  "TcpClient_delete K t s =
     (if cli_open t then bindE (TcpClient_Close K t s) (\<lambda>(_, _, s). Inr s) else Inr s)"

text \<open>One turn of \<open>ConnectThread\<close>.\<close>

definition ConnectThread_round :: "'w kernel \<Rightarrow> tcp_client \<Rightarrow> 'w os \<Rightarrow> (tcp_client \<times> 'w os) res" where
  "ConnectThread_round K t s =
     (if \<not> cli_open t then bindE (TcpClient_Open K t s) (\<lambda>(_, t, s). Inr (t, s)) else Inr (t, s))"

section \<open>The UDP client\<close>

record udp_client =
  udp_open :: bool
  udp_fd :: "int option"
  udp_port :: int
  udp_ip :: string

definition UdpClient_new :: "string \<Rightarrow> int \<Rightarrow> udp_client" where
  "UdpClient_new ip p = \<lparr>udp_open = False, udp_fd = None, udp_port = p, udp_ip = ip\<rparr>"

definition UdpClient_Open :: "'w kernel \<Rightarrow> udp_client \<Rightarrow> 'w os \<Rightarrow> (bool \<times> udp_client \<times> 'w os) res" where
  "UdpClient_Open K t s =
     bindE (if udp_open t then Inr s
            else case udp_fd t of None \<Rightarrow> Inl Uninitialised | Some f \<Rightarrow> Inr (snd (do_sys K (Close_fd f) s))) (\<lambda>s.
     let (r, s) = do_sys K Socket_dgram s; t = t\<lparr>udp_fd := Some (fst r)\<rparr>
     in if fst r < 0 then Inr (False, t, s) else Inr (True, t\<lparr>udp_open := True\<rparr>, s))"

definition UdpClient_Close :: "'w kernel \<Rightarrow> udp_client \<Rightarrow> 'w os \<Rightarrow> (bool \<times> udp_client \<times> 'w os) res" where
  "UdpClient_Close K t s =
     (case udp_fd t of
        None \<Rightarrow> Inl Uninitialised
      | Some f \<Rightarrow> Inr (False, t, if f < 0 then snd (do_sys K (Close_fd f) s) else s))"

definition UdpClient_Send ::
  "'w kernel \<Rightarrow> byte list \<Rightarrow> udp_client \<Rightarrow> 'w os \<Rightarrow> (int \<times> udp_client \<times> 'w os) res" where
  "UdpClient_Send K buf t s =
     (case udp_fd t of
        None \<Rightarrow> Inl Uninitialised
      | Some f \<Rightarrow> let (r, s) = do_sys K (Sendto f (udp_ip t) (nat (udp_port t mod 2 ^ 16)) buf) s
                  in Inr (fst r, t, s))"

definition UdpClient_Recv ::
  "'w kernel \<Rightarrow> nat \<Rightarrow> udp_client \<Rightarrow> 'w os \<Rightarrow> ((int \<times> byte list) \<times> udp_client \<times> 'w os) res" where
  "UdpClient_Recv K len t s =
     (case udp_fd t of
        None \<Rightarrow> Inl Uninitialised
      | Some f \<Rightarrow> let (r, s) = do_sys K (Recvfrom f len) s in Inr (r, t, s))"

definition UdpClient_RecvTimeout ::
  "'w kernel \<Rightarrow> nat \<Rightarrow> int \<Rightarrow> udp_client \<Rightarrow> 'w os \<Rightarrow> ((int \<times> byte list) \<times> udp_client \<times> 'w os) res" where
  "UdpClient_RecvTimeout K len timeout t s =
     (case udp_fd t of
        None \<Rightarrow> Inl Uninitialised
      | Some f \<Rightarrow>
          let (r, s) = do_sys K (Select_fd f timeout) s
          in if fst r < 0 then Inr ((-1, []), t, s)
             else if fst r = 0 then Inr ((0, []), t, s)
             else let (r, s) = do_sys K (Recvfrom f len) s
                  in if fst r \<le> 0 then Inr ((-1, []), t, s) else Inr (r, t, s))"

section \<open>The factory\<close>

text \<open>What \<open>Communication *\<close> points to, and the virtual calls.\<close>

datatype comm = is_serial: Serial serial | Client tcp_client

definition wrap :: "('t \<Rightarrow> comm) \<Rightarrow> ('r \<times> 't \<times> 'w os) res \<Rightarrow> ('r \<times> comm \<times> 'w os) res" where
  "wrap C x = bindE x (\<lambda>(r, t, s). Inr (r, C t, s))"

fun comm_open :: "'w kernel \<Rightarrow> comm \<Rightarrow> 'w os \<Rightarrow> (bool \<times> comm \<times> 'w os) res" where
  "comm_open K (Serial t) s = wrap Serial (SerialPort_Open K t s)"
| "comm_open K (Client t) s = wrap Client (TcpClient_Open K t s)"

fun comm_close :: "'w kernel \<Rightarrow> comm \<Rightarrow> 'w os \<Rightarrow> (bool \<times> comm \<times> 'w os) res" where
  "comm_close K (Serial t) s = wrap Serial (SerialPort_Close K t s)"
| "comm_close K (Client t) s = wrap Client (TcpClient_Close K t s)"

fun comm_send :: "'w kernel \<Rightarrow> byte list \<Rightarrow> comm \<Rightarrow> 'w os \<Rightarrow> (int \<times> comm \<times> 'w os) res" where
  "comm_send K buf (Serial t) s = wrap Serial (SerialPort_Send K buf t s)"
| "comm_send K buf (Client t) s = wrap Client (TcpClient_Send K buf t s)"

fun comm_recv :: "'w kernel \<Rightarrow> nat \<Rightarrow> comm \<Rightarrow> 'w os \<Rightarrow> ((int \<times> byte list) \<times> comm \<times> 'w os) res" where
  "comm_recv K len (Serial t) s = wrap Serial (SerialPort_Recv K len t s)"
| "comm_recv K len (Client t) s = wrap Client (TcpClient_Recv K len t s)"

fun comm_status :: "comm \<Rightarrow> bool" where
  "comm_status (Serial t) = ser_open t"
| "comm_status (Client t) = cli_open t"

fun comm_delete :: "'w kernel \<Rightarrow> comm \<Rightarrow> 'w os \<Rightarrow> 'w os res" where
  "comm_delete K (Serial t) s = SerialPort_delete K t s"
| "comm_delete K (Client t) s = TcpClient_delete K t s"

text \<open>
  When opening fails, the code logs the name of the device by passing a \<open>std::string\<close> through the dots of the
  variadic logging function, which C++ supports conditionally at best. Logging leaves no trace here, so that call is no
  step; what is modelled is the rest of the branch.
\<close>

definition CreatComm :: "'w kernel \<Rightarrow> int \<Rightarrow> string \<Rightarrow> int \<Rightarrow> 'w os \<Rightarrow> (comm option \<times> 'w os) res" where
  "CreatComm K nType Dev Port s =
     (let (c, s) = (if nType = 0 then (Serial (SerialPort_new Dev Port), s)
                    else let (t, s) = TcpClient_new K Dev Port s in (Client t, s))
      in bindE (comm_open K c s) (\<lambda>(ok, c, s).
         if \<not> ok then bindE (comm_delete K c s) (\<lambda>s. Inr (None, s)) else Inr (Some c, s)))"

section \<open>The contract of a transport\<close>

text \<open>
  What the display and the factory rely on. \<open>valid\<close> is the class invariant. \<open>Close\<close> is left out: the
  TCP client still reports itself open after it.
\<close>

locale transport =
  fixes opens :: "'t \<Rightarrow> 'w os \<Rightarrow> (bool \<times> 't \<times> 'w os) res"
    and sends :: "byte list \<Rightarrow> 't \<Rightarrow> 'w os \<Rightarrow> (int \<times> 't \<times> 'w os) res"
    and recvs :: "nat \<Rightarrow> 't \<Rightarrow> 'w os \<Rightarrow> ((int \<times> byte list) \<times> 't \<times> 'w os) res"
    and status :: "'t \<Rightarrow> bool"
    and valid :: "'t \<Rightarrow> bool"
  assumes open_law: "valid t \<Longrightarrow> \<not> status t \<Longrightarrow> \<exists>t' s'. opens t s = Inr (status t', t', s') \<and> valid t'"
    and send_closed: "\<not> status t \<Longrightarrow> sends buf t s = Inr (0, t, s)"
    and send_open: "valid t \<Longrightarrow> status t \<Longrightarrow> \<exists>r t' s'. sends buf t s = Inr (r, t', s') \<and> valid t' \<and> (0 < r \<longrightarrow> t' = t)"
    and recv_open: "valid t \<Longrightarrow> status t \<Longrightarrow> \<exists>x t' s'. recvs n t s = Inr (x, t', s') \<and> valid t' \<and> (0 < fst x \<longrightarrow> t' = t)"
begin

lemma send_total: "valid t \<Longrightarrow> \<exists>r t' s'. sends buf t s = Inr (r, t', s') \<and> valid t' \<and> (\<not> status t \<longrightarrow> s' = s)"
  using send_closed [of t buf s] send_open [of t buf s] by (cases "status t") auto

text \<open>A sender that ignores the results, as the display does: it never faults, whatever breaks meanwhile.\<close>

definition send_each :: "byte list list \<Rightarrow> 't \<times> 'w os \<Rightarrow> ('t \<times> 'w os) res" where
  "send_each bufs x = foldE (\<lambda>buf (t, s). bindE (sends buf t s) (\<lambda>(_, t, s). Inr (t, s))) bufs x"

lemma send_each_total: "valid t \<Longrightarrow> \<exists>t' s'. send_each bufs (t, s) = Inr (t', s') \<and> valid t'"
proof (induction bufs arbitrary: t s)
  case Nil
  then show ?case by (simp add: send_each_def)
next
  case (Cons b bufs)
  obtain r t' s' where "sends b t s = Inr (r, t', s')" "valid t'"
    using send_total [OF Cons.prems] by blast
  with Cons.IH [of t' s'] show ?case
    by (simp add: send_each_def)
qed

text \<open>Opening again until it works, at most \<open>n\<close> times.\<close>

primrec open_retry :: "nat \<Rightarrow> 't \<Rightarrow> 'w os \<Rightarrow> ('t \<times> 'w os) res" where
  "open_retry 0 t s = Inr (t, s)"
| "open_retry (Suc n) t s = (if status t then Inr (t, s)
     else bindE (opens t s) (\<lambda>(ok, t, s). if ok then Inr (t, s) else open_retry n t s))"

lemma open_retry_total: "valid t \<Longrightarrow> \<exists>t' s'. open_retry n t s = Inr (t', s') \<and> valid t'"
proof (induction n arbitrary: t s)
  case (Suc n)
  show ?case
  proof (cases "status t")
    case False
    then obtain t' s' where "opens t s = Inr (status t', t', s')" "valid t'"
      using open_law Suc.prems by blast
    then show ?thesis
      using False Suc.IH [of t' s'] by simp
  qed (use Suc.prems in simp)
qed simp

end

definition serial_valid :: "serial \<Rightarrow> bool" where
  "serial_valid t \<longleftrightarrow> (ser_open t \<longrightarrow> (\<exists>f\<ge>0. ser_fd t = Some f))"

definition client_valid :: "tcp_client \<Rightarrow> bool" where
  "client_valid t \<longleftrightarrow> (cli_open t \<longrightarrow> 0 \<le> cli_fd t)"

fun comm_valid :: "comm \<Rightarrow> bool" where
  "comm_valid (Serial t) = serial_valid t"
| "comm_valid (Client t) = client_valid t"

lemma serial_open_law:
  assumes "\<not> ser_open t"
  shows "\<exists>t' s'. SerialPort_Open K t s = Inr (ser_open t', t', s') \<and> serial_valid t' \<and> ser_fd t' \<noteq> None"
  using assms by (auto simp: SerialPort_Open_def serial_valid_def case_prod_beta Let_def)

lemma client_open_law:
  assumes "\<not> cli_open t"
  shows "\<exists>t' s'. TcpClient_Open K t s = Inr (cli_open t', t', s') \<and> client_valid t'"
  using assms by (auto simp: TcpClient_Open_def client_valid_def case_prod_beta Let_def)

interpretation serial: transport "SerialPort_Open K" "SerialPort_Send K" "SerialPort_Recv K" ser_open serial_valid
proof unfold_locales
  show "\<exists>t' s'. SerialPort_Open K t s = Inr (ser_open t', t', s') \<and> serial_valid t'" if "\<not> ser_open t" for t s
    using serial_open_law [OF that, of K s] by blast
qed (auto simp: SerialPort_Send_def SerialPort_Recv_def serial_valid_def case_prod_beta Let_def)

interpretation client: transport "TcpClient_Open K" "TcpClient_Send K" "TcpClient_Recv K" cli_open client_valid
proof unfold_locales
  show "\<exists>t' s'. TcpClient_Open K t s = Inr (cli_open t', t', s') \<and> client_valid t'" if "\<not> cli_open t" for t s
    using client_open_law [OF that] .
qed (auto simp: TcpClient_Send_def TcpClient_Recv_def client_disconnected_def client_valid_def case_prod_beta Let_def)

interpretation comm: transport "comm_open K" "comm_send K" "comm_recv K" comm_status comm_valid
proof unfold_locales
  fix t :: comm and s :: "'a os" and buf n
  show "comm_valid t \<Longrightarrow> \<not> comm_status t \<Longrightarrow> \<exists>t' s'. comm_open K t s = Inr (comm_status t', t', s') \<and> comm_valid t'"
    using serial.open_law [of _ K s] client.open_law [of _ K s] by (cases t) (fastforce simp: wrap_def)+
  show "\<not> comm_status t \<Longrightarrow> comm_send K buf t s = Inr (0, t, s)"
    by (cases t) (simp_all add: wrap_def serial.send_closed client.send_closed)
  show "comm_valid t \<Longrightarrow> comm_status t \<Longrightarrow>
      \<exists>r t' s'. comm_send K buf t s = Inr (r, t', s') \<and> comm_valid t' \<and> (0 < r \<longrightarrow> t' = t)"
    using serial.send_open [of _ K buf s] client.send_open [of _ K buf s] by (cases t) (fastforce simp: wrap_def)+
  show "comm_valid t \<Longrightarrow> comm_status t \<Longrightarrow>
      \<exists>x t' s'. comm_recv K n t s = Inr (x, t', s') \<and> comm_valid t' \<and> (0 < fst x \<longrightarrow> t' = t)"
    using serial.recv_open [of _ K n s] client.recv_open [of _ K n s] by (cases t) (fastforce simp: wrap_def)+
qed

section \<open>Properties\<close>

lemma calls_serial_open: "\<not> ser_open t \<Longrightarrow> SerialPort_Open K t s = Inr (ok, t', s') \<Longrightarrow>
    \<exists>f. ser_fd t' = Some f \<and> (\<exists>cs. calls s' = calls s @ cs)"
  by (auto simp: SerialPort_Open_def case_prod_beta Let_def split: if_splits)

lemma CreatComm_serial:
  "\<exists>r s' cs. CreatComm K 0 Dev Port s = Inr (r, s') \<and> calls s' = calls s @ cs \<and>
     (\<forall>c. r = Some c \<longrightarrow> comm_valid c \<and> comm_status c \<and> is_serial c)"
proof -
  let ?t = "SerialPort_new Dev Port"
  have "\<not> ser_open ?t"
    by (simp add: SerialPort_new_def)
  from serial_open_law [OF this, of K s] obtain t' s' where
    o: "SerialPort_Open K ?t s = Inr (ser_open t', t', s')" "serial_valid t'" by blast
  obtain f cs where f: "ser_fd t' = Some f" "calls s' = calls s @ cs"
    using calls_serial_open [OF \<open>\<not> ser_open ?t\<close> o(1)] by blast
  show ?thesis
    using o f by (cases "ser_open t'")
      (auto simp: CreatComm_def wrap_def SerialPort_delete_def SerialPort_Close_def case_prod_beta Let_def)
qed

lemma calls_client_open: "TcpClient_Open K t s = Inr (ok, t', s') \<Longrightarrow>
    \<exists>cs. calls s' = calls s @ cs \<and> Cancel_connect \<notin> set cs"
  by (auto simp: TcpClient_Open_def case_prod_beta Let_def split: if_splits)

lemma TcpClient_new_state:
  "\<not> cli_open (fst (TcpClient_new K ip p s))"
  "\<exists>cs. calls (snd (TcpClient_new K ip p s)) = calls s @ cs \<and> Cancel_connect \<notin> set cs \<and>
     (p mod 2 ^ 16 \<noteq> 0 \<longrightarrow> Spawn_connect \<in> set cs)"
proof -
  show "\<not> cli_open (fst (TcpClient_new K ip p s))"
    by (simp add: TcpClient_new_def Let_def)
  have "nat (p mod 2 ^ 16) = 0 \<Longrightarrow> p mod 2 ^ 16 = 0"
    by (metis nat_0_iff order_antisym pos_mod_sign zero_less_numeral zero_less_power)
  then show "\<exists>cs. calls (snd (TcpClient_new K ip p s)) = calls s @ cs \<and> Cancel_connect \<notin> set cs \<and>
     (p mod 2 ^ 16 \<noteq> 0 \<longrightarrow> Spawn_connect \<in> set cs)"
    by (auto simp: TcpClient_new_def Let_def simp del: power_numeral)
qed

lemma CreatComm_client:
  assumes "n \<noteq> 0"
  shows "\<exists>r s' cs. CreatComm K n Dev Port s = Inr (r, s') \<and> calls s' = calls s @ cs \<and>
     (\<forall>c. r = Some c \<longrightarrow> comm_valid c \<and> comm_status c \<and> \<not> is_serial c) \<and>
     (Port mod 2 ^ 16 \<noteq> 0 \<longrightarrow> Spawn_connect \<in> set cs) \<and> Cancel_connect \<notin> set cs"
proof -
  obtain t s1 where t: "TcpClient_new K Dev Port s = (t, s1)"
    by fastforce
  from TcpClient_new_state [of K Dev Port s] t obtain cs1 where c1: "\<not> cli_open t" "calls s1 = calls s @ cs1"
    "Cancel_connect \<notin> set cs1" "Port mod 2 ^ 16 \<noteq> 0 \<longrightarrow> Spawn_connect \<in> set cs1"
    by auto
  from client_open_law [OF c1(1), of K s1] obtain t' s' where
    o: "TcpClient_Open K t s1 = Inr (cli_open t', t', s')" "client_valid t'" by blast
  obtain cs2 where c2: "calls s' = calls s1 @ cs2" "Cancel_connect \<notin> set cs2"
    using calls_client_open [OF o(1)] by blast
  have "CreatComm K n Dev Port s = Inr (if cli_open t' then Some (Client t') else None, s')"
    using assms t o(1) by (simp add: CreatComm_def wrap_def TcpClient_delete_def)
  then show ?thesis
    using c1 c2 o(2) by (intro exI [of _ "if cli_open t' then Some (Client t') else None"] exI [of _ s']
        exI [of _ "cs1 @ cs2"]) simp
qed

text \<open>
  \<open>CreatComm\<close> never faults: it answers NULL or an open object of the requested kind that satisfies
  its class invariant. When it answers NULL for a TCP device, the object it deleted had started its
  connect thread and nothing cancelled it: the thread goes on to use the freed object.
\<close>

theorem CreatComm_open_or_null:
  "\<exists>r s' cs. CreatComm K n Dev Port s = Inr (r, s') \<and> calls s' = calls s @ cs \<and>
     (case r of
        None \<Rightarrow> n \<noteq> 0 \<and> Port mod 2 ^ 16 \<noteq> 0 \<longrightarrow> Spawn_connect \<in> set cs \<and> Cancel_connect \<notin> set cs
      | Some c \<Rightarrow> comm_valid c \<and> comm_status c \<and> (is_serial c \<longleftrightarrow> n = 0))"
proof (cases "n = 0")
  case True
  obtain r s' cs where *: "CreatComm K n Dev Port s = Inr (r, s')" "calls s' = calls s @ cs"
    "\<forall>c. r = Some c \<longrightarrow> comm_valid c \<and> comm_status c \<and> is_serial c"
    using CreatComm_serial [of K Dev Port s] True by blast
  then show ?thesis
    using True by (intro exI [of _ r] exI [of _ s'] exI [of _ cs]) (simp split: option.split)
next
  case False
  obtain r s' cs where *: "CreatComm K n Dev Port s = Inr (r, s')" "calls s' = calls s @ cs"
    "\<forall>c. r = Some c \<longrightarrow> comm_valid c \<and> comm_status c \<and> \<not> is_serial c"
    "Port mod 2 ^ 16 \<noteq> 0 \<longrightarrow> Spawn_connect \<in> set cs" "Cancel_connect \<notin> set cs"
    using CreatComm_client [OF False, of K Dev Port s] by (elim exE conjE) (rule that)
  then show ?thesis
    using False by (intro exI [of _ r] exI [of _ s'] exI [of _ cs]) (simp split: option.split)
qed

theorem CreatComm_open_or_null_witness:
  "\<exists>s' cs. CreatComm (\<lambda>c w. ((-1, []), w)) 1 ''10.0.0.1'' 5000 \<lparr>world = (), calls = []\<rparr> = Inr (None, s') \<and>
     calls s' = cs \<and> Spawn_connect \<in> set cs \<and> Cancel_connect \<notin> set cs"
proof -
  let ?K = "\<lambda>c w. ((-1 :: int, [] :: byte list), w :: unit)"
  have "CreatComm ?K 1 ''10.0.0.1'' 5000 \<lparr>world = (), calls = []\<rparr> =
      Inr (None, \<lparr>world = (), calls = [Spawn_connect, Socket]\<rparr>)"
    by code_simp
  then show ?thesis
    using CreatComm_open_or_null [of ?K 1 "''10.0.0.1''" 5000 "\<lparr>world = (), calls = []\<rparr>"] by auto
qed

text \<open>
  When a send of the TCP client fails, the descriptor is closed exactly once, the client counts as
  closed, and whatever is sent afterwards asks nothing of the kernel and changes nothing, until a turn
  of the connect thread opens a new descriptor or leaves the client closed.
\<close>

theorem failed_send_closes_once:
  assumes "cli_open t" and "answer K (Send_sock (cli_fd t) buf) s < 0"
  shows "\<exists>t' s'. TcpClient_Send K buf t s = Inr (-1, t', s') \<and> \<not> cli_open t' \<and>
    calls s' = calls s @ [Send_sock (cli_fd t) buf, Close_fd (cli_fd t)] \<and>
    (\<forall>bufs. client.send_each K bufs (t', s') = Inr (t', s')) \<and>
    (\<exists>t'' s''. ConnectThread_round K t' s' = Inr (t'', s'') \<and> client_valid t'')"
proof -
  let ?t = "t\<lparr>cli_open := False\<rparr>"
  let ?s = "after K (Close_fd (cli_fd t)) (after K (Send_sock (cli_fd t) buf) s)"
  have "client.send_each K bufs (?t, ?s) = Inr (?t, ?s)" for bufs
    by (induction bufs) (simp_all add: client.send_each_def client.send_closed)
  moreover have "\<exists>t'' s''. ConnectThread_round K ?t ?s = Inr (t'', s'') \<and> client_valid t''"
    using client.open_law [of ?t K ?s] by (auto simp: ConnectThread_round_def client_valid_def)
  ultimately show ?thesis
    using assms by (simp add: TcpClient_Send_def client_disconnected_def case_prod_beta Let_def)
qed

theorem failed_send_closes_once_witness:
  "\<exists>t' s'. TcpClient_Send (\<lambda>c w. ((-1, []), w)) [1] \<lparr>cli_open = True, cli_fd = 5, cli_ip = [], cli_port = 80, ConnectLen = 0\<rparr>
     \<lparr>world = (), calls = []\<rparr> = Inr (-1, t', s') \<and> calls s' = [Send_sock 5 [1], Close_fd 5]"
proof -
  let ?t = "\<lparr>cli_open = True, cli_fd = 5, cli_ip = [], cli_port = 80, ConnectLen = 0\<rparr>"
  have "cli_open ?t" and "answer (\<lambda>c w. ((-1, []), w)) (Send_sock (cli_fd ?t) [1]) \<lparr>world = (), calls = []\<rparr> < 0"
    by (simp_all add: answer_def)
  from failed_send_closes_once [OF this] show ?thesis
    by auto
qed

lemma UdpClient_first_open: "UdpClient_Open K (UdpClient_new ip p) s = Inl Uninitialised"
  by (simp add: UdpClient_Open_def UdpClient_new_def)

lemma UdpClient_Close_keeps_socket:
  assumes "udp_fd t = Some f" and "0 \<le> f"
  shows "UdpClient_Close K t s = Inr (False, t, s)"
  using assms by (simp add: UdpClient_Close_def)

end
