(* ===== verification/IniText.thy ===== *)
theory IniText
  imports CString
begin

text \<open>
  The string helpers of the configuration reader (src/Get_Inifiles.cpp): \<open>trim\<close>, \<open>trimleft\<close>,
  \<open>trimright\<close>, \<open>split\<close>, \<open>StartWith\<close>, \<open>StringCmpIgnoreCase\<close>, and the lines that \<open>std::getline\<close>
  takes from a text. The program never sets a locale, so \<open>iswspace\<close> and \<open>toupper\<close> are those of the C
  locale, which only know the characters of ASCII.
\<close>

section \<open>The code\<close>

abbreviation newline :: char where
  "newline \<equiv> CHR 0x0A"

definition delim :: string where
  "delim = [newline]"

definition drop_right :: "(char \<Rightarrow> bool) \<Rightarrow> string \<Rightarrow> string" where
  "drop_right P s = rev (dropWhile P (rev s))"

definition trimleft :: "char \<Rightarrow> string \<Rightarrow> string" where
  "trimleft c s = dropWhile (\<lambda>x. x = c \<and> x \<noteq> CHR 0x00) s"

definition trimright :: "char \<Rightarrow> string \<Rightarrow> string" where
  "trimright c s = drop_right (\<lambda>x. x = c) s"

definition trim :: "string \<Rightarrow> string" where
  "trim s = drop_right is_space (dropWhile (\<lambda>x. is_space x \<and> x \<noteq> CHR 0x00) s)"

text \<open>\<open>std::string::find\<close>: the first position at which the separator stands.\<close>

fun find_sub :: "string \<Rightarrow> string \<Rightarrow> nat option" where
  "find_sub p [] = (if p = [] then Some 0 else None)"
| "find_sub p (c # s) =
     (if take (length p) (c # s) = p then Some 0 else map_option Suc (find_sub p s))"

text \<open>
  \<open>split\<close> gives its answer, the left part and the right part. Whatever the length of the separator,
  the right part starts one character after the position of its first character; the constructor
  of the right part throws \<open>out_of_range\<close> when that is past the end.
\<close>

definition split :: "string \<Rightarrow> string \<Rightarrow> (bool \<times> string \<times> string) res" where
  "split str sep =
     (case find_sub sep str of
        Some pos \<Rightarrow>
          bindE (substr 0 (Some pos) str) (\<lambda>left.
          bindE (substr (pos + 1) None str) (\<lambda>right.
          Inr (True, trim left, trim right)))
      | None \<Rightarrow> Inr (False, trim str, []))"

definition parse :: "string \<Rightarrow> (bool \<times> string \<times> string) res" where
  "parse content = split content ''=''"

text \<open>\<open>strncmp\<close> on the characters of two strings, which end where the string ends or at a zero.\<close>

definition char_at :: "string \<Rightarrow> char" where
  "char_at s = (case s of [] \<Rightarrow> CHR 0x00 | c # _ \<Rightarrow> c)"

fun strncmp_eq :: "nat \<Rightarrow> string \<Rightarrow> string \<Rightarrow> bool" where
  "strncmp_eq 0 a b = True"
| "strncmp_eq (Suc n) a b =
     (char_at a = char_at b \<and> (char_at a = CHR 0x00 \<or> strncmp_eq n (tl a) (tl b)))"

definition StartWith :: "string \<Rightarrow> string \<Rightarrow> bool" where
  "StartWith str prefix = strncmp_eq (length prefix) str prefix"

definition toupper :: "char \<Rightarrow> char" where
  "toupper c = (if 97 \<le> (of_char c :: nat) \<and> of_char c \<le> (122 :: nat) then char_of (of_char c - 32 :: nat) else c)"

definition StringCmpIgnoreCase :: "string \<Rightarrow> string \<Rightarrow> bool" where
  "StringCmpIgnoreCase str1 str2 \<longleftrightarrow> map toupper str1 = map toupper str2"

text \<open>A text as the loop over \<open>std::getline\<close> sees it: the last newline ends a line, it does not start one.\<close>

fun getlines :: "string \<Rightarrow> string list" where
  "getlines [] = []"
| "getlines (c # s) =
     (if c = newline then [] # getlines s
      else case getlines s of [] \<Rightarrow> [[c]] | l # ls \<Rightarrow> (c # l) # ls)"

definition unlines :: "string list \<Rightarrow> string" where
  "unlines ls = concat (map (\<lambda>l. l @ delim) ls)"

section \<open>Trimming\<close>

definition trimmed :: "string \<Rightarrow> bool" where
  "trimmed s \<longleftrightarrow> s = [] \<or> \<not> is_space (hd s) \<and> \<not> is_space (last s)"

lemma not_space_zero [simp]: "\<not> is_space (CHR 0x00)"
  by (simp add: is_space_def)

lemma trim_alt: "trim s = drop_right is_space (dropWhile is_space s)"
proof -
  have "(\<lambda>x. is_space x \<and> x \<noteq> CHR 0x00) = is_space"
    by (auto simp: fun_eq_iff)
  then show ?thesis
    by (simp add: trim_def)
qed

lemma drop_right_Nil [simp]: "drop_right P [] = []"
  by (simp add: drop_right_def)

lemma drop_right_id: "s = [] \<or> \<not> P (last s) \<Longrightarrow> drop_right P s = s"
  by (cases s rule: rev_cases) (auto simp: drop_right_def)

lemma drop_right_snoc [simp]: "drop_right P (s @ [c]) = (if P c then drop_right P s else s @ [c])"
  by (simp add: drop_right_def)

lemma drop_right_prefix: "\<exists>t. s = drop_right P s @ t \<and> (\<forall>c\<in>set t. P c)"
proof (induction s rule: rev_induct)
  case (snoc c s)
  then obtain t where t: "s = drop_right P s @ t" "\<forall>c\<in>set t. P c" by blast
  show ?case
  proof (cases "P c")
    case True
    then have "s @ [c] = drop_right P (s @ [c]) @ (t @ [c])"
      using t(1) by simp
    then show ?thesis
      using t(2) True by (metis Un_iff empty_iff empty_set set_ConsD set_append)
  qed simp
qed simp

lemma drop_right_last: "drop_right P s \<noteq> [] \<Longrightarrow> \<not> P (last (drop_right P s))"
  by (induction s rule: rev_induct) auto

lemma set_drop_right: "set (drop_right P s) \<subseteq> set s"
  by (metis drop_right_prefix set_append sup_ge1)

lemma trim_trimmed [simp]: "trimmed s \<Longrightarrow> trim s = s"
  by (cases s) (auto simp: trim_alt trimmed_def drop_right_id)

lemma trimmed_trim [simp]: "trimmed (trim s)"
proof (cases "trim s = []")
  case False
  define u where "u = dropWhile is_space s"
  have t: "trim s = drop_right is_space u"
    by (simp add: trim_alt u_def)
  then obtain v where v: "u = trim s @ v"
    using drop_right_prefix by metis
  then have "hd (trim s) = hd u" and "u \<noteq> []"
    using False by auto
  then have "\<not> is_space (hd (trim s))"
    using hd_dropWhile by (metis u_def)
  moreover have "\<not> is_space (last (trim s))"
    using False t drop_right_last by metis
  ultimately show ?thesis
    by (simp add: trimmed_def)
qed (simp add: trimmed_def)

lemma set_trim: "set (trim s) \<subseteq> set s"
  using set_drop_right set_dropWhileD unfolding trim_alt by fastforce

lemma trimmed_Nil [simp]: "trimmed []"
  by (simp add: trimmed_def)

lemma trim_space_left [simp]: "is_space c \<Longrightarrow> trim (c # s) = trim s"
  by (simp add: trim_alt)

lemma trim_space_right [simp]: "is_space c \<Longrightarrow> trimmed s \<Longrightarrow> trim (s @ [c]) = s"
proof -
  assume c: "is_space c" and s: "trimmed s"
  show "trim (s @ [c]) = s"
  proof (cases s)
    case Nil
    then show ?thesis using c by (simp add: trim_alt)
  next
    case (Cons a u)
    then have "dropWhile is_space (s @ [c]) = s @ [c]"
      using s by (simp add: trimmed_def)
    moreover have "drop_right is_space s = s"
      using s by (intro drop_right_id) (auto simp: trimmed_def)
    ultimately show ?thesis
      using c by (simp add: trim_alt)
  qed
qed

text \<open>\<open>trimleft\<close> and \<open>trimright\<close> remove only their character, \<open>trim\<close> every kind of white space.\<close>

lemma trimleft_replicate: "c \<noteq> CHR 0x00 \<Longrightarrow> s = [] \<or> hd s \<noteq> c \<Longrightarrow> trimleft c (replicate n c @ s) = s"
  by (induction n) (cases s; simp add: trimleft_def)+

lemma trimright_replicate: "s = [] \<or> last s \<noteq> c \<Longrightarrow> trimright c (s @ replicate n c) = s"
  by (induction n) (auto simp: trimright_def drop_right_id replicate_append_same [symmetric]
      simp flip: append_assoc)

section \<open>Searching and splitting\<close>

lemma find_sub_char: "find_sub [c] s = find_first_of (\<lambda>x. x = c) s"
  by (induction s) auto

lemma take_find_first_of: "find_first_of P s = Some i \<Longrightarrow> take i s = takeWhile (\<lambda>x. \<not> P x) s"
  by (induction s arbitrary: i) (auto split: if_splits)

lemma drop_find_first_of:
  "find_first_of P s = Some i \<Longrightarrow> drop (Suc i) s = tl (dropWhile (\<lambda>x. \<not> P x) s)"
  by (induction s arbitrary: i) (auto split: if_splits)

text \<open>A separator of one character never throws and splits at its first occurrence.\<close>

lemma split_char: "split s [c] = Inr
    (if c \<in> set s then (True, trim (takeWhile (\<lambda>x. x \<noteq> c) s), trim (tl (dropWhile (\<lambda>x. x \<noteq> c) s)))
     else (False, trim s, []))"
proof (cases "find_first_of (\<lambda>x. x = c) s")
  case None
  then have "c \<notin> set s" by auto
  with None show ?thesis
    unfolding split_def find_sub_char None by simp
next
  case (Some i)
  then have "i < length s" and "c \<in> set s"
    by (auto simp: find_first_of_Some)
  then show ?thesis
    using Some by (simp add: split_def find_sub_char take_find_first_of drop_find_first_of)
qed

lemma split_at: "c \<notin> set a \<Longrightarrow> split (a @ c # b) [c] = Inr (True, trim a, trim b)"
  by (simp add: split_char takeWhile_append dropWhile_append)

lemma StartWith_char: "c \<noteq> CHR 0x00 \<Longrightarrow> StartWith s [c] \<longleftrightarrow> s \<noteq> [] \<and> hd s = c"
  by (cases s) (auto simp: StartWith_def char_at_def)

section \<open>Lines\<close>

lemma getlines_append: "newline \<notin> set l \<Longrightarrow> getlines (l @ delim @ t) = l # getlines t"
  by (induction l) (auto simp: delim_def)

lemma getlines_unlines: "\<forall>l\<in>set ls. newline \<notin> set l \<Longrightarrow> getlines (unlines ls @ t) = ls @ getlines t"
  by (induction ls) (auto simp: unlines_def getlines_append)

lemma unlines_simps [simp]:
  "unlines [] = []"
  "unlines (l # ls) = l @ newline # unlines ls"
  by (simp_all add: unlines_def delim_def)

lemma unlines_append: "unlines (as @ bs) = unlines as @ unlines bs"
  by (simp add: unlines_def)

lemma last_unlines: "ls \<noteq> [] \<Longrightarrow> unlines ls \<noteq> [] \<and> last (unlines ls) = newline"
  by (induction ls rule: rev_induct) (simp_all add: unlines_append)

lemma getlines_no_newline: "l \<in> set (getlines s) \<Longrightarrow> newline \<notin> set l"
  by (induction s arbitrary: l rule: getlines.induct) (auto split: list.splits if_splits)

end
