(* ===== verification/IniFile.thy ===== *)
theory IniFile
  imports IniText
begin

text \<open>
  The configuration file (class \<open>IniFile\<close>, src/Get_Inifiles.cpp): reading it into sections of items,
  looking settings up, changing them, and writing the file back.

  A pointer to a section is its position in \<open>sections_vt\<close>; \<open>NULL\<close> is \<open>None\<close>. The file system is a map
  from paths to texts; which paths can be written is a parameter. \<open>GetDoubleValue\<close> and \<open>SetDoubleValue\<close>,
  which nothing calls, are left out.
\<close>

section \<open>The code: data and look-up\<close>

record ini_item =
  key :: string
  "value" :: string
  comment :: string
  rightComment :: string

record ini_section =
  name :: string
  section_comment :: string
  section_rightComment :: string
  items :: "ini_item list"

record inifile =
  iniFilePath :: string
  commentDelimiter :: string
  sections_vt :: "ini_section list"

type_synonym files = "string \<Rightarrow> string option"

definition RET_OK :: int where "RET_OK = 0"
definition ERR_UNMATCHED_BRACKETS :: int where "ERR_UNMATCHED_BRACKETS = 2"
definition ERR_SECTION_EMPTY :: int where "ERR_SECTION_EMPTY = 3"
definition ERR_SECTION_ALREADY_EXISTS :: int where "ERR_SECTION_ALREADY_EXISTS = 4"
definition ERR_PARSE_KEY_VALUE_FAILED :: int where "ERR_PARSE_KEY_VALUE_FAILED = 5"
definition ERR_OPEN_FILE_FAILED :: int where "ERR_OPEN_FILE_FAILED = 6"
definition ERR_NOT_FOUND_KEY :: int where "ERR_NOT_FOUND_KEY = 8"
definition ERR_NOT_FOUND_SECTION :: int where "ERR_NOT_FOUND_SECTION = 9"

lemmas ini_codes = RET_OK_def ERR_UNMATCHED_BRACKETS_def ERR_SECTION_EMPTY_def
  ERR_SECTION_ALREADY_EXISTS_def ERR_PARSE_KEY_VALUE_FAILED_def ERR_OPEN_FILE_FAILED_def
  ERR_NOT_FOUND_KEY_def ERR_NOT_FOUND_SECTION_def

definition IniFile_new :: inifile where
  "IniFile_new = \<lparr>iniFilePath = [], commentDelimiter = ''#'', sections_vt = []\<rparr>"

definition getInstance :: "inifile option \<Rightarrow> inifile" where
  "getInstance m_Instance = (case m_Instance of None \<Rightarrow> IniFile_new | Some f \<Rightarrow> f)"

definition release :: "inifile \<Rightarrow> inifile" where
  "release f = f\<lparr>iniFilePath := [], sections_vt := []\<rparr>"

definition getSection :: "inifile \<Rightarrow> string \<Rightarrow> nat option" where
  "getSection f s = find_first_of (\<lambda>sect. name sect = s) (sections_vt f)"

text \<open>The loop over the items of a section up to the first one with the key.\<close>

definition find_item :: "string \<Rightarrow> ini_section \<Rightarrow> nat option" where
  "find_item k sect = find_first_of (\<lambda>it. key it = k) (items sect)"

definition upd_section :: "nat \<Rightarrow> (ini_section \<Rightarrow> ini_section) \<Rightarrow> inifile \<Rightarrow> inifile" where
  "upd_section i g f = f\<lparr>sections_vt := (sections_vt f)[i := g (sections_vt f ! i)]\<rparr>"

definition upd_item :: "nat \<Rightarrow> (ini_item \<Rightarrow> ini_item) \<Rightarrow> ini_section \<Rightarrow> ini_section" where
  "upd_item j g sect = sect\<lparr>items := (items sect)[j := g (items sect ! j)]\<rparr>"

definition remove_at :: "nat \<Rightarrow> 'a list \<Rightarrow> 'a list" where
  "remove_at i xs = take i xs @ drop (Suc i) xs"

text \<open>The answer is an error code, or the item found: its value and its comment.\<close>

definition getValue :: "inifile \<Rightarrow> string \<Rightarrow> string \<Rightarrow> int + (string \<times> string)" where
  "getValue f s k =
     (case getSection f s of
        None \<Rightarrow> Inl ERR_NOT_FOUND_SECTION
      | Some i \<Rightarrow> let sect = sections_vt f ! i in
          (case find_item k sect of
             None \<Rightarrow> Inl ERR_NOT_FOUND_KEY
           | Some j \<Rightarrow> Inr (value (items sect ! j), comment (items sect ! j))))"

definition GetStringValue :: "inifile \<Rightarrow> string \<Rightarrow> string \<Rightarrow> string \<Rightarrow> string" where
  "GetStringValue f s k defaultValue = (case getValue f s k of Inl _ \<Rightarrow> defaultValue | Inr (v, _) \<Rightarrow> v)"

definition GetIntValue :: "inifile \<Rightarrow> string \<Rightarrow> string \<Rightarrow> int \<Rightarrow> int" where
  "GetIntValue f s k defaultValue = (case getValue f s k of Inl _ \<Rightarrow> defaultValue | Inr (v, _) \<Rightarrow> atoi v)"

definition GetBoolValue :: "inifile \<Rightarrow> string \<Rightarrow> string \<Rightarrow> bool \<Rightarrow> bool" where
  "GetBoolValue f s k defaultValue =
     (case getValue f s k of
        Inl _ \<Rightarrow> defaultValue
      | Inr (v, _) \<Rightarrow>
          if StringCmpIgnoreCase v ''true'' \<or> StringCmpIgnoreCase v ''1'' then True
          else if StringCmpIgnoreCase v ''false'' \<or> StringCmpIgnoreCase v ''0'' then False
          else defaultValue)"

definition GetValues :: "inifile \<Rightarrow> string \<Rightarrow> string \<Rightarrow> int \<times> string list \<times> string list" where
  "GetValues f s k =
     (case getSection f s of
        None \<Rightarrow> (ERR_NOT_FOUND_SECTION, [], [])
      | Some i \<Rightarrow>
          let found = filter (\<lambda>it. key it = k) (items (sections_vt f ! i)) in
          (if found = [] then ERR_NOT_FOUND_KEY else RET_OK, map value found, map comment found))"

text \<open>The overloads without the comments.\<close>

definition getValue_only :: "inifile \<Rightarrow> string \<Rightarrow> string \<Rightarrow> int + string" where
  "getValue_only f s k = (case getValue f s k of Inl e \<Rightarrow> Inl e | Inr (v, _) \<Rightarrow> Inr v)"

definition GetValues_only :: "inifile \<Rightarrow> string \<Rightarrow> string \<Rightarrow> int \<times> string list" where
  "GetValues_only f s k = (case GetValues f s k of (r, values, _) \<Rightarrow> (r, values))"

text \<open>The two comment getters: an empty key asks for the comment of the section.\<close>

definition GetComment :: "inifile \<Rightarrow> string \<Rightarrow> string \<Rightarrow> int + string" where
  "GetComment f s k =
     (case getSection f s of
        None \<Rightarrow> Inl ERR_NOT_FOUND_SECTION
      | Some i \<Rightarrow> let sect = sections_vt f ! i in
          if k = [] then Inr (section_comment sect)
          else (case find_item k sect of
                  None \<Rightarrow> Inl ERR_NOT_FOUND_KEY
                | Some j \<Rightarrow> Inr (comment (items sect ! j))))"

definition GetRightComment :: "inifile \<Rightarrow> string \<Rightarrow> string \<Rightarrow> int + string" where
  "GetRightComment f s k =
     (case getSection f s of
        None \<Rightarrow> Inl ERR_NOT_FOUND_SECTION
      | Some i \<Rightarrow> let sect = sections_vt f ! i in
          if k = [] then Inr (section_rightComment sect)
          else (case find_item k sect of
                  None \<Rightarrow> Inl ERR_NOT_FOUND_KEY
                | Some j \<Rightarrow> Inr (rightComment (items sect ! j))))"

definition HasSection :: "inifile \<Rightarrow> string \<Rightarrow> bool" where
  "HasSection f s \<longleftrightarrow> getSection f s \<noteq> None"

definition HasKey :: "inifile \<Rightarrow> string \<Rightarrow> string \<Rightarrow> bool" where
  "HasKey f s k = (case getSection f s of None \<Rightarrow> False | Some i \<Rightarrow> find_item k (sections_vt f ! i) \<noteq> None)"

definition GetSections :: "inifile \<Rightarrow> string list \<Rightarrow> int \<times> string list" where
  "GetSections f sections =
     (let r = sections @ map name (sections_vt f) in (int (length r), r))"

definition GetSectionNum :: "inifile \<Rightarrow> int" where
  "GetSectionNum f = int (length (sections_vt f))"

section \<open>The code: changing the settings\<close>

definition set_item :: "string \<Rightarrow> string \<Rightarrow> string \<Rightarrow> ini_section \<Rightarrow> ini_section" where
  "set_item k v comt sect =
     (case find_item k sect of
        Some j \<Rightarrow> upd_item j (\<lambda>it. it\<lparr>value := v, comment := comt\<rparr>) sect
      | None \<Rightarrow> sect\<lparr>items := items sect @ [\<lparr>key = k, value = v, comment = comt, rightComment = []\<rparr>]\<rparr>)"

definition find_or_add_section :: "string \<Rightarrow> inifile \<Rightarrow> nat \<times> inifile" where
  "find_or_add_section s f =
     (case getSection f s of
        Some i \<Rightarrow> (i, f)
      | None \<Rightarrow>
          let sect = \<lparr>name = s, section_comment = [], section_rightComment = [], items = []\<rparr> in
          if s = [] then (0, f\<lparr>sections_vt := sect # sections_vt f\<rparr>)
          else (length (sections_vt f), f\<lparr>sections_vt := sections_vt f @ [sect]\<rparr>))"

definition setValue :: "string \<Rightarrow> string \<Rightarrow> string \<Rightarrow> string \<Rightarrow> inifile \<Rightarrow> int \<times> inifile" where
  "setValue s k v cmt f =
     (let comt = (if cmt \<noteq> [] then commentDelimiter f @ cmt else cmt);
          (i, f) = find_or_add_section s f
      in (RET_OK, upd_section i (set_item k v comt) f))"

definition SetStringValue :: "string \<Rightarrow> string \<Rightarrow> string \<Rightarrow> inifile \<Rightarrow> int \<times> inifile" where
  "SetStringValue s k v f = setValue s k v [] f"

definition SetIntValue :: "string \<Rightarrow> string \<Rightarrow> int \<Rightarrow> inifile \<Rightarrow> int \<times> inifile" where
  "SetIntValue s k v f = setValue s k (to_string v) [] f"

definition SetBoolValue :: "string \<Rightarrow> string \<Rightarrow> bool \<Rightarrow> inifile \<Rightarrow> int \<times> inifile" where
  "SetBoolValue s k v f = (if v then setValue s k ''true'' [] f else setValue s k ''false'' [] f)"

definition SetComment :: "string \<Rightarrow> string \<Rightarrow> string \<Rightarrow> inifile \<Rightarrow> int \<times> inifile" where
  "SetComment s k cmt f =
     (case getSection f s of
        None \<Rightarrow> (ERR_NOT_FOUND_SECTION, f)
      | Some i \<Rightarrow>
          if k = [] then (RET_OK, upd_section i (\<lambda>sect. sect\<lparr>section_comment := cmt\<rparr>) f)
          else (case find_item k (sections_vt f ! i) of
                  None \<Rightarrow> (ERR_NOT_FOUND_KEY, f)
                | Some j \<Rightarrow> (RET_OK, upd_section i (upd_item j (\<lambda>it. it\<lparr>comment := cmt\<rparr>)) f)))"

definition SetRightComment :: "string \<Rightarrow> string \<Rightarrow> string \<Rightarrow> inifile \<Rightarrow> int \<times> inifile" where
  "SetRightComment s k cmt f =
     (case getSection f s of
        None \<Rightarrow> (ERR_NOT_FOUND_SECTION, f)
      | Some i \<Rightarrow>
          if k = [] then (RET_OK, upd_section i (\<lambda>sect. sect\<lparr>section_rightComment := cmt\<rparr>) f)
          else (case find_item k (sections_vt f ! i) of
                  None \<Rightarrow> (ERR_NOT_FOUND_KEY, f)
                | Some j \<Rightarrow> (RET_OK, upd_section i (upd_item j (\<lambda>it. it\<lparr>rightComment := cmt\<rparr>)) f)))"

definition SetCommentDelimiter :: "string \<Rightarrow> inifile \<Rightarrow> inifile" where
  "SetCommentDelimiter delimiter f = f\<lparr>commentDelimiter := delimiter\<rparr>"

definition DeleteSection :: "string \<Rightarrow> inifile \<Rightarrow> inifile" where
  "DeleteSection s f =
     (case getSection f s of None \<Rightarrow> f | Some i \<Rightarrow> f\<lparr>sections_vt := remove_at i (sections_vt f)\<rparr>)"

definition DeleteKey :: "string \<Rightarrow> string \<Rightarrow> inifile \<Rightarrow> inifile" where
  "DeleteKey s k f =
     (case getSection f s of
        None \<Rightarrow> f
      | Some i \<Rightarrow>
          (case find_item k (sections_vt f ! i) of
             None \<Rightarrow> f
           | Some j \<Rightarrow> upd_section i (\<lambda>sect. sect\<lparr>items := remove_at j (items sect)\<rparr>) f))"

section \<open>The code: reading and writing the file\<close>

definition IsCommentLine :: "inifile \<Rightarrow> string \<Rightarrow> bool" where
  "IsCommentLine f line = StartWith line (commentDelimiter f)"

text \<open>
  \<open>UpdateSection\<close> starts a section; it answers its code, the current section and the new state. What
  follows the closing bracket on the line is ignored.
\<close>

definition UpdateSection ::
  "string \<Rightarrow> string \<Rightarrow> string \<Rightarrow> nat \<Rightarrow> inifile \<Rightarrow> (int \<times> nat \<times> inifile) res" where
  "UpdateSection cleanLine cmt rcmt cur f =
     (case find_first_of (\<lambda>c. c = CHR '']'') cleanLine of
        None \<Rightarrow> Inr (ERR_UNMATCHED_BRACKETS, cur, f)
      | Some index \<Rightarrow>
          if index \<le> 1 then Inr (ERR_SECTION_EMPTY, cur, f)
          else bindE (substr 1 (Some (index - 1)) cleanLine) (\<lambda>s.
               let s = trim s in
               if getSection f s \<noteq> None then Inr (ERR_SECTION_ALREADY_EXISTS, cur, f)
               else Inr (RET_OK, length (sections_vt f), f\<lparr>sections_vt := sections_vt f @
                      [\<lparr>name = s, section_comment = cmt, section_rightComment = rcmt, items = []\<rparr>]\<rparr>)))"

definition AddKeyValuePair ::
  "string \<Rightarrow> string \<Rightarrow> string \<Rightarrow> nat \<Rightarrow> inifile \<Rightarrow> (int \<times> inifile) res" where
  "AddKeyValuePair cleanLine cmt rcmt cur f =
     bindE (parse cleanLine) (\<lambda>(ok, k, v).
     if \<not> ok then Inr (ERR_PARSE_KEY_VALUE_FAILED, f)
     else Inr (RET_OK, upd_section cur (\<lambda>sect. sect\<lparr>items := items sect @
            [\<lparr>key = k, value = v, comment = cmt, rightComment = rcmt\<rparr>]\<rparr>) f))"

definition load_statement ::
  "string \<Rightarrow> string \<Rightarrow> string \<Rightarrow> nat \<Rightarrow> inifile \<Rightarrow> (int \<times> nat \<times> inifile) res" where
  "load_statement cleanLine cmt rcmt cur f =
     (if char_at cleanLine = CHR ''['' then UpdateSection cleanLine cmt rcmt cur f
      else bindE (AddKeyValuePair cleanLine cmt rcmt cur f) (\<lambda>(err, f). Inr (err, cur, f)))"

primrec load_lines :: "string list \<Rightarrow> nat \<Rightarrow> string \<Rightarrow> inifile \<Rightarrow> (int \<times> inifile) res" where
  "load_lines [] cur cmt f = Inr (RET_OK, f)"
| "load_lines (l # ls) cur cmt f =
     (let line = trim l in
      if line = [] then load_lines ls cur (cmt @ delim) f
      else if IsCommentLine f line then load_lines ls cur (cmt @ line @ delim) f
      else bindE (split line (commentDelimiter f)) (\<lambda>(_, cleanLine, rcmt).
           bindE (load_statement cleanLine cmt rcmt cur f) (\<lambda>(err, cur, f).
           if err \<noteq> 0 then Inr (err, f) else load_lines ls cur [] f)))"

definition Load :: "files \<Rightarrow> string \<Rightarrow> inifile \<Rightarrow> (int \<times> inifile) res" where
  "Load fs filePath f =
     (let f = (release f)\<lparr>iniFilePath := filePath\<rparr> in
      case fs filePath of
        None \<Rightarrow> Inr (ERR_OPEN_FILE_FAILED, f)
      | Some content \<Rightarrow>
          load_lines (getlines content) 0 [] (f\<lparr>sections_vt := sections_vt f @
            [\<lparr>name = [], section_comment = [], section_rightComment = [], items = []\<rparr>]\<rparr>))"

text \<open>Writing: \<open>data\<close> grows section by section and item by item.\<close>

definition end_line :: "string \<Rightarrow> string" where
  "end_line data = (if last data \<noteq> newline then data @ delim else data)"

definition save_item :: "string \<Rightarrow> ini_item \<Rightarrow> string \<Rightarrow> string" where
  "save_item cd it data =
     (let data = (if comment it \<noteq> [] then end_line (data @ comment it) else data);
          data = data @ key it @ ''='' @ value it;
          data = (if rightComment it \<noteq> [] then data @ '' '' @ cd @ rightComment it else data)
      in end_line data)"

definition save_section :: "string \<Rightarrow> ini_section \<Rightarrow> string \<Rightarrow> string" where
  "save_section cd sect data =
     (let data = (if section_comment sect \<noteq> [] then data @ section_comment sect else data);
          data = (if name sect \<noteq> [] then data @ ''['' @ name sect @ '']'' @ delim else data);
          data = (if section_rightComment sect \<noteq> [] then data @ '' '' @ cd @ section_rightComment sect else data)
      in fold (save_item cd) (items sect) data)"

definition save_text :: "inifile \<Rightarrow> string" where
  "save_text f = fold (save_section (commentDelimiter f)) (sections_vt f) []"

definition SaveAs :: "(string \<Rightarrow> bool) \<Rightarrow> string \<Rightarrow> inifile \<Rightarrow> files \<Rightarrow> bool \<times> files" where
  "SaveAs writable filePath f fs =
     (if \<not> writable filePath then (False, fs) else (True, fs(filePath := Some (save_text f))))"

definition Save :: "(string \<Rightarrow> bool) \<Rightarrow> inifile \<Rightarrow> files \<Rightarrow> bool \<times> files" where
  "Save writable f fs = SaveAs writable (iniFilePath f) f fs"

text \<open>\<open>PrintIniFile\<close> skips the section of the items without a section; with no section it runs past the end.\<close>

definition PrintIniFile :: "inifile \<Rightarrow> string res" where
  "PrintIniFile f =
     (if sections_vt f = [] then Inl OutOfBounds
      else Inr (''############ ['' @ iniFilePath f @ ''] ############'' @ delim @
        concat (map (\<lambda>sect. section_comment sect @ ''['' @ name sect @ '']'' @ delim @
          concat (map (\<lambda>it. comment it @ key it @ ''='' @ value it @ delim) (items sect)))
        (tl (sections_vt f))) @
        ''################ end ################'' @ delim))"

end
