(* ===== verification/Settings.thy ===== *)
theory Settings
  imports IniFile
begin

text \<open>
  What the configuration object (theory \<open>IniFile\<close>) promises to its callers: it is a multimap from
  section and key to the list of values in file order. The getters read the first value, a setter
  replaces the first value or adds one, \<open>DeleteKey\<close> removes the first one. The locale \<open>settings\<close>
  states this contract and what follows from it for sequences of changes; it is interpreted on the
  operations of the class.
\<close>

section \<open>The contract\<close>

locale settings =
  fixes get :: "'st \<Rightarrow> 'k \<Rightarrow> 'v list"
    and put :: "'k \<Rightarrow> 'v \<Rightarrow> 'st \<Rightarrow> 'st"
    and del :: "'k \<Rightarrow> 'st \<Rightarrow> 'st"
  assumes get_put: "get (put k v st) k' = (if k' = k then v # tl (get st k) else get st k')"
    and get_del: "get (del k st) k' = (if k' = k then tl (get st k) else get st k')"
begin

lemma get_fold_put:
  "get (fold (\<lambda>(k, v). put k v) kvs st) k =
     (case map_of (rev kvs) k of None \<Rightarrow> get st k | Some v \<Rightarrow> v # tl (get st k))"
proof (induction kvs rule: rev_induct)
  case (snoc kv kvs)
  then show ?case
    by (cases kv) (auto simp: get_put split: option.splits)
qed simp

lemma get_del_times: "get ((del k ^^ n) st) k = drop n (get st k)"
  by (induction n) (simp_all add: get_del drop_Suc tl_drop)

lemma get_put_swap: "k \<noteq> k' \<Longrightarrow> get (put k v (put k' v' st)) = get (put k' v' (put k v st))"
  by (rule ext) (simp add: get_put)

lemma get_del_put: "get (del k (put k v st)) k = tl (get st k)"
  by (simp add: get_put get_del)

end

section \<open>Finding, replacing and removing in a list\<close>

lemma find_conv: "List.find P xs = map_option (\<lambda>i. xs ! i) (find_first_of P xs)"
  by (induction xs) (simp_all add: option.map_comp comp_def)

lemma find_first_of_filter: "find_first_of P xs = None \<longleftrightarrow> filter P xs = []"
  by (auto simp: filter_empty_conv)

lemma filter_first: "find_first_of P xs = Some i \<Longrightarrow> filter P xs \<noteq> [] \<and> hd (filter P xs) = xs ! i"
  by (induction xs arbitrary: i) (auto split: if_splits)

lemma filter_update_first:
  "find_first_of P xs = Some i \<Longrightarrow> P y \<Longrightarrow> filter P (xs[i := y]) = y # tl (filter P xs)"
  by (induction xs arbitrary: i) (auto split: if_splits)

lemma filter_update_other:
  "\<not> Q (xs ! i) \<Longrightarrow> \<not> Q y \<Longrightarrow> i < length xs \<Longrightarrow> filter Q (xs[i := y]) = filter Q xs"
  by (induction xs arbitrary: i) (auto simp: nth_Cons' split: nat.splits)

lemma filter_remove_first: "find_first_of P xs = Some i \<Longrightarrow> filter P (remove_at i xs) = tl (filter P xs)"
  by (induction xs arbitrary: i) (auto simp: remove_at_def split: if_splits)

lemma filter_remove_other: "i < length xs \<Longrightarrow> \<not> Q (xs ! i) \<Longrightarrow> filter Q (remove_at i xs) = filter Q xs"
  by (subst (2) id_take_nth_drop [of i]) (simp_all add: remove_at_def)

lemma find_update_first: "find_first_of P xs = Some i \<Longrightarrow> P y \<Longrightarrow> List.find P (xs[i := y]) = Some y"
  by (induction xs arbitrary: i) (auto split: if_splits)

lemma find_update_other:
  "i < length xs \<Longrightarrow> \<not> Q (xs ! i) \<Longrightarrow> \<not> Q y \<Longrightarrow> List.find Q (xs[i := y]) = List.find Q xs"
  by (induction xs arbitrary: i) (auto simp: nth_Cons' split: nat.splits)

lemma find_snoc: "List.find P (xs @ [y]) = (case List.find P xs of None \<Rightarrow> if P y then Some y else None | Some x \<Rightarrow> Some x)"
  by (induction xs) auto

section \<open>Sections\<close>

definition the_section :: "inifile \<Rightarrow> string \<Rightarrow> ini_section option" where
  "the_section f s = List.find (\<lambda>sect. name sect = s) (sections_vt f)"

definition section_items :: "inifile \<Rightarrow> string \<Rightarrow> ini_item list" where
  "section_items f s = (case the_section f s of None \<Rightarrow> [] | Some sect \<Rightarrow> items sect)"

lemma getSection_None: "getSection f s = None \<Longrightarrow> the_section f s = None"
  unfolding the_section_def getSection_def find_conv by simp

lemma getSection_Some:
  assumes "getSection f s = Some i"
  shows "i < length (sections_vt f)" and "name (sections_vt f ! i) = s"
    and "the_section f s = Some (sections_vt f ! i)"
proof -
  show "i < length (sections_vt f)" and "name (sections_vt f ! i) = s"
    using assms by (simp_all add: getSection_def find_first_of_Some)
  show "the_section f s = Some (sections_vt f ! i)"
    using assms unfolding the_section_def getSection_def find_conv by simp
qed

lemma the_section_upd:
  assumes "getSection f s = Some i" and "name (g (sections_vt f ! i)) = s"
  shows "the_section (upd_section i g f) s' =
    (if s' = s then Some (g (sections_vt f ! i)) else the_section f s')"
  using assms getSection_Some [OF assms(1)]
  by (simp add: the_section_def upd_section_def getSection_def find_update_first find_update_other)

lemma find_or_add_section_spec:
  assumes "find_or_add_section s f = (i, f')"
  shows "getSection f' s = Some i"
    and "the_section f' s' = (if s' = s \<and> the_section f s = None
      then Some \<lparr>name = s, section_comment = [], section_rightComment = [], items = []\<rparr> else the_section f s')"
proof -
  have "getSection f' s = Some i \<and> the_section f' s' = (if s' = s \<and> the_section f s = None
      then Some \<lparr>name = s, section_comment = [], section_rightComment = [], items = []\<rparr> else the_section f s')"
  proof (cases "getSection f s")
    case None
    then have a: "\<forall>sect\<in>set (sections_vt f). name sect \<noteq> s"
      by (simp add: getSection_def)
    show ?thesis
    proof (cases "s = []")
      case True
      then have "i = 0" and "sections_vt f' = \<lparr>name = [], section_comment = [], section_rightComment = [], items = []\<rparr> # sections_vt f"
        using assms None by (auto simp: find_or_add_section_def Let_def)
      then show ?thesis
        using True getSection_None [OF None] by (simp add: getSection_def the_section_def)
    next
      case False
      then have "i = length (sections_vt f)" and "sections_vt f' = sections_vt f @
          [\<lparr>name = s, section_comment = [], section_rightComment = [], items = []\<rparr>]"
        using assms None by (auto simp: find_or_add_section_def Let_def)
      then show ?thesis
        using a getSection_None [OF None]
        by (simp add: getSection_def the_section_def find_first_of_append find_snoc split: option.splits)
    qed
  next
    case (Some i')
    then show ?thesis
      using assms getSection_Some [OF Some] by (auto simp: find_or_add_section_def)
  qed
  then show "getSection f' s = Some i"
    and "the_section f' s' = (if s' = s \<and> the_section f s = None
      then Some \<lparr>name = s, section_comment = [], section_rightComment = [], items = []\<rparr> else the_section f s')"
    by simp_all
qed

lemma name_set_item [simp]: "name (set_item k v c sect) = name sect"
  by (simp add: set_item_def upd_item_def split: option.splits)

lemma the_section_setValue: "the_section (snd (setValue s k v c f)) s' =
    (if s' = s then Some (set_item k v (if c \<noteq> [] then commentDelimiter f @ c else c)
       (case the_section f s of Some sect \<Rightarrow> sect
        | None \<Rightarrow> \<lparr>name = s, section_comment = [], section_rightComment = [], items = []\<rparr>))
     else the_section f s')"
proof -
  obtain i f' where f': "find_or_add_section s f = (i, f')"
    by fastforce
  note i = find_or_add_section_spec(1) [OF f'] and t = find_or_add_section_spec(2) [OF f']
  show ?thesis
    using getSection_Some(2,3) [OF i] t [of s] t [of s']
    by (simp add: setValue_def f' Let_def the_section_upd [OF i] split: option.splits if_splits)
qed

section \<open>Values\<close>

text \<open>The abstraction: all the values of a key, in file order.\<close>

definition all_values :: "inifile \<Rightarrow> string \<Rightarrow> string \<Rightarrow> string list" where
  "all_values f s k = map value (filter (\<lambda>it. key it = k) (section_items f s))"

lemma all_values_section:
  "all_values f s k = (case the_section f s of None \<Rightarrow> [] | Some sect \<Rightarrow> map value (filter (\<lambda>it. key it = k) (items sect)))"
  by (simp add: all_values_def section_items_def split: option.splits)

lemma set_item_values: "map value (filter (\<lambda>it. key it = k') (items (set_item k v c sect))) =
    (if k' = k then v # tl (map value (filter (\<lambda>it. key it = k) (items sect)))
     else map value (filter (\<lambda>it. key it = k') (items sect)))"
proof (cases "find_item k sect")
  case None
  then have "filter (\<lambda>it. key it = k) (items sect) = []"
    by (simp only: find_item_def find_first_of_filter)
  with None show ?thesis
    by (simp add: set_item_def)
next
  case (Some j)
  then have "find_first_of (\<lambda>it. key it = k) (items sect) = Some j"
    by (simp add: find_item_def)
  moreover from this have "j < length (items sect)" and "key (items sect ! j) = k"
    by (simp_all add: find_first_of_Some)
  ultimately show ?thesis
    using Some by (simp add: set_item_def upd_item_def filter_update_first filter_update_other map_tl)
qed

lemma all_values_setValue: "all_values (snd (setValue s k v c f)) s' k' =
    (if s' = s \<and> k' = k then v # tl (all_values f s k) else all_values f s' k')"
  unfolding all_values_section the_section_setValue
  by (auto simp: set_item_values split: option.splits)

lemma all_values_DeleteKey: "all_values (DeleteKey s k f) s' k' =
    (if s' = s \<and> k' = k then tl (all_values f s k) else all_values f s' k')"
proof (cases "getSection f s")
  case None
  then show ?thesis
    by (simp add: DeleteKey_def all_values_section getSection_None)
next
  case (Some i)
  define sect where "sect = sections_vt f ! i"
  have s: "name sect = s" "the_section f s = Some sect"
    using getSection_Some [OF Some] by (simp_all add: sect_def)
  show ?thesis
  proof (cases "find_item k sect")
    case None
    then have "filter (\<lambda>it. key it = k) (items sect) = []"
      by (simp only: find_item_def find_first_of_filter)
    with None Some s show ?thesis
      by (simp add: DeleteKey_def all_values_section sect_def)
  next
    case (Some j)
    then have j: "find_first_of (\<lambda>it. key it = k) (items sect) = Some j"
      by (simp add: find_item_def)
    then have "j < length (items sect)" and "key (items sect ! j) = k"
      by (simp_all add: find_first_of_Some)
    with j have v: "map value (filter (\<lambda>it. key it = k') (remove_at j (items sect))) =
        (if k' = k then tl (map value (filter (\<lambda>it. key it = k) (items sect)))
         else map value (filter (\<lambda>it. key it = k') (items sect)))"
      by (simp add: filter_remove_first filter_remove_other map_tl)
    show ?thesis
      using Some s v the_section_upd [OF \<open>getSection f s = Some i\<close>,
          of "\<lambda>sect. sect\<lparr>items := remove_at j (items sect)\<rparr>" s']
      by (cases "k' = k") (simp_all add: DeleteKey_def \<open>getSection f s = Some i\<close> all_values_section flip: sect_def)
  qed
qed

lemma getValue_values: "(case getValue f s k of Inl _ \<Rightarrow> None | Inr (v, _) \<Rightarrow> Some v) =
    (case all_values f s k of [] \<Rightarrow> None | v # _ \<Rightarrow> Some v)"
proof (cases "getSection f s")
  case None
  then show ?thesis
    by (simp add: getValue_def all_values_section getSection_None)
next
  case (Some i)
  show ?thesis
  proof (cases "find_item k (sections_vt f ! i)")
    case None
    then have "filter (\<lambda>it. key it = k) (items (sections_vt f ! i)) = []"
      by (simp only: find_item_def find_first_of_filter)
    with None Some show ?thesis
      by (simp add: getValue_def all_values_section getSection_Some)
  next
    case (Some j)
    then have "filter (\<lambda>it. key it = k) (items (sections_vt f ! i)) \<noteq> []"
      and "hd (filter (\<lambda>it. key it = k) (items (sections_vt f ! i))) = items (sections_vt f ! i) ! j"
      using filter_first [of "\<lambda>it. key it = k" "items (sections_vt f ! i)" j] by (simp_all add: find_item_def)
    then obtain its where "filter (\<lambda>it. key it = k) (items (sections_vt f ! i)) = items (sections_vt f ! i) ! j # its"
      by (metis list.exhaust_sel)
    with Some \<open>getSection f s = Some i\<close> show ?thesis
      by (simp add: getValue_def all_values_section getSection_Some Let_def)
  qed
qed

lemma GetStringValue_values:
  "GetStringValue f s k d = (case all_values f s k of [] \<Rightarrow> d | v # _ \<Rightarrow> v)"
  using getValue_values [of f s k] by (auto simp: GetStringValue_def split: sum.splits list.splits)

lemma GetIntValue_values:
  "GetIntValue f s k d = (case all_values f s k of [] \<Rightarrow> d | v # _ \<Rightarrow> atoi v)"
  using getValue_values [of f s k] by (auto simp: GetIntValue_def split: sum.splits list.splits)

lemma HasKey_values: "HasKey f s k \<longleftrightarrow> all_values f s k \<noteq> []"
proof (cases "getSection f s")
  case (Some i)
  then show ?thesis
    using find_first_of_filter [of "\<lambda>it. key it = k" "items (sections_vt f ! i)"]
    by (auto simp: HasKey_def all_values_section getSection_Some find_item_def)
qed (simp add: HasKey_def all_values_section getSection_None)

lemma GetValues_values: "fst (snd (GetValues f s k)) = all_values f s k"
  by (cases "getSection f s") (simp_all add: GetValues_def Let_def all_values_section getSection_None getSection_Some)

interpretation ini: settings "\<lambda>f (s, k). all_values f s k"
  "\<lambda>(s, k) v f. snd (SetStringValue s k v f)" "\<lambda>(s, k) f. DeleteKey s k f"
  by unfold_locales
    (simp_all add: split_beta prod_eq_iff SetStringValue_def all_values_setValue all_values_DeleteKey)

lemma GetBoolValue_values: "GetBoolValue f s k d =
    (case all_values f s k of [] \<Rightarrow> d
     | v # _ \<Rightarrow> if map toupper v \<in> {''TRUE'', ''1''} then True
                else if map toupper v \<in> {''FALSE'', ''0''} then False else d)"
proof -
  have u: "map toupper ''true'' = ''TRUE''" "map toupper ''1'' = ''1''"
    "map toupper ''false'' = ''FALSE''" "map toupper ''0'' = ''0''"
    by code_simp+
  have "GetBoolValue f s k d = (case getValue f s k of Inl _ \<Rightarrow> d
     | Inr (v, _) \<Rightarrow> if map toupper v \<in> {''TRUE'', ''1''} then True
                     else if map toupper v \<in> {''FALSE'', ''0''} then False else d)"
    unfolding GetBoolValue_def StringCmpIgnoreCase_def u by (simp only: insert_iff empty_iff simp_thms)
  then show ?thesis
    using getValue_values [of f s k]
    by (cases "getValue f s k"; cases "all_values f s k") (simp_all add: split_beta del: insert_iff)
qed

text \<open>
  C15. The configuration object implements a multimap from section and key to values: setting a value
  replaces the first value of the key or adds one, and touches no other key, whatever sections and
  items exist; deleting a key removes its first value only; the getters read the first value. Those of strings
  and integers fall back on their default exactly when there is none; \<open>GetBoolValue\<close>, which accepts true, 1, false and 0 in
  any case of letters, falls back on it when there is none and for every other text. The getter of
  floating-point numbers is not modelled.
\<close>

theorem settings_multimap:
  shows "all_values (snd (setValue s k v c f)) s' k' =
      (if s' = s \<and> k' = k then v # tl (all_values f s k) else all_values f s' k') \<and>
    all_values (DeleteKey s k f) s' k' =
      (if s' = s \<and> k' = k then tl (all_values f s k) else all_values f s' k') \<and>
    HasKey f s k = (all_values f s k \<noteq> []) \<and> fst (snd (GetValues f s k)) = all_values f s k \<and>
    GetStringValue f s k d = (case all_values f s k of [] \<Rightarrow> d | v # _ \<Rightarrow> v) \<and>
    GetIntValue f s k n = (case all_values f s k of [] \<Rightarrow> n | v # _ \<Rightarrow> atoi v) \<and>
    GetBoolValue f s k b = (case all_values f s k of [] \<Rightarrow> b
      | v # _ \<Rightarrow> if map toupper v \<in> {''TRUE'', ''1''} then True
                 else if map toupper v \<in> {''FALSE'', ''0''} then False else b)"
  by (intro conjI all_values_setValue all_values_DeleteKey HasKey_values GetValues_values
      GetStringValue_values GetIntValue_values GetBoolValue_values)

text \<open>
  After any sequence of changes a getter reads what was written last: if the key was among those
  set, the last value given for it, otherwise what it read before; and after a key was deleted a
  number of times the getter reads the value that many places further on in the file.
\<close>

theorem last_written_wins:
  shows "GetStringValue (fold (\<lambda>((s, k), v) f. snd (SetStringValue s k v f)) ws f) s k d =
      (case map_of (rev ws) (s, k) of None \<Rightarrow> GetStringValue f s k d | Some v \<Rightarrow> v) \<and>
    GetStringValue ((DeleteKey s k ^^ n) f) s k d =
      (if n < length (all_values f s k) then all_values f s k ! n else d)"
proof (rule conjI)
  have "(\<lambda>((s, k), v) f. snd (SetStringValue s k v f)) = (\<lambda>(k, v). (case k of (s, k) \<Rightarrow> \<lambda>v f. snd (SetStringValue s k v f)) v)"
    by (auto simp: fun_eq_iff)
  then show "GetStringValue (fold (\<lambda>((s, k), v) f. snd (SetStringValue s k v f)) ws f) s k d =
      (case map_of (rev ws) (s, k) of None \<Rightarrow> GetStringValue f s k d | Some v \<Rightarrow> v)"
    using ini.get_fold_put [of ws f "(s, k)"] by (simp add: GetStringValue_values split: option.splits)
  show "GetStringValue ((DeleteKey s k ^^ n) f) s k d =
      (if n < length (all_values f s k) then all_values f s k ! n else d)"
    using ini.get_del_times [of n "(s, k)" f]
    by (cases "drop n (all_values f s k)") (auto simp: GetStringValue_values simp flip: nth_via_drop
        dest: nth_via_drop)
qed

end
