(* ===== verification/LinkedList.thy ===== *)
theory LinkedList
  imports Prelude
begin

text \<open>
  include/list.h, the part of the kernel list that \<open>Klist\<close> uses: \<open>INIT_LIST_HEAD\<close>, \<open>__list_add\<close>,
  \<open>list_add\<close>, \<open>list_add_tail\<close>, \<open>__list_del\<close>, \<open>list_del\<close> and the walk \<open>list_for_each_safe\<close>.

  The heap is a record of finite information per address: the two links, the payload of the
  structure the \<open>list_head\<close> is embedded in (\<open>list_entry\<close> maps a link to its structure and is the
  identity on addresses here), and which addresses are allocated. Addresses are handed out by
  a counter. The abstraction is the list of addresses of a circular doubly linked list.
\<close>

section \<open>The heap and the operations of list.h\<close>

type_synonym addr = nat

record 'd store =
  next_of :: "addr \<Rightarrow> addr option"
  prev_of :: "addr \<Rightarrow> addr option"
  payload :: "addr \<Rightarrow> 'd"
  allocated :: "addr \<Rightarrow> bool"
  brk :: addr

definition alloc :: "'d \<Rightarrow> 'd store \<Rightarrow> addr \<times> 'd store" where
  "alloc d s = (brk s, s\<lparr>payload := (payload s)(brk s := d), allocated := (allocated s)(brk s := True),
     brk := Suc (brk s)\<rparr>)"

definition free :: "addr \<Rightarrow> 'd store \<Rightarrow> 'd store res" where
  "free a s = (if allocated s a then Inr (s\<lparr>allocated := (allocated s)(a := False)\<rparr>) else Inl Dangling)"

text \<open>Following a pointer: NULL and freed memory are faults.\<close>

definition deref :: "addr option \<Rightarrow> 'd store \<Rightarrow> addr res" where
  "deref p s = (case p of None \<Rightarrow> Inl NullPointer
     | Some a \<Rightarrow> if allocated s a then Inr a else Inl Dangling)"

definition INIT_LIST_HEAD :: "addr \<Rightarrow> 'd store \<Rightarrow> 'd store" where
  "INIT_LIST_HEAD l s = s\<lparr>next_of := (next_of s)(l := Some l), prev_of := (prev_of s)(l := Some l)\<rparr>"

definition list_add_between :: "addr \<Rightarrow> addr \<Rightarrow> addr \<Rightarrow> 'd store \<Rightarrow> 'd store" where
  "list_add_between new_node prev next s =
     (let s = s\<lparr>prev_of := (prev_of s)(next := Some new_node)\<rparr>;
          s = s\<lparr>next_of := (next_of s)(new_node := Some next)\<rparr>;
          s = s\<lparr>prev_of := (prev_of s)(new_node := Some prev)\<rparr>
      in s\<lparr>next_of := (next_of s)(prev := Some new_node)\<rparr>)"

definition list_add :: "addr \<Rightarrow> addr \<Rightarrow> 'd store \<Rightarrow> 'd store res" where
  "list_add new_node head s =
     bindE (deref (next_of s head) s) (\<lambda>next. Inr (list_add_between new_node head next s))"

definition list_add_tail :: "addr \<Rightarrow> addr \<Rightarrow> 'd store \<Rightarrow> 'd store res" where
  "list_add_tail new_node head s =
     bindE (deref (prev_of s head) s) (\<lambda>prev. Inr (list_add_between new_node prev head s))"

definition list_del_between :: "addr \<Rightarrow> addr \<Rightarrow> 'd store \<Rightarrow> 'd store" where
  "list_del_between prev next s =
     (let s = s\<lparr>prev_of := (prev_of s)(next := Some prev)\<rparr>
      in s\<lparr>next_of := (next_of s)(prev := Some next)\<rparr>)"

definition list_del :: "addr \<Rightarrow> 'd store \<Rightarrow> 'd store res" where
  "list_del entry s =
     bindE (deref (prev_of s entry) s) (\<lambda>prev. bindE (deref (next_of s entry) s) (\<lambda>next.
       let s = list_del_between prev next s
       in Inr (s\<lparr>next_of := (next_of s)(entry := None), prev_of := (prev_of s)(entry := None)\<rparr>)))"

text \<open>
  \<open>list_for_each_safe (pos, n, head) body\<close>: \<open>n\<close> is read before the body runs. The body gives
  \<open>(Some r, s)\<close> to leave the loop with \<open>r\<close> and \<open>(None, s)\<close> to go on. The loop is bounded by a fuel
  argument; running out of it is the fault \<open>Diverges\<close>, which the walk over a proper list never
  reaches.
\<close>

fun for_each_safe ::
  "nat \<Rightarrow> addr \<Rightarrow> (addr \<Rightarrow> 'd store \<Rightarrow> ('r option \<times> 'd store) res) \<Rightarrow> addr \<Rightarrow> addr option \<Rightarrow>
   'd store \<Rightarrow> ('r option \<times> 'd store) res" where
  "for_each_safe 0 head body pos n s = Inl Diverges"
| "for_each_safe (Suc fuel) head body pos n s =
     (if pos = head then Inr (None, s)
      else bindE (body pos s) (\<lambda>(r, s).
           case r of
             Some v \<Rightarrow> Inr (Some v, s)
           | None \<Rightarrow> bindE (deref n s) (\<lambda>pos. for_each_safe fuel head body pos (next_of s pos) s)))"

definition list_for_each_safe ::
  "addr \<Rightarrow> (addr \<Rightarrow> 'd store \<Rightarrow> ('r option \<times> 'd store) res) \<Rightarrow> 'd store \<Rightarrow> ('r option \<times> 'd store) res"
  where
  "list_for_each_safe head body s =
     bindE (deref (Some head) s) (\<lambda>head.
     bindE (deref (next_of s head) s) (\<lambda>pos.
       for_each_safe (Suc (brk s)) head body pos (next_of s pos) s))"

section \<open>Circular doubly linked lists\<close>

text \<open>
  \<open>chain s a xs b\<close>: following \<open>next\<close> from \<open>a\<close> visits the addresses \<open>xs\<close> and then \<open>b\<close>, and \<open>prev\<close>
  leads back the same way. \<open>dlist s h xs\<close>: the list with head \<open>h\<close> holds the entries \<open>xs\<close>, all of
  them allocated and different.
\<close>

fun chain :: "'d store \<Rightarrow> addr \<Rightarrow> addr list \<Rightarrow> addr \<Rightarrow> bool" where
  "chain s a [] b \<longleftrightarrow> next_of s a = Some b \<and> prev_of s b = Some a"
| "chain s a (x # xs) b \<longleftrightarrow> next_of s a = Some x \<and> prev_of s x = Some a \<and> chain s x xs b"

definition dlist :: "'d store \<Rightarrow> addr \<Rightarrow> addr list \<Rightarrow> bool" where
  "dlist s h xs \<longleftrightarrow> chain s h xs h \<and> distinct (h # xs) \<and>
     (\<forall>a\<in>set (h # xs). allocated s a \<and> a < brk s)"

named_theorems dlist_intros "operations keep the circular list"

lemma chain_append: "chain s a (xs @ y # ys) b \<longleftrightarrow> chain s a xs y \<and> chain s y ys b"
  by (induction xs arbitrary: a) auto

lemma chain_next_first: "chain s a xs b \<Longrightarrow> next_of s a = Some (hd (xs @ [b]))"
  by (cases xs) auto

lemma chain_prev_last: "chain s a xs b \<Longrightarrow> prev_of s b = Some (last (a # xs))"
  by (induction xs arbitrary: a) auto

text \<open>The chain depends on \<open>next\<close> of all its addresses but the last and \<open>prev\<close> of all but the first.\<close>

lemma chain_cong:
  assumes "\<And>x. x \<in> set (a # xs) \<Longrightarrow> next_of s' x = next_of s x"
    and "\<And>x. x \<in> set (xs @ [b]) \<Longrightarrow> prev_of s' x = prev_of s x"
  shows "chain s' a xs b = chain s a xs b"
  using assms by (induction xs arbitrary: a) auto

lemma dlist_lengths: "dlist s h xs \<Longrightarrow> length xs < brk s"
proof -
  assume d: "dlist s h xs"
  then have "set (h # xs) \<subseteq> {0..<brk s}"
    unfolding dlist_def by force
  then have "card (set (h # xs)) \<le> brk s"
    by (metis card_atLeastLessThan card_mono diff_zero finite_atLeastLessThan)
  moreover have "card (set (h # xs)) = Suc (length xs)"
    using d unfolding dlist_def by (metis distinct_card length_Cons)
  ultimately show ?thesis
    by simp
qed

lemma deref_dlist [simp]:
  "dlist s h xs \<Longrightarrow> deref (Some h) s = Inr h"
  "dlist s h xs \<Longrightarrow> x \<in> set xs \<Longrightarrow> deref (Some x) s = Inr x"
  by (auto simp: deref_def dlist_def)

lemma dlist_payload [simp]: "dlist (s\<lparr>payload := p\<rparr>) h xs = dlist s h xs"
  unfolding dlist_def by (simp cong: conj_cong) (metis (no_types, lifting) chain_cong store.select_convs(1,2) store.surjective store.update_convs(3))

subsection \<open>Insertion and deletion\<close>

lemma list_add_between_sel [simp]:
  "next_of (list_add_between new u v s) = (next_of s)(new := Some v, u := Some new)"
  "prev_of (list_add_between new u v s) = (prev_of s)(v := Some new, new := Some u)"
  "payload (list_add_between new u v s) = payload s"
  "allocated (list_add_between new u v s) = allocated s"
  "brk (list_add_between new u v s) = brk s"
  by (simp_all add: list_add_between_def)

lemma list_del_between_sel [simp]:
  "next_of (list_del_between u v s) = (next_of s)(u := Some v)"
  "prev_of (list_del_between u v s) = (prev_of s)(v := Some u)"
  "payload (list_del_between u v s) = payload s"
  "allocated (list_del_between u v s) = allocated s"
  "brk (list_del_between u v s) = brk s"
  by (simp_all add: list_del_between_def)

lemma chain_add_between:
  assumes "chain s a (xs @ ys) b" and "new \<notin> set (a # xs @ ys @ [b])"
    and "distinct (a # xs @ ys)" and "b \<notin> set (xs @ ys)"
  shows "chain (list_add_between new (last (a # xs)) (hd (ys @ [b])) s) a (xs @ new # ys) b"
  using assms
proof (induction xs arbitrary: a)
  case Nil
  show ?case
  proof (cases ys)
    case Nil
    with Nil.prems show ?thesis by auto
  next
    case (Cons y ys')
    let ?s = "list_add_between new a y s"
    have "chain ?s y ys' b = chain s y ys' b"
      using Nil.prems Cons by (intro chain_cong) auto
    with Nil.prems Cons show ?thesis by auto
  qed
next
  case (Cons x xs)
  have "hd (ys @ [b]) \<in> set (ys @ [b])"
    by (cases ys) auto
  with Cons show ?case
    by auto
qed

lemma chain_del_between:
  assumes "chain s a (xs @ e # ys) b" and "distinct (a # xs @ e # ys)" and "b \<notin> set (xs @ e # ys)"
  shows "chain (list_del_between (last (a # xs)) (hd (ys @ [b])) s) a (xs @ ys) b"
  using assms
proof (induction xs arbitrary: a)
  case Nil
  show ?case
  proof (cases ys)
    case Nil
    with Nil.prems show ?thesis by auto
  next
    case (Cons y ys')
    let ?s = "list_del_between a y s"
    have "chain ?s y ys' b = chain s y ys' b"
      using Nil.prems Cons by (intro chain_cong) auto
    with Nil.prems Cons show ?thesis by auto
  qed
next
  case (Cons x xs)
  have "hd (ys @ [b]) \<in> set (ys @ [b])"
    by (cases ys) auto
  with Cons show ?case
    by auto
qed

text \<open>
  The three operations of list.h on a proper list: insertion after an entry, insertion before an
  entry, deletion of an entry. The new node is allocated and not in the list.
\<close>

lemma dlist_add_between:
  assumes "dlist s h (xs @ ys)" and "new \<notin> set (h # xs @ ys)" and "allocated s new" and "new < brk s"
  shows "dlist (list_add_between new (last (h # xs)) (hd (ys @ [h])) s) h (xs @ new # ys)"
  using assms chain_add_between [of s h xs ys h new] by (auto simp: dlist_def)

lemma dlist_neighbours:
  assumes "dlist s h (xs @ x # ys)"
  shows "next_of s x = Some (hd (ys @ [h]))" and "prev_of s x = Some (last (h # xs))"
    and "allocated s (hd (ys @ [h]))" and "allocated s (last (h # xs))"
proof -
  have c: "chain s h xs x" "chain s x ys h"
    using assms by (simp_all add: dlist_def chain_append)
  show "next_of s x = Some (hd (ys @ [h]))"
    using c(2) by (rule chain_next_first)
  show "prev_of s x = Some (last (h # xs))"
    using c(1) by (rule chain_prev_last)
  have "hd (ys @ [h]) \<in> set (h # ys)"
    by (cases ys) auto
  then show "allocated s (hd (ys @ [h]))"
    using assms by (auto simp: dlist_def)
  have "last (h # xs) \<in> set (h # xs)"
    by (rule last_in_set) simp
  then show "allocated s (last (h # xs))"
    using assms by (auto simp: dlist_def)
qed

lemma dlist_head:
  assumes "dlist s h xs"
  shows "next_of s h = Some (hd (xs @ [h]))" and "prev_of s h = Some (last (h # xs))"
    and "allocated s (hd (xs @ [h]))" and "allocated s (last (h # xs))"
proof -
  have c: "chain s h xs h"
    using assms by (simp add: dlist_def)
  show "next_of s h = Some (hd (xs @ [h]))"
    using c by (rule chain_next_first)
  show "prev_of s h = Some (last (h # xs))"
    using c by (rule chain_prev_last)
  have "hd (xs @ [h]) \<in> set (h # xs)"
    by (cases xs) auto
  then show "allocated s (hd (xs @ [h]))"
    using assms by (auto simp: dlist_def)
  have "last (h # xs) \<in> set (h # xs)"
    by (rule last_in_set) simp
  then show "allocated s (last (h # xs))"
    using assms by (auto simp: dlist_def)
qed

lemma INIT_LIST_HEAD_dlist [dlist_intros]:
  "allocated s h \<Longrightarrow> h < brk s \<Longrightarrow> dlist (INIT_LIST_HEAD h s) h []"
  by (simp add: dlist_def INIT_LIST_HEAD_def)

lemma list_add_head:
  assumes "dlist s h xs" and "new \<notin> set (h # xs)" and "allocated s new" and "new < brk s"
  shows "list_add new h s = Inr (list_add_between new h (hd (xs @ [h])) s)"
    and "dlist (list_add_between new h (hd (xs @ [h])) s) h (new # xs)"
  using dlist_head [OF assms(1)] dlist_add_between [of s h "[]" xs new] assms
  by (simp_all add: list_add_def deref_def)

lemma list_add_tail_head:
  assumes "dlist s h xs" and "new \<notin> set (h # xs)" and "allocated s new" and "new < brk s"
  shows "list_add_tail new h s = Inr (list_add_between new (last (h # xs)) h s)"
    and "dlist (list_add_between new (last (h # xs)) h s) h (xs @ [new])"
  using dlist_head [OF assms(1)] dlist_add_between [of s h xs "[]" new] assms
  by (simp_all add: list_add_tail_def deref_def)

lemma list_add_entry:
  assumes "dlist s h (xs @ x # ys)" and "new \<notin> set (h # xs @ x # ys)" and "allocated s new"
    and "new < brk s"
  shows "list_add new x s = Inr (list_add_between new x (hd (ys @ [h])) s)"
    and "dlist (list_add_between new x (hd (ys @ [h])) s) h (xs @ x # new # ys)"
  using dlist_neighbours [OF assms(1)] dlist_add_between [of s h "xs @ [x]" ys new] assms
  by (simp_all add: list_add_def deref_def)

lemma list_add_tail_entry:
  assumes "dlist s h (xs @ x # ys)" and "new \<notin> set (h # xs @ x # ys)" and "allocated s new"
    and "new < brk s"
  shows "list_add_tail new x s = Inr (list_add_between new (last (h # xs)) x s)"
    and "dlist (list_add_between new (last (h # xs)) x s) h (xs @ new # x # ys)"
  using dlist_neighbours [OF assms(1)] dlist_add_between [of s h xs "x # ys" new] assms
  by (simp_all add: list_add_tail_def deref_def)

lemma list_del_entry:
  assumes "dlist s h (xs @ x # ys)"
  shows "\<exists>s'. list_del x s = Inr s' \<and> dlist s' h (xs @ ys) \<and> payload s' = payload s \<and>
    allocated s' = allocated s \<and> brk s' = brk s"
proof -
  let ?u = "last (h # xs)" and ?v = "hd (ys @ [h])"
  let ?t = "list_del_between ?u ?v s"
  let ?s' = "?t\<lparr>next_of := (next_of ?t)(x := None), prev_of := (prev_of ?t)(x := None)\<rparr>"
  have "list_del x s = Inr ?s'"
    using dlist_neighbours [OF assms] by (simp add: list_del_def deref_def Let_def)
  moreover have "chain ?t h (xs @ ys) h"
    using assms by (intro chain_del_between) (auto simp: dlist_def)
  then have "chain ?s' h (xs @ ys) h"
    using assms by (subst chain_cong [of _ _ _ ?t]) (auto simp: dlist_def)
  then have "dlist ?s' h (xs @ ys)"
    using assms by (auto simp: dlist_def)
  ultimately show ?thesis
    by (intro exI [of _ ?s']) simp
qed

lemma free_dlist [dlist_intros]:
  "dlist s h xs \<Longrightarrow> x \<notin> set (h # xs) \<Longrightarrow> free x s = Inr s' \<Longrightarrow> dlist s' h xs"
  by (auto simp: dlist_def free_def split: if_splits intro: chain_cong [THEN iffD2])

lemma alloc_dlist:
  assumes "dlist s h xs" and "alloc d s = (a, s')"
  shows "dlist s' h xs" and "a \<notin> set (h # xs)" and "allocated s' a" and "a < brk s'"
    and "payload s' = (payload s)(a := d)"
proof -
  have s': "a = brk s" "s' = s\<lparr>payload := (payload s)(brk s := d),
      allocated := (allocated s)(brk s := True), brk := Suc (brk s)\<rparr>"
    using assms(2) by (auto simp: alloc_def)
  have "chain s' h xs h = chain s h xs h"
    unfolding s' by (rule chain_cong) auto
  with assms(1) show "dlist s' h xs"
    by (auto simp: dlist_def s')
  show "a \<notin> set (h # xs)"
    using assms(1) by (auto simp: dlist_def s')
  show "allocated s' a" and "a < brk s'" and "payload s' = (payload s)(a := d)"
    by (simp_all add: s')
qed

subsection \<open>The walk\<close>

text \<open>
  The list a safe walk visits is the list as it was when the walk started, whatever the body
  does to the entry it is at and to the ones before it: the entries still to come only have to
  stay linked behind what is left. \<open>walk\<close> is the loop over that list of addresses.
\<close>

fun walk :: "(addr \<Rightarrow> 's \<Rightarrow> ('r option \<times> 's) res) \<Rightarrow> addr list \<Rightarrow> 's \<Rightarrow> ('r option \<times> 's) res" where
  "walk body [] s = Inr (None, s)"
| "walk body (x # xs) s = bindE (body x s) (\<lambda>(r, s).
     case r of Some v \<Rightarrow> Inr (Some v, s) | None \<Rightarrow> walk body xs s)"

definition removal_safe :: "addr \<Rightarrow> (addr \<Rightarrow> 'd store \<Rightarrow> ('r option \<times> 'd store) res) \<Rightarrow> bool" where
  "removal_safe h body \<longleftrightarrow> (\<forall>s ps x xs r s'. dlist s h (ps @ x # xs) \<longrightarrow> body x s = Inr (r, s') \<longrightarrow>
     (\<exists>ps'. dlist s' h (ps' @ xs)))"

lemma for_each_safe_walk:
  assumes safe: "removal_safe h body"
    and "dlist s h (ps @ xs)" and "length xs < fuel"
  shows "for_each_safe fuel h body (hd (xs @ [h])) (next_of s (hd (xs @ [h]))) s = walk body xs s"
  using assms(2,3)
proof (induction xs arbitrary: fuel ps s)
  case Nil
  then show ?case
    by (cases fuel) auto
next
  case (Cons x xs)
  obtain f where fuel: "fuel = Suc f"
    using Cons.prems(2) by (cases fuel) auto
  have x: "x \<noteq> h" and n: "next_of s x = Some (hd (xs @ [h]))"
    using Cons.prems(1) dlist_neighbours(1) [of s h ps x xs] by (auto simp: dlist_def)
  show ?case
  proof (cases "body x s")
    case (Inl e)
    with x fuel show ?thesis by simp
  next
    case (Inr rs)
    then obtain r s' where body: "body x s = Inr (r, s')"
      by (cases rs) auto
    then obtain ps' where d: "dlist s' h (ps' @ xs)"
      using safe Cons.prems(1) by (fastforce simp: removal_safe_def)
    have "hd (xs @ [h]) \<in> set (h # ps' @ xs)"
      by (cases xs) auto
    then have "deref (Some (hd (xs @ [h]))) s' = Inr (hd (xs @ [h]))"
      using d by (auto simp: deref_def dlist_def)
    moreover have "for_each_safe f h body (hd (xs @ [h])) (next_of s' (hd (xs @ [h]))) s' = walk body xs s'"
      using d Cons.prems(2) fuel by (intro Cons.IH) auto
    ultimately show ?thesis
      using x n body fuel by (simp split: option.split)
  qed
qed

lemma list_for_each_safe_walk:
  assumes "removal_safe h body" and "dlist s h xs"
  shows "list_for_each_safe h body s = walk body xs s"
proof -
  have "deref (next_of s h) s = Inr (hd (xs @ [h]))"
    using dlist_head [OF assms(2)] by (simp add: deref_def)
  moreover have "length xs < Suc (brk s)"
    using dlist_lengths [OF assms(2)] by simp
  ultimately show ?thesis
    using for_each_safe_walk [OF assms(1), of s "[]" xs "Suc (brk s)"] assms(2)
    by (simp add: list_for_each_safe_def)
qed

end
