(* ===== verification/ListOps.thy ===== *)
theory ListOps
  imports LinkedList
begin

text \<open>
  include/list.h, the operations on circular lists that \<open>Klist\<close> does not need: replacing, moving, rotating,
  cutting and splicing, the tests, and the walks forwards and backwards, from the head or from an
  entry. Each operation is the sequence of its pointer reads and writes; a read through NULL or freed
  memory is a fault. Each is shown to compute the obvious function on the lists of addresses.
\<close>

section \<open>The operations\<close>

definition set_next :: "addr \<Rightarrow> addr \<Rightarrow> 'd store \<Rightarrow> 'd store" where
  "set_next a v s = s\<lparr>next_of := (next_of s)(a := Some v)\<rparr>"

definition set_prev :: "addr \<Rightarrow> addr \<Rightarrow> 'd store \<Rightarrow> 'd store" where
  "set_prev a v s = s\<lparr>prev_of := (prev_of s)(a := Some v)\<rparr>"

text \<open>\<open>a->next\<close> and \<open>a->prev\<close>, as pointers that are followed next.\<close>

definition get_next :: "addr \<Rightarrow> 'd store \<Rightarrow> addr res" where
  "get_next a s = bindE (deref (Some a) s) (\<lambda>a. deref (next_of s a) s)"

definition get_prev :: "addr \<Rightarrow> 'd store \<Rightarrow> addr res" where
  "get_prev a s = bindE (deref (Some a) s) (\<lambda>a. deref (prev_of s a) s)"

definition del_entry :: "addr \<Rightarrow> 'd store \<Rightarrow> 'd store res" where
  "del_entry entry s =
     bindE (get_prev entry s) (\<lambda>prev. bindE (get_next entry s) (\<lambda>next. Inr (list_del_between prev next s)))"

definition list_replace :: "addr \<Rightarrow> addr \<Rightarrow> 'd store \<Rightarrow> 'd store res" where
  "list_replace old new_node s =
     bindE (deref (Some new_node) s) (\<lambda>new_node.
     bindE (get_next old s) (\<lambda>next.
     let s = set_next new_node next s; s = set_prev next new_node s
     in bindE (get_prev old s) (\<lambda>prev.
        let s = set_prev new_node prev s in Inr (set_next prev new_node s))))"

definition list_replace_init :: "addr \<Rightarrow> addr \<Rightarrow> 'd store \<Rightarrow> 'd store res" where
  "list_replace_init old new_node s = bindE (list_replace old new_node s) (\<lambda>s. Inr (INIT_LIST_HEAD old s))"

definition list_del_init :: "addr \<Rightarrow> 'd store \<Rightarrow> 'd store res" where
  "list_del_init entry s = bindE (del_entry entry s) (\<lambda>s. Inr (INIT_LIST_HEAD entry s))"

definition list_move :: "addr \<Rightarrow> addr \<Rightarrow> 'd store \<Rightarrow> 'd store res" where
  "list_move l head s = bindE (del_entry l s) (list_add l head)"

definition list_move_tail :: "addr \<Rightarrow> addr \<Rightarrow> 'd store \<Rightarrow> 'd store res" where
  "list_move_tail l head s = bindE (del_entry l s) (list_add_tail l head)"

definition list_is_last :: "addr \<Rightarrow> addr \<Rightarrow> 'd store \<Rightarrow> bool res" where
  "list_is_last l head s = bindE (deref (Some l) s) (\<lambda>l. Inr (next_of s l = Some head))"

definition list_empty :: "addr \<Rightarrow> 'd store \<Rightarrow> bool res" where
  "list_empty head s = bindE (deref (Some head) s) (\<lambda>head. Inr (next_of s head = Some head))"

definition list_empty_careful :: "addr \<Rightarrow> 'd store \<Rightarrow> bool res" where
  "list_empty_careful head s = bindE (deref (Some head) s) (\<lambda>head.
     let next = next_of s head in Inr (next = Some head \<and> next = prev_of s head))"

definition list_rotate_left :: "addr \<Rightarrow> 'd store \<Rightarrow> 'd store res" where
  "list_rotate_left head s =
     bindE (list_empty head s) (\<lambda>e. if \<not> e then bindE (get_next head s) (\<lambda>first. list_move_tail first head s) else Inr s)"

definition list_is_singular :: "addr \<Rightarrow> 'd store \<Rightarrow> bool res" where
  "list_is_singular head s =
     bindE (list_empty head s) (\<lambda>e. Inr (\<not> e \<and> next_of s head = prev_of s head))"

definition cut_position :: "addr \<Rightarrow> addr \<Rightarrow> addr \<Rightarrow> 'd store \<Rightarrow> 'd store res" where
  "cut_position l head entry s =
     bindE (get_next entry s) (\<lambda>new_first.
     bindE (get_next head s) (\<lambda>first.
     let s = set_next l first s; s = set_prev first l s; s = set_prev l entry s; s = set_next entry l s;
         s = set_next head new_first s
     in Inr (set_prev new_first head s)))"

definition list_cut_position :: "addr \<Rightarrow> addr \<Rightarrow> addr \<Rightarrow> 'd store \<Rightarrow> 'd store res" where
  "list_cut_position l head entry s =
     bindE (list_empty head s) (\<lambda>e. if e then Inr s
     else bindE (list_is_singular head s) (\<lambda>one.
       if one \<and> next_of s head \<noteq> Some entry \<and> head \<noteq> entry then Inr s
       else if entry = head then Inr (INIT_LIST_HEAD l s)
       else cut_position l head entry s))"

definition splice_between :: "addr \<Rightarrow> addr \<Rightarrow> addr \<Rightarrow> 'd store \<Rightarrow> 'd store res" where
  "splice_between l prev next s =
     bindE (get_next l s) (\<lambda>first. bindE (get_prev l s) (\<lambda>last.
     let s = set_prev first prev s; s = set_next prev first s; s = set_next last next s
     in Inr (set_prev next last s)))"

definition list_splice :: "addr \<Rightarrow> addr \<Rightarrow> 'd store \<Rightarrow> 'd store res" where
  "list_splice l head s =
     bindE (list_empty l s) (\<lambda>e. if \<not> e then bindE (get_next head s) (\<lambda>next. splice_between l head next s) else Inr s)"

definition list_splice_tail :: "addr \<Rightarrow> addr \<Rightarrow> 'd store \<Rightarrow> 'd store res" where
  "list_splice_tail l head s =
     bindE (list_empty l s) (\<lambda>e. if \<not> e then bindE (get_prev head s) (\<lambda>prev. splice_between l prev head s) else Inr s)"

definition list_splice_init :: "addr \<Rightarrow> addr \<Rightarrow> 'd store \<Rightarrow> 'd store res" where
  "list_splice_init l head s =
     bindE (list_empty l s) (\<lambda>e. if \<not> e
       then bindE (get_next head s) (\<lambda>next. bindE (splice_between l head next s) (\<lambda>s. Inr (INIT_LIST_HEAD l s)))
       else Inr s)"

definition list_splice_tail_init :: "addr \<Rightarrow> addr \<Rightarrow> 'd store \<Rightarrow> 'd store res" where
  "list_splice_tail_init l head s =
     bindE (list_empty l s) (\<lambda>e. if \<not> e
       then bindE (get_prev head s) (\<lambda>prev. bindE (splice_between l prev head s) (\<lambda>s. Inr (INIT_LIST_HEAD l s)))
       else Inr s)"

section \<open>Segments\<close>

text \<open>
  \<open>linked s xs\<close>: neighbours in \<open>xs\<close> point to each other. A circular list is a linked sequence that
  starts and ends with its head; an operation leaves the links inside a segment alone and makes new
  ones between segments.
\<close>

definition linked :: "'d store \<Rightarrow> addr list \<Rightarrow> bool" where
  "linked s = successively (\<lambda>u v. next_of s u = Some v \<and> prev_of s v = Some u)"

lemma linked_simps [simp]:
  "linked s []" "linked s [a]"
  "linked s (a # b # xs) \<longleftrightarrow> next_of s a = Some b \<and> prev_of s b = Some a \<and> linked s (b # xs)"
  by (simp_all add: linked_def)

lemma chain_linked: "chain s a xs b \<longleftrightarrow> linked s (a # xs @ [b])"
  by (induction xs arbitrary: a) auto

lemma dlist_linked:
  "dlist s h xs \<longleftrightarrow> linked s (h # xs @ [h]) \<and> distinct (h # xs) \<and> (\<forall>a\<in>set (h # xs). allocated s a \<and> a < brk s)"
  by (simp add: dlist_def chain_linked)

lemma linked_append:
  "linked s (xs @ ys) \<longleftrightarrow> linked s xs \<and> linked s ys \<and>
     (xs = [] \<or> ys = [] \<or> next_of s (last xs) = Some (hd ys) \<and> prev_of s (hd ys) = Some (last xs))"
  by (auto simp: linked_def successively_append_iff)

lemma linked_cong:
  assumes "\<And>x. x \<in> set (butlast xs) \<Longrightarrow> next_of s' x = next_of s x"
    and "\<And>x. x \<in> set (tl xs) \<Longrightarrow> prev_of s' x = prev_of s x"
  shows "linked s' xs = linked s xs"
  using assms
proof (induction xs rule: induct_list012)
  case (3 a b xs)
  then have "linked s' (b # xs) = linked s (b # xs)"
    by (intro 3(2)) auto
  with 3(3,4) show ?case by auto
qed simp_all

lemma set_link_sel [simp]:
  "next_of (set_next a v s) = (next_of s)(a := Some v)" "prev_of (set_next a v s) = prev_of s"
  "next_of (set_prev a v s) = next_of s" "prev_of (set_prev a v s) = (prev_of s)(a := Some v)"
  "payload (set_next a v s) = payload s" "payload (set_prev a v s) = payload s"
  "allocated (set_next a v s) = allocated s" "allocated (set_prev a v s) = allocated s"
  "brk (set_next a v s) = brk s" "brk (set_prev a v s) = brk s"
  by (simp_all add: set_next_def set_prev_def)

lemma INIT_LIST_HEAD_sel [simp]:
  "next_of (INIT_LIST_HEAD a s) = (next_of s)(a := Some a)" "prev_of (INIT_LIST_HEAD a s) = (prev_of s)(a := Some a)"
  "payload (INIT_LIST_HEAD a s) = payload s" "allocated (INIT_LIST_HEAD a s) = allocated s"
  "brk (INIT_LIST_HEAD a s) = brk s"
  by (simp_all add: INIT_LIST_HEAD_def)

text \<open>A list is not affected by what happens outside it.\<close>

lemma dlist_frame:
  assumes "dlist s h xs" and "\<And>a. a \<in> set (h # xs) \<Longrightarrow> next_of s' a = next_of s a \<and> prev_of s' a = prev_of s a"
    and "allocated s' = allocated s" and "brk s' = brk s"
  shows "dlist s' h xs"
proof -
  have "linked s' (h # xs @ [h]) = linked s (h # xs @ [h])"
    using assms(2) by (intro linked_cong) (auto dest: in_set_butlastD)
  with assms(1,3,4) show ?thesis
    by (simp add: dlist_linked)
qed

lemma get_next_dlist:
  assumes "dlist s h xs"
  shows "get_next h s = Inr (hd (xs @ [h]))" "get_prev h s = Inr (last (h # xs))"
  using dlist_head [OF assms] assms by (simp_all add: get_next_def get_prev_def deref_def dlist_def split: if_splits)

lemma get_next_entry:
  assumes "dlist s h (xs @ x # ys)"
  shows "get_next x s = Inr (hd (ys @ [h]))" "get_prev x s = Inr (last (h # xs))"
  using dlist_neighbours [OF assms] assms by (simp_all add: get_next_def get_prev_def deref_def dlist_def)

section \<open>What the operations do to the lists\<close>

text \<open>\<open>only_links A s s'\<close>: nothing but the links of the addresses in \<open>A\<close> has changed.\<close>

definition only_links :: "addr set \<Rightarrow> 'd store \<Rightarrow> 'd store \<Rightarrow> bool" where
  "only_links A s s' \<longleftrightarrow> payload s' = payload s \<and> allocated s' = allocated s \<and> brk s' = brk s \<and>
     (\<forall>a. a \<notin> A \<longrightarrow> next_of s' a = next_of s a \<and> prev_of s' a = prev_of s a)"

lemma only_links_dlist:
  assumes "only_links A s s'" and "dlist s h xs" and "set (h # xs) \<inter> A = {}"
  shows "dlist s' h xs"
  using assms(1,3) by (intro dlist_frame [OF assms(2)]) (auto simp: only_links_def)

lemma only_links_trans:
  "only_links A s s' \<Longrightarrow> only_links B s' s'' \<Longrightarrow> only_links (A \<union> B) s s''"
  by (simp add: only_links_def)

lemma ends_distinct:
  "distinct ys \<Longrightarrow> ys \<noteq> [] \<Longrightarrow> last ys \<notin> set (butlast ys)" "distinct ys \<Longrightarrow> ys \<noteq> [] \<Longrightarrow> hd ys \<notin> set (tl ys)"
proof -
  assume d: "distinct ys" "ys \<noteq> []"
  then have "distinct (butlast ys @ [last ys])"
    by simp
  then show "last ys \<notin> set (butlast ys)"
    by simp
  from d show "hd ys \<notin> set (tl ys)"
    by (cases ys) auto
qed

lemma hd_snoc_in: "hd (xs @ [h]) \<in> set (h # xs)"
  by (cases xs) auto

lemma last_cons_in: "last (h # xs) \<in> set (h # xs)"
  by (rule last_in_set) simp

lemma hd_snoc_tl: "distinct (h # xs) \<Longrightarrow> hd (xs @ [h]) \<notin> set (tl (xs @ [h]))"
  by (cases xs) auto

lemma last_cons_butlast: "distinct (h # xs) \<Longrightarrow> last (h # xs) \<notin> set (butlast (h # xs))"
  by (rule ends_distinct(1)) auto

lemma list_empty_dlist: "dlist s h xs \<Longrightarrow> list_empty h s = Inr (xs = [])"
  using dlist_head(1) [of s h xs] by (cases xs) (auto simp: list_empty_def dlist_def deref_def)

lemma dlist_Nil_conv: "dlist s h [] \<longleftrightarrow> next_of s h = Some h \<and> prev_of s h = Some h \<and> allocated s h \<and> h < brk s"
  by (simp add: dlist_def)

text \<open>Removal, and insertion somewhere else.\<close>

lemma del_entry_dlist:
  assumes "dlist s h (as @ e # bs)"
  shows "\<exists>s'. del_entry e s = Inr s' \<and> dlist s' h (as @ bs) \<and> only_links (set (h # as @ bs)) s s'"
proof -
  let ?s = "list_del_between (last (h # as)) (hd (bs @ [h])) s"
  have "del_entry e s = Inr ?s"
    by (simp only: del_entry_def get_next_entry [OF assms] bindE_simps)
  moreover have "chain ?s h (as @ bs) h"
    using assms by (intro chain_del_between) (auto simp: dlist_def)
  then have "dlist ?s h (as @ bs)"
    using assms by (auto simp: dlist_def)
  moreover have "only_links (set (h # as @ bs)) s ?s"
    using hd_snoc_in [of bs h] last_cons_in [of h as] by (auto simp: only_links_def)
  ultimately show ?thesis
    by blast
qed

lemma list_add_only_links:
  assumes "dlist s h xs" and "new \<notin> set (h # xs)" and "allocated s new" and "new < brk s"
  shows "\<exists>s'. list_add new h s = Inr s' \<and> dlist s' h (new # xs) \<and> only_links (set (new # h # xs)) s s'"
    and "\<exists>s'. list_add_tail new h s = Inr s' \<and> dlist s' h (xs @ [new]) \<and> only_links (set (new # h # xs)) s s'"
  using list_add_head [OF assms] list_add_tail_head [OF assms] hd_snoc_in [of xs h] last_cons_in [of h xs]
  by (auto simp: only_links_def)

lemma list_move_dlist:
  assumes "dlist s h (as @ e # bs)" and "dlist s l ys" and "set (h # as @ e # bs) \<inter> set (l # ys) = {}"
  shows "\<exists>s'. list_move e l s = Inr s' \<and> dlist s' h (as @ bs) \<and> dlist s' l (e # ys)"
    and "\<exists>s'. list_move_tail e l s = Inr s' \<and> dlist s' h (as @ bs) \<and> dlist s' l (ys @ [e])"
proof -
  obtain s1 where d: "del_entry e s = Inr s1" "dlist s1 h (as @ bs)" "only_links (set (h # as @ bs)) s s1"
    using del_entry_dlist [OF assms(1)] by blast
  then have y: "dlist s1 l ys"
    using assms(2,3) by (elim only_links_dlist) auto
  have e: "e \<notin> set (l # ys)" "allocated s1 e" "e < brk s1"
    using assms(1,3) d(3) by (auto simp: dlist_def only_links_def)
  have k: "set (h # as @ bs) \<inter> set (e # l # ys) = {}"
    using assms(1,3) by (auto simp: dlist_def)
  show "\<exists>s'. list_move e l s = Inr s' \<and> dlist s' h (as @ bs) \<and> dlist s' l (e # ys)"
    using list_add_only_links(1) [OF y e] d(1) only_links_dlist [OF _ d(2) k] by (auto simp: list_move_def)
  show "\<exists>s'. list_move_tail e l s = Inr s' \<and> dlist s' h (as @ bs) \<and> dlist s' l (ys @ [e])"
    using list_add_only_links(2) [OF y e] d(1) only_links_dlist [OF _ d(2) k] by (auto simp: list_move_tail_def)
qed

lemma list_rotate_left_dlist:
  assumes "dlist s h (x # xs)"
  shows "\<exists>s'. list_rotate_left h s = Inr s' \<and> dlist s' h (xs @ [x])"
proof -
  obtain s1 where d: "del_entry x s = Inr s1" "dlist s1 h xs" "only_links (set (h # xs)) s s1"
    using del_entry_dlist [of s h "[]" x xs] assms by auto
  have "x \<notin> set (h # xs)" "allocated s1 x" "x < brk s1"
    using assms d(3) by (auto simp: dlist_def only_links_def)
  from list_add_only_links(2) [OF d(2) this] obtain s' where
    "list_add_tail x h s1 = Inr s'" "dlist s' h (xs @ [x])"
    by blast
  then show ?thesis
    using d(1) get_next_dlist(1) [OF assms] list_empty_dlist [OF assms]
    by (auto simp: list_rotate_left_def list_move_tail_def)
qed

text \<open>Joining two lists.\<close>

lemma linked_ends:
  assumes "linked s ys" and "\<And>x. x \<in> set (butlast ys) \<Longrightarrow> next_of s' x = next_of s x"
    and "\<And>x. x \<in> set (tl ys) \<Longrightarrow> prev_of s' x = prev_of s x"
  shows "linked s' ys"
  using assms linked_cong [of ys s' s] by blast

lemma splice_between_dlist:
  assumes "dlist s h (as @ bs)" and "dlist s l ys" and "set (h # as @ bs) \<inter> set (l # ys) = {}" and "ys \<noteq> []"
  shows "\<exists>s'. splice_between l (last (h # as)) (hd (bs @ [h])) s = Inr s' \<and> dlist s' h (as @ ys @ bs) \<and>
    only_links (set (h # as @ bs @ ys)) s s'"
proof -
  let ?f = "hd ys" and ?a = "last ys" and ?p = "last (h # as)" and ?n = "hd (bs @ [h])"
  let ?s = "set_prev ?n ?a (set_next ?a ?n (set_next ?p ?f (set_prev ?f ?p s)))"
  have g: "hd (ys @ [l]) = ?f" "last (l # ys) = ?a"
    using assms(4) by simp_all
  have p: "?p \<in> set (h # as)" and n: "?n \<in> set (h # bs)"
    by (rule last_cons_in, rule hd_snoc_in)
  have "linked s ([l] @ ys @ [l])" "linked s ((h # as) @ (bs @ [h]))"
    using assms(1,2) by (auto simp: dlist_linked)
  then have l: "linked s ys" "linked s (h # as)" "linked s (bs @ [h])"
    unfolding linked_append by blast+
  have y: "distinct ys" "?f \<in> set ys" "?a \<in> set ys" "set ys \<inter> set (h # as @ bs) = {}" "distinct (h # as @ bs)"
    using assms by (auto simp: dlist_linked)
  have run: "splice_between l ?p ?n s = Inr ?s"
    by (simp only: splice_between_def get_next_dlist [OF assms(2), unfolded g] bindE_simps Let_def)
  have pb: "?p \<notin> set bs"
    using p y(5) by (auto simp del: last.simps)
  have "linked ?s ys"
    using l(1) ends_distinct [OF y(1) assms(4)] p n y(4)
    by (elim linked_ends) (auto dest: in_set_butlastD list.set_sel(2) [OF assms(4)])
  moreover have "linked ?s (h # as)"
    using l(2) last_cons_butlast [of h as] n y
    by (elim linked_ends) (auto dest: in_set_butlastD split: if_splits)
  moreover have "linked ?s (bs @ [h])"
    using l(3) hd_snoc_tl [of h bs] p pb y
    by (elim linked_ends) (auto simp: butlast_append split: if_splits dest: list.set_sel(2) [of "bs @ [h]", simplified])
  moreover have "?a \<noteq> ?p" "?f \<noteq> ?n"
    using y(2-4) p n by auto
  ultimately have "linked ?s ((h # as) @ ys @ bs @ [h])"
    unfolding linked_append using assms(4) by auto
  then have "dlist ?s h (as @ ys @ bs)"
    using assms(1-3) by (auto simp: dlist_linked)
  moreover have "only_links (set (h # as @ bs @ ys)) s ?s"
    using y(2,3) p n by (auto simp: only_links_def)
  ultimately show ?thesis
    using run by blast
qed

lemma list_splice_dlist:
  assumes "dlist s h xs" and "dlist s l ys" and "set (h # xs) \<inter> set (l # ys) = {}"
  shows "\<exists>s'. list_splice l h s = Inr s' \<and> dlist s' h (ys @ xs) \<and> only_links (set (h # xs @ ys)) s s'"
    and "\<exists>s'. list_splice_tail l h s = Inr s' \<and> dlist s' h (xs @ ys) \<and> only_links (set (h # xs @ ys)) s s'"
  using assms splice_between_dlist [of s h "[]" xs l ys] splice_between_dlist [of s h xs "[]" l ys]
    list_empty_dlist [OF assms(2)] get_next_dlist [OF assms(1)]
  by (cases "ys = []"; force simp: list_splice_def list_splice_tail_def only_links_def)+

lemma INIT_LIST_HEAD_only: "only_links {l} s (INIT_LIST_HEAD l s)"
  by (simp add: only_links_def)

lemma reinit_list:
  assumes "only_links A s s1" and "dlist s1 h xs" and "l \<notin> set (h # xs)" and "allocated s l" and "l < brk s"
  shows "dlist (INIT_LIST_HEAD l s1) h xs" and "dlist (INIT_LIST_HEAD l s1) l []"
  using only_links_dlist [OF INIT_LIST_HEAD_only assms(2)] assms by (auto simp: only_links_def intro: dlist_intros)

lemma list_splice_init_dlist:
  assumes "dlist s h xs" and "dlist s l ys" and "set (h # xs) \<inter> set (l # ys) = {}"
  shows "\<exists>s'. list_splice_init l h s = Inr s' \<and> dlist s' h (ys @ xs) \<and> dlist s' l []"
    and "\<exists>s'. list_splice_tail_init l h s = Inr s' \<and> dlist s' h (xs @ ys) \<and> dlist s' l []"
proof -
  have l: "l \<notin> set (h # ys @ xs)" "l \<notin> set (h # xs @ ys)" "allocated s l" "l < brk s"
    using assms by (auto simp: dlist_def)
  have i: "list_splice_init l h s = (if ys = [] then Inr s else bindE (list_splice l h s) (\<lambda>s. Inr (INIT_LIST_HEAD l s)))"
    "list_splice_tail_init l h s = (if ys = [] then Inr s else bindE (list_splice_tail l h s) (\<lambda>s. Inr (INIT_LIST_HEAD l s)))"
    by (simp_all add: list_splice_init_def list_splice_tail_init_def list_splice_def list_splice_tail_def
        list_empty_dlist [OF assms(2)] bindE_assoc)
  show "\<exists>s'. list_splice_init l h s = Inr s' \<and> dlist s' h (ys @ xs) \<and> dlist s' l []"
    using list_splice_dlist(1) [OF assms] reinit_list [OF _ _ l(1,3,4)] assms(1,2) unfolding i by (cases "ys = []") auto
  show "\<exists>s'. list_splice_tail_init l h s = Inr s' \<and> dlist s' h (xs @ ys) \<and> dlist s' l []"
    using list_splice_dlist(2) [OF assms] reinit_list [OF _ _ l(2,3,4)] assms(1,2) unfolding i by (cases "ys = []") auto
qed

text \<open>Replacing an entry, and moving a whole list to another head.\<close>

lemma list_replace_dlist:
  assumes "dlist s h (as @ old # bs)" and "new \<notin> set (h # as @ old # bs)" and "allocated s new" and "new < brk s"
  shows "\<exists>s'. list_replace old new s = Inr s' \<and> dlist s' h (as @ new # bs)"
proof -
  let ?p = "last (h # as)" and ?n = "hd (bs @ [h])"
  let ?t = "set_prev ?n new (set_next new ?n s)"
  let ?s = "set_next ?p new (set_prev new ?p ?t)"
  have p: "?p \<in> set (h # as)" and n: "?n \<in> set (h # bs)"
    by (rule last_cons_in, rule hd_snoc_in)
  have d: "distinct (h # as @ old # bs)" "allocated s old" "allocated s ?p"
    using assms(1) p by (auto simp: dlist_def simp del: last.simps)
  have "linked s ((h # as) @ [old] @ (bs @ [h]))"
    using assms(1) by (simp add: dlist_linked)
  then have l: "linked s (h # as)" "linked s (bs @ [h])"
    unfolding linked_append by blast+
  have pb: "?p \<notin> set bs" "?p \<noteq> new" "?p \<noteq> old" and nb: "?n \<notin> set as" "?n \<noteq> new" "?n \<noteq> old"
    using p n d assms(2) by (auto simp del: last.simps)
  have "prev_of ?t old = Some ?p" "allocated ?t ?p" "allocated ?t old"
    using dlist_neighbours(2) [OF assms(1)] nb d by simp_all
  then have "get_prev old ?t = Inr ?p"
    by (simp add: get_prev_def deref_def)
  then have run: "list_replace old new s = Inr ?s"
    using assms(3) by (simp only: list_replace_def get_next_entry [OF assms(1)] bindE_simps Let_def) (simp add: deref_def)
  have "linked ?s (h # as)"
    using l(1) last_cons_butlast [of h as] nb n assms(2) d
    by (elim linked_ends) (auto dest: in_set_butlastD split: if_splits)
  moreover have "linked ?s (bs @ [h])"
    using l(2) hd_snoc_tl [of h bs] p pb assms(2) d
    by (elim linked_ends) (auto simp: butlast_append split: if_splits dest: list.set_sel(2) [of "bs @ [h]", simplified])
  ultimately have "linked ?s ((h # as) @ [new] @ (bs @ [h]))"
    unfolding linked_append using pb nb by auto
  then have "dlist ?s h (as @ new # bs)"
    using assms by (auto simp: dlist_linked)
  with run show ?thesis
    by blast
qed

lemma list_replace_init_head:
  assumes "dlist s old xs" and "new \<notin> set (old # xs)" and "allocated s new" and "new < brk s"
  shows "\<exists>s'. list_replace_init old new s = Inr s' \<and> dlist s' new xs \<and> dlist s' old []"
proof -
  let ?n = "hd (xs @ [old])" and ?a = "hd (xs @ [new])" and ?z = "last (new # xs)"
  let ?t = "set_prev ?n new (set_next new ?n s)"
  let ?s = "set_next ?z new (set_prev new ?z ?t)"
  have z: "?z \<in> set (new # xs)" and d: "distinct (old # xs)" "allocated s old" "old < brk s" "allocated s ?z"
    using last_cons_in [of new xs] assms by (auto simp: dlist_def simp del: last.simps)
  have "prev_of ?t old = Some ?z"
    using dlist_head(2) [OF assms(1)] assms(2) d(1) by (cases xs) (auto dest: hd_in_set)
  then have "get_prev old ?t = Inr ?z"
    using d by (simp add: get_prev_def deref_def del: last.simps)
  then have run: "list_replace old new s = Inr ?s"
    using assms(3) by (simp only: list_replace_def get_next_dlist [OF assms(1)] bindE_simps Let_def) (simp add: deref_def)
  have "dlist (INIT_LIST_HEAD old ?s) new xs"
  proof (cases xs)
    case Nil
    with assms show ?thesis by (auto simp: dlist_def)
  next
    case (Cons x ys)
    have "linked s ([old] @ xs @ [old])"
      using assms(1) by (simp add: dlist_linked)
    then have "linked s xs"
      unfolding linked_append by blast
    then have "linked (INIT_LIST_HEAD old ?s) xs"
      using ends_distinct [of xs] d(1) assms(2) Cons
      by (elim linked_ends) (auto dest: in_set_butlastD split: if_splits)
    then have "linked (INIT_LIST_HEAD old ?s) ([new] @ xs @ [new])"
      unfolding linked_append using Cons assms(2) d(1) by auto
    with assms show ?thesis
      by (auto simp: dlist_linked)
  qed
  moreover have "dlist (INIT_LIST_HEAD old ?s) old []"
    using d by (simp add: dlist_def)
  ultimately show ?thesis
    using run by (simp add: list_replace_init_def)
qed

text \<open>Cutting a list in two.\<close>

lemma list_is_singular_dlist:
  assumes "dlist s h xs"
  shows "list_is_singular h s = Inr (length xs = 1)"
proof (cases xs)
  case Nil
  with list_empty_dlist [OF assms] show ?thesis
    by (simp add: list_is_singular_def)
next
  case (Cons a ys)
  have "a = last (a # ys) \<longleftrightarrow> ys = []"
    using assms Cons by (auto simp: dlist_def)
  then have "next_of s h = prev_of s h \<longleftrightarrow> length xs = 1"
    using dlist_head(1,2) [OF assms] Cons by simp
  with list_empty_dlist [OF assms] Cons show ?thesis
    by (simp add: list_is_singular_def)
qed

lemma list_cut_position_dlist:
  assumes "dlist s h (as @ e # bs)" and "l \<notin> set (h # as @ e # bs)" and "allocated s l" and "l < brk s"
  shows "\<exists>s'. list_cut_position l h e s = Inr s' \<and> dlist s' l (as @ [e]) \<and> dlist s' h bs"
proof -
  let ?f = "hd (as @ [e])" and ?n = "hd (bs @ [h])"
  let ?s = "set_prev ?n h (set_next h ?n (set_next e l (set_prev l e (set_prev ?f l (set_next l ?f s)))))"
  have d: "distinct (h # as @ e # bs)"
    using assms(1) by (simp add: dlist_def)
  have f: "?f \<in> set (as @ [e])" and n: "?n \<in> set (h # bs)"
    by (cases as, simp_all only: hd_snoc_in) simp_all
  have "hd ((as @ e # bs) @ [h]) = ?f"
    by (cases as) simp_all
  then have "cut_position l h e s = Inr ?s"
    by (simp add: cut_position_def get_next_dlist [OF assms(1)] get_next_entry [OF assms(1)] Let_def)
  moreover have "length (as @ e # bs) = 1 \<Longrightarrow> next_of s h = Some e"
    using dlist_head(1) [OF assms(1)] by simp
  ultimately have run: "list_cut_position l h e s = Inr ?s"
    using d by (auto simp: list_cut_position_def list_empty_dlist [OF assms(1)] list_is_singular_dlist [OF assms(1)])
  have "linked s ([h] @ (as @ [e]) @ (bs @ [h]))"
    using assms(1) by (simp add: dlist_linked)
  then have k: "linked s (as @ [e])" "linked s (bs @ [h])"
    unfolding linked_append by blast+
  have "linked ?s (as @ [e])"
    using k(1) ends_distinct [of "as @ [e]"] d assms(2) n
    by (elim linked_ends) (auto simp: butlast_append dest: list.set_sel(2) [of "as @ [e]", simplified])
  moreover have "linked ?s (bs @ [h])"
    using k(2) hd_snoc_tl [of h bs] d assms(2) f
    by (elim linked_ends) (auto simp: butlast_append split: if_splits dest: list.set_sel(2) [of "bs @ [h]", simplified])
  moreover have "?n \<noteq> l" "?n \<noteq> ?f" "?f \<noteq> l" "hd (as @ [e, l]) = ?f"
    using n f d assms(2) by (auto simp: hd_append)
  ultimately have "linked ?s ([l] @ (as @ [e]) @ [l])" "linked ?s ([h] @ (bs @ [h]))"
    unfolding linked_append using d assms(2) n by auto
  then have "dlist ?s l (as @ [e])" "dlist ?s h bs"
    using assms by (auto simp: dlist_linked)
  with run show ?thesis
    by blast
qed

section \<open>Walks\<close>

text \<open>
  The plain walks read the link of the entry they are at after the body has run. \<open>list_entry\<close> is the
  identity on addresses, so the variants over entries are the same loops; they differ in the direction
  and in where they start. As in \<open>for_each_safe\<close>, the loop is bounded by a fuel argument above the
  number of addresses ever handed out, which no walk over a proper list uses up.
\<close>

fun each ::
  "nat \<Rightarrow> (addr \<Rightarrow> 'd store \<Rightarrow> addr res) \<Rightarrow> addr \<Rightarrow> (addr \<Rightarrow> 'd store \<Rightarrow> ('r option \<times> 'd store) res) \<Rightarrow> addr \<Rightarrow>
   'd store \<Rightarrow> ('r option \<times> 'd store) res" where
  "each 0 step head body pos s = Inl Diverges"
| "each (Suc fuel) step head body pos s =
     (if pos = head then Inr (None, s)
      else bindE (body pos s) (\<lambda>(r, s).
           case r of
             Some v \<Rightarrow> Inr (Some v, s)
           | None \<Rightarrow> bindE (step pos s) (\<lambda>pos. each fuel step head body pos s)))"

definition list_for_each ::
  "addr \<Rightarrow> (addr \<Rightarrow> 'd store \<Rightarrow> ('r option \<times> 'd store) res) \<Rightarrow> 'd store \<Rightarrow> ('r option \<times> 'd store) res" where
  "list_for_each head body s = bindE (get_next head s) (\<lambda>pos. each (Suc (brk s)) get_next head body pos s)"

definition list_for_each_prev ::
  "addr \<Rightarrow> (addr \<Rightarrow> 'd store \<Rightarrow> ('r option \<times> 'd store) res) \<Rightarrow> 'd store \<Rightarrow> ('r option \<times> 'd store) res" where
  "list_for_each_prev head body s = bindE (get_prev head s) (\<lambda>pos. each (Suc (brk s)) get_prev head body pos s)"

definition list_for_each_entry_continue ::
  "addr \<Rightarrow> addr \<Rightarrow> (addr \<Rightarrow> 'd store \<Rightarrow> ('r option \<times> 'd store) res) \<Rightarrow> 'd store \<Rightarrow> ('r option \<times> 'd store) res" where
  "list_for_each_entry_continue pos head body s =
     bindE (get_next pos s) (\<lambda>pos. each (Suc (brk s)) get_next head body pos s)"

definition list_for_each_entry_continue_reverse ::
  "addr \<Rightarrow> addr \<Rightarrow> (addr \<Rightarrow> 'd store \<Rightarrow> ('r option \<times> 'd store) res) \<Rightarrow> 'd store \<Rightarrow> ('r option \<times> 'd store) res" where
  "list_for_each_entry_continue_reverse pos head body s =
     bindE (get_prev pos s) (\<lambda>pos. each (Suc (brk s)) get_prev head body pos s)"

definition list_for_each_entry_from ::
  "addr \<Rightarrow> addr \<Rightarrow> (addr \<Rightarrow> 'd store \<Rightarrow> ('r option \<times> 'd store) res) \<Rightarrow> 'd store \<Rightarrow> ('r option \<times> 'd store) res" where
  "list_for_each_entry_from pos head body s = each (Suc (brk s)) get_next head body pos s"

text \<open>
  The walks that allow the body to remove the entry they are at read the link to the next one before the
  body runs. \<open>list_for_each_entry_safe_continue\<close> and \<open>list_for_each_entry_safe_from\<close> go forwards from an
  entry with the loop of \<open>list_for_each_safe\<close>; \<open>list_for_each_prev_safe\<close> and
  \<open>list_for_each_entry_safe_reverse\<close> go backwards.
\<close>

fun for_each_prev_safe ::
  "nat \<Rightarrow> addr \<Rightarrow> (addr \<Rightarrow> 'd store \<Rightarrow> ('r option \<times> 'd store) res) \<Rightarrow> addr \<Rightarrow> addr option \<Rightarrow>
   'd store \<Rightarrow> ('r option \<times> 'd store) res" where
  "for_each_prev_safe 0 head body pos n s = Inl Diverges"
| "for_each_prev_safe (Suc fuel) head body pos n s =
     (if pos = head then Inr (None, s)
      else bindE (body pos s) (\<lambda>(r, s).
           case r of
             Some v \<Rightarrow> Inr (Some v, s)
           | None \<Rightarrow> bindE (deref n s) (\<lambda>pos. for_each_prev_safe fuel head body pos (prev_of s pos) s)))"

definition list_for_each_prev_safe ::
  "addr \<Rightarrow> (addr \<Rightarrow> 'd store \<Rightarrow> ('r option \<times> 'd store) res) \<Rightarrow> 'd store \<Rightarrow> ('r option \<times> 'd store) res" where
  "list_for_each_prev_safe head body s =
     bindE (get_prev head s) (\<lambda>pos. for_each_prev_safe (Suc (brk s)) head body pos (prev_of s pos) s)"

definition list_for_each_entry_safe_continue ::
  "addr \<Rightarrow> addr \<Rightarrow> (addr \<Rightarrow> 'd store \<Rightarrow> ('r option \<times> 'd store) res) \<Rightarrow> 'd store \<Rightarrow> ('r option \<times> 'd store) res" where
  "list_for_each_entry_safe_continue pos head body s =
     bindE (get_next pos s) (\<lambda>pos. for_each_safe (Suc (brk s)) head body pos (next_of s pos) s)"

definition list_for_each_entry_safe_from ::
  "addr \<Rightarrow> addr \<Rightarrow> (addr \<Rightarrow> 'd store \<Rightarrow> ('r option \<times> 'd store) res) \<Rightarrow> 'd store \<Rightarrow> ('r option \<times> 'd store) res" where
  "list_for_each_entry_safe_from pos head body s =
     bindE (get_next pos s) (\<lambda>n. for_each_safe (Suc (brk s)) head body pos (Some n) s)"

definition list_first_entry :: "addr \<Rightarrow> 'd store \<Rightarrow> addr res" where
  "list_first_entry ptr s = get_next ptr s"

definition list_prepare_entry :: "addr option \<Rightarrow> addr \<Rightarrow> addr" where
  "list_prepare_entry pos head = (case pos of Some p \<Rightarrow> p | None \<Rightarrow> head)"

definition list_safe_reset_next :: "addr \<Rightarrow> 'd store \<Rightarrow> addr res" where
  "list_safe_reset_next pos s = get_next pos s"

text \<open>A body that looks and updates payloads but leaves the list as it is.\<close>

definition keeps_list :: "addr \<Rightarrow> addr list \<Rightarrow> (addr \<Rightarrow> 'd store \<Rightarrow> ('r option \<times> 'd store) res) \<Rightarrow> bool" where
  "keeps_list h xs body \<longleftrightarrow> (\<forall>s x r s'. dlist s h xs \<longrightarrow> body x s = Inr (r, s') \<longrightarrow> dlist s' h xs)"

lemma each_next_walk:
  assumes "keeps_list h xs body" and "dlist s h xs" and "xs = as @ bs" and "length bs < fuel"
  shows "each fuel get_next h body (hd (bs @ [h])) s = walk body bs s"
  using assms(2-4)
proof (induction bs arbitrary: as fuel s)
  case Nil
  then show ?case by (cases fuel) auto
next
  case (Cons b bs)
  obtain f where f: "fuel = Suc f" "length bs < f"
    using Cons.prems(3) by (cases fuel) auto
  have b: "b \<noteq> h"
    using Cons.prems(1,2) by (auto simp: dlist_def)
  have step: "each f get_next h body (hd (bs @ [h])) s' = walk body bs s' \<and> get_next b s' = Inr (hd (bs @ [h]))"
    if "body b s = Inr (None, s')" for s'
  proof -
    have d: "dlist s' h xs"
      using assms(1) that Cons.prems(1) by (auto simp: keeps_list_def)
    then show ?thesis
      using Cons.IH [OF d, of "as @ [b]" f] Cons.prems(2) f(2) get_next_entry(1) [of s' h as b bs] by simp
  qed
  show ?case
    using b f(1) step by (cases "body b s") (auto split: option.split)
qed

lemma each_prev_walk:
  assumes "keeps_list h xs body" and "dlist s h xs" and "xs = as @ bs" and "length as < fuel"
  shows "each fuel get_prev h body (last (h # as)) s = walk body (rev as) s"
  using assms(2-4)
proof (induction as arbitrary: bs fuel s rule: rev_induct)
  case Nil
  then show ?case by (cases fuel) auto
next
  case (snoc a as)
  obtain f where f: "fuel = Suc f" "length as < f"
    using snoc.prems(3) by (cases fuel) auto
  have a: "a \<noteq> h"
    using snoc.prems(1,2) by (auto simp: dlist_def)
  have step: "each f get_prev h body (last (h # as)) s' = walk body (rev as) s' \<and> get_prev a s' = Inr (last (h # as))"
    if "body a s = Inr (None, s')" for s'
  proof -
    have d: "dlist s' h xs"
      using assms(1) that snoc.prems(1) by (auto simp: keeps_list_def)
    then show ?thesis
      using snoc.IH [OF d, of "a # bs" f] snoc.prems(2) f(2) get_next_entry(2) [of s' h as a bs] by simp
  qed
  show ?case
    using a f(1) step by (cases "body a s") (auto split: option.split)
qed

text \<open>
  A safe walk backwards: only the entries before the one the body is at have to stay linked.
\<close>

definition removal_safe_back :: "addr \<Rightarrow> (addr \<Rightarrow> 'd store \<Rightarrow> ('r option \<times> 'd store) res) \<Rightarrow> bool" where
  "removal_safe_back h body \<longleftrightarrow> (\<forall>s xs x qs r s'. dlist s h (xs @ x # qs) \<longrightarrow> body x s = Inr (r, s') \<longrightarrow>
     (\<exists>qs'. dlist s' h (xs @ qs')))"

lemma for_each_prev_safe_walk:
  assumes safe: "removal_safe_back h body"
    and "dlist s h (xs @ qs)" and "length xs < fuel"
  shows "for_each_prev_safe fuel h body (last (h # xs)) (prev_of s (last (h # xs))) s = walk body (rev xs) s"
  using assms(2,3)
proof (induction xs arbitrary: fuel qs s rule: rev_induct)
  case Nil
  then show ?case
    by (cases fuel) auto
next
  case (snoc x xs)
  obtain f where fuel: "fuel = Suc f"
    using snoc.prems(2) by (cases fuel) auto
  have x: "x \<noteq> h" and n: "prev_of s x = Some (last (h # xs))"
    using snoc.prems(1) dlist_neighbours(2) [of s h xs x qs] by (auto simp: dlist_def)
  have step: "deref (Some (last (h # xs))) s' = Inr (last (h # xs)) \<and>
      for_each_prev_safe f h body (last (h # xs)) (prev_of s' (last (h # xs))) s' = walk body (rev xs) s'"
    if b: "body x s = Inr (r, s')" for r s'
  proof -
    have "dlist s h (xs @ x # qs)"
      using snoc.prems(1) by simp
    then obtain qs' where d: "dlist s' h (xs @ qs')"
      using safe b unfolding removal_safe_back_def by blast
    have "last (h # xs) \<in> set (h # xs @ qs')"
      by (cases xs rule: rev_cases) auto
    then show ?thesis
      using d snoc.prems(2) fuel snoc.IH [OF d, of f] by (auto simp: deref_def dlist_def)
  qed
  show ?case
    using x n fuel step by (cases "body x s") (auto split: option.split)
qed

lemma list_for_each_prev_safe_walk:
  assumes "removal_safe_back h body" and "dlist s h xs"
  shows "list_for_each_prev_safe h body s = walk body (rev xs) s"
  using for_each_prev_safe_walk [OF assms(1), of s xs "[]" "Suc (brk s)"] assms(2) get_next_dlist [OF assms(2)]
    dlist_lengths [OF assms(2)]
  by (simp add: list_for_each_prev_safe_def del: for_each_prev_safe.simps)

lemma safe_walks_from_entry:
  assumes "removal_safe h body" and "dlist s h (as @ x # bs)"
  shows "list_for_each_entry_safe_continue x h body s = walk body bs s"
    and "list_for_each_entry_safe_from x h body s = walk body (x # bs) s"
proof -
  have n: "length (as @ x # bs) < brk s"
    by (rule dlist_lengths [OF assms(2)])
  show "list_for_each_entry_safe_continue x h body s = walk body bs s"
    using for_each_safe_walk [OF assms(1), of s "as @ [x]" bs "Suc (brk s)"] assms(2) get_next_entry(1) [OF assms(2)] n
    by (simp add: list_for_each_entry_safe_continue_def del: for_each_safe.simps)
  show "list_for_each_entry_safe_from x h body s = walk body (x # bs) s"
    using for_each_safe_walk [OF assms(1), of s as "x # bs" "Suc (brk s)"] assms(2) get_next_entry(1) [OF assms(2)] n
      dlist_neighbours(1) [OF assms(2)]
    by (simp add: list_for_each_entry_safe_from_def del: for_each_safe.simps walk.simps)
qed

section \<open>Properties\<close>

text \<open>
  C22. The walks visit what they promise, once and in order, and end. On a proper list, with a body that
  leaves the links alone, \<open>list_for_each\<close> runs over the entries from first to last, \<open>list_for_each_prev\<close>
  from last to first, and the variants that continue from an entry over what lies after it (or before
  it, backwards), or over it and what lies after it. The safe variants do the same with a body that may
  remove the entry it is at, as long as the entries still to come stay linked.
\<close>

theorem walks_visit_in_order:
  assumes "dlist s h (as @ x # bs)"
  shows "(keeps_list h (as @ x # bs) body \<longrightarrow>
      list_for_each h body s = walk body (as @ x # bs) s \<and>
      list_for_each_prev h body s = walk body (rev (as @ x # bs)) s \<and>
      list_for_each_entry_continue x h body s = walk body bs s \<and>
      list_for_each_entry_continue_reverse x h body s = walk body (rev as) s \<and>
      list_for_each_entry_from x h body s = walk body (x # bs) s) \<and>
    (removal_safe h body \<longrightarrow>
      list_for_each_safe h body s = walk body (as @ x # bs) s \<and>
      list_for_each_entry_safe_continue x h body s = walk body bs s \<and>
      list_for_each_entry_safe_from x h body s = walk body (x # bs) s) \<and>
    (removal_safe_back h body \<longrightarrow> list_for_each_prev_safe h body s = walk body (rev (as @ x # bs)) s)"
proof (intro conjI impI)
  let ?xs = "as @ x # bs"
  have n: "length ?xs < brk s"
    by (rule dlist_lengths [OF assms])
  assume keeps: "keeps_list h ?xs body"
  note f = each_next_walk [OF keeps assms] and p = each_prev_walk [OF keeps assms]
  note g = get_next_dlist [OF assms] get_next_entry [OF assms]
  note d = list_for_each_def list_for_each_prev_def list_for_each_entry_continue_def
    list_for_each_entry_continue_reverse_def list_for_each_entry_from_def
  show "list_for_each h body s = walk body ?xs s" and "list_for_each_prev h body s = walk body (rev ?xs) s"
    and "list_for_each_entry_continue x h body s = walk body bs s"
    and "list_for_each_entry_continue_reverse x h body s = walk body (rev as) s"
    and "list_for_each_entry_from x h body s = walk body (x # bs) s"
    using f [of "[]" ?xs "Suc (brk s)"] p [of ?xs "[]" "Suc (brk s)"] f [of "as @ [x]" bs "Suc (brk s)"]
      p [of as "x # bs" "Suc (brk s)"] f [of as "x # bs" "Suc (brk s)"] n g
    by (simp_all add: d del: each.simps(2) walk.simps(2))
qed (use safe_walks_from_entry [OF _ assms] list_for_each_safe_walk [OF _ assms] list_for_each_prev_safe_walk [OF _ assms] in blast)+

text \<open>A list of two entries, with head 0; addresses 1 and 2 are its entries, 3 is an empty list.\<close>

definition two_lists :: "nat store" where
  "two_lists = \<lparr>next_of = (\<lambda>a. if a = 0 then Some 1 else if a = 1 then Some 2 else if a = 2 then Some 0 else if a = 3 then Some 3 else None),
     prev_of = (\<lambda>a. if a = 0 then Some 2 else if a = 1 then Some 0 else if a = 2 then Some 1 else if a = 3 then Some 3 else None),
     payload = (\<lambda>a. 10 * a), allocated = (\<lambda>a. a < 5), brk = 5\<rparr>"

lemma two_lists_dlist: "dlist two_lists 0 [1, 2]" "dlist two_lists 3 []"
  by (simp_all add: dlist_def two_lists_def)

text \<open>The first entry whose payload is above 15.\<close>

definition find_big :: "addr \<Rightarrow> nat store \<Rightarrow> (addr option \<times> nat store) res" where
  "find_big a s = Inr (if payload s a > 15 then Some a else None, s)"

theorem walks_visit_in_order_witness:
  "list_for_each 0 find_big two_lists = Inr (Some 2, two_lists) \<and>
   list_for_each_entry_continue_reverse 2 0 find_big two_lists = Inr (None, two_lists) \<and>
   list_for_each_prev_safe 0 find_big two_lists = Inr (Some 2, two_lists)"
proof -
  have "dlist two_lists 0 ([1] @ 2 # [])"
    using two_lists_dlist(1) by simp
  moreover have "keeps_list 0 ([1] @ 2 # []) find_big"
    by (simp add: keeps_list_def find_big_def)
  moreover have "removal_safe_back 0 find_big"
    unfolding removal_safe_back_def find_big_def by blast
  ultimately show ?thesis
    using walks_visit_in_order [of two_lists 0 "[1]" 2 "[]" find_big] by (simp add: find_big_def two_lists_def)
qed

text \<open>
  C21. Cutting a list after an entry and splicing the front part back in is the identity on the contents:
  \<open>list_cut_position\<close> leaves the entries up to and including the chosen one in the new list and the rest in
  the old one, in order, and \<open>list_splice_init\<close> at the head of the rest restores the list and leaves the
  other one empty and usable.
\<close>

theorem cut_and_splice_back:
  assumes "dlist s h (as @ e # bs)" and "l \<notin> set (h # as @ e # bs)" and "allocated s l" and "l < brk s"
  shows "\<exists>s1 s2. list_cut_position l h e s = Inr s1 \<and> dlist s1 l (as @ [e]) \<and> dlist s1 h bs \<and>
    list_splice_init l h s1 = Inr s2 \<and> dlist s2 h (as @ e # bs) \<and> dlist s2 l []"
proof -
  obtain s1 where c: "list_cut_position l h e s = Inr s1" "dlist s1 l (as @ [e])" "dlist s1 h bs"
    using list_cut_position_dlist [OF assms] by blast
  have "set (h # bs) \<inter> set (l # as @ [e]) = {}"
    using assms(1,2) by (auto simp: dlist_def)
  from list_splice_init_dlist(1) [OF c(3,2) this] c show ?thesis
    by auto
qed

theorem cut_and_splice_back_witness:
  "\<exists>s1 s2. list_cut_position 3 0 1 two_lists = Inr s1 \<and> dlist s1 3 [1] \<and> dlist s1 0 [2] \<and>
    list_splice_init 3 0 s1 = Inr s2 \<and> dlist s2 0 [1, 2] \<and> dlist s2 3 []"
proof -
  have "dlist two_lists 0 ([] @ 1 # [2])" "(3 :: nat) \<notin> set (0 # [] @ 1 # [2])" "allocated two_lists 3" "3 < brk two_lists"
    using two_lists_dlist(1) by (simp_all add: two_lists_def)
  from cut_and_splice_back [OF this] show ?thesis
    by simp
qed

text \<open>
  Entries move between lists as between queues: on two disjoint lists \<open>list_move\<close> takes an entry out of
  the one and puts it first in the other, \<open>list_move_tail\<close> puts it last, \<open>list_splice_tail_init\<close> appends the
  whole other list and empties it, \<open>list_rotate_left\<close> moves the first entry to the end, and
  \<open>list_replace_init\<close> hands all entries of a list over to a new head.
\<close>

theorem lists_move_like_queues:
  assumes "dlist s h (as @ e # bs)" and "dlist s l ys" and "set (h # as @ e # bs) \<inter> set (l # ys) = {}"
  shows "(\<exists>s'. list_move e l s = Inr s' \<and> dlist s' h (as @ bs) \<and> dlist s' l (e # ys)) \<and>
    (\<exists>s'. list_move_tail e l s = Inr s' \<and> dlist s' h (as @ bs) \<and> dlist s' l (ys @ [e])) \<and>
    (\<exists>s'. list_splice_tail_init l h s = Inr s' \<and> dlist s' h (as @ e # bs @ ys) \<and> dlist s' l []) \<and>
    (\<exists>s'. list_rotate_left h s = Inr s' \<and> dlist s' h (tl (as @ e # bs) @ [hd (as @ e # bs)])) \<and>
    (\<forall>g. g \<notin> set (h # as @ e # bs) \<and> allocated s g \<and> g < brk s \<longrightarrow>
       (\<exists>s'. list_replace_init h g s = Inr s' \<and> dlist s' g (as @ e # bs) \<and> dlist s' h []))"
proof (intro conjI allI impI)
  have "as @ e # bs = hd (as @ e # bs) # tl (as @ e # bs)"
    by simp
  with assms(1) have "dlist s h (hd (as @ e # bs) # tl (as @ e # bs))"
    by metis
  then show "\<exists>s'. list_rotate_left h s = Inr s' \<and> dlist s' h (tl (as @ e # bs) @ [hd (as @ e # bs)])"
    by (rule list_rotate_left_dlist)
next
  fix g
  assume "g \<notin> set (h # as @ e # bs) \<and> allocated s g \<and> g < brk s"
  then show "\<exists>s'. list_replace_init h g s = Inr s' \<and> dlist s' g (as @ e # bs) \<and> dlist s' h []"
    using list_replace_init_head [OF assms(1)] by blast
qed (use list_move_dlist [OF assms] list_splice_init_dlist(2) [OF assms] in auto)

theorem lists_move_like_queues_witness:
  "\<exists>s'. list_move 2 3 two_lists = Inr s' \<and> dlist s' 0 [1] \<and> dlist s' 3 [2]"
proof -
  have "dlist two_lists 0 ([1] @ 2 # [])" "set (0 # [1] @ 2 # []) \<inter> set ((3 :: nat) # []) = {}"
    using two_lists_dlist(1) by simp_all
  from lists_move_like_queues [OF this(1) two_lists_dlist(2) this(2)] show ?thesis
    by simp
qed

end
