(* ===== verification/Hlist.thy ===== *)
theory Hlist
  imports LinkedList
begin

text \<open>
  include/list.h, the lists with a single-pointer head (\<open>hlist_head\<close>, \<open>hlist_node\<close>). The field \<open>pprev\<close>
  of a node holds the address of the pointer that points to it, which is the \<open>first\<close> field of a head or
  the \<open>next\<close> field of a node: such an address is a \<open>slot\<close>. The store maps heads and nodes to their fields;
  nothing here allocates or frees, so the only fault is a NULL pointer followed.
\<close>

section \<open>The operations\<close>

datatype slot = First addr | Next addr

record hstore =
  first_of :: "addr \<Rightarrow> addr option"
  hnext_of :: "addr \<Rightarrow> addr option"
  pprev_of :: "addr \<Rightarrow> slot option"

definition fetch :: "slot \<Rightarrow> hstore \<Rightarrow> addr option" where
  "fetch p s = (case p of First h \<Rightarrow> first_of s h | Next n \<Rightarrow> hnext_of s n)"

definition assign :: "slot \<Rightarrow> addr option \<Rightarrow> hstore \<Rightarrow> hstore" where
  "assign p v s = (case p of
     First h \<Rightarrow> s\<lparr>first_of := (first_of s)(h := v)\<rparr>
   | Next n \<Rightarrow> s\<lparr>hnext_of := (hnext_of s)(n := v)\<rparr>)"

definition set_pprev :: "addr \<Rightarrow> slot option \<Rightarrow> hstore \<Rightarrow> hstore" where
  "set_pprev n p s = s\<lparr>pprev_of := (pprev_of s)(n := p)\<rparr>"

definition INIT_HLIST_HEAD :: "addr \<Rightarrow> hstore \<Rightarrow> hstore" where
  "INIT_HLIST_HEAD h s = assign (First h) None s"

definition INIT_HLIST_NODE :: "addr \<Rightarrow> hstore \<Rightarrow> hstore" where
  "INIT_HLIST_NODE h s = set_pprev h None (assign (Next h) None s)"

definition hlist_unhashed :: "addr \<Rightarrow> hstore \<Rightarrow> bool" where
  "hlist_unhashed h s = (pprev_of s h = None)"

definition hlist_empty :: "addr \<Rightarrow> hstore \<Rightarrow> bool" where
  "hlist_empty h s = (first_of s h = None)"

definition hlist_unlink :: "addr \<Rightarrow> hstore \<Rightarrow> hstore res" where
  "hlist_unlink n s =
     (let next = hnext_of s n
      in case pprev_of s n of
           None \<Rightarrow> Inl NullPointer
         | Some pprev \<Rightarrow>
             let s = assign pprev next s
             in Inr (case next of None \<Rightarrow> s | Some x \<Rightarrow> set_pprev x (Some pprev) s))"

definition hlist_del :: "addr \<Rightarrow> hstore \<Rightarrow> hstore res" where
  "hlist_del n s = bindE (hlist_unlink n s) (\<lambda>s. Inr (set_pprev n None (assign (Next n) None s)))"

definition hlist_del_init :: "addr \<Rightarrow> hstore \<Rightarrow> hstore res" where
  "hlist_del_init n s =
     (if \<not> hlist_unhashed n s then bindE (hlist_unlink n s) (\<lambda>s. Inr (INIT_HLIST_NODE n s)) else Inr s)"

definition hlist_add_head :: "addr \<Rightarrow> addr \<Rightarrow> hstore \<Rightarrow> hstore" where
  "hlist_add_head n h s =
     (let first = first_of s h;
          s = assign (Next n) first s;
          s = (case first of None \<Rightarrow> s | Some x \<Rightarrow> set_pprev x (Some (Next n)) s);
          s = assign (First h) (Some n) s
      in set_pprev n (Some (First h)) s)"

definition hlist_add_before :: "addr \<Rightarrow> addr \<Rightarrow> hstore \<Rightarrow> hstore res" where
  "hlist_add_before n next s =
     (let s = set_pprev n (pprev_of s next) s;
          s = assign (Next n) (Some next) s;
          s = set_pprev next (Some (Next n)) s
      in case pprev_of s n of None \<Rightarrow> Inl NullPointer | Some p \<Rightarrow> Inr (assign p (Some n) s))"

definition hlist_add_after :: "addr \<Rightarrow> addr \<Rightarrow> hstore \<Rightarrow> hstore" where
  "hlist_add_after n next s =
     (let s = assign (Next next) (hnext_of s n) s;
          s = assign (Next n) (Some next) s;
          s = set_pprev next (Some (Next n)) s
      in case hnext_of s next of None \<Rightarrow> s | Some x \<Rightarrow> set_pprev x (Some (Next next)) s)"

definition hlist_add_fake :: "addr \<Rightarrow> hstore \<Rightarrow> hstore" where
  "hlist_add_fake n s = set_pprev n (Some (Next n)) s"

definition hlist_move_list :: "addr \<Rightarrow> addr \<Rightarrow> hstore \<Rightarrow> hstore" where
  "hlist_move_list old new_node s =
     (let s = assign (First new_node) (first_of s old) s;
          s = (case first_of s new_node of None \<Rightarrow> s | Some x \<Rightarrow> set_pprev x (Some (First new_node)) s)
      in assign (First old) None s)"

text \<open>
  The walks. \<open>hlist_for_each\<close> reads the link of a node after the body has run on it,
  \<open>hlist_for_each_safe\<close> before. The entry variants add \<open>hlist_entry\<close>, the identity here.
\<close>

fun hlist_each ::
  "nat \<Rightarrow> (addr \<Rightarrow> hstore \<Rightarrow> ('r option \<times> hstore) res) \<Rightarrow> addr option \<Rightarrow> hstore \<Rightarrow> ('r option \<times> hstore) res" where
  "hlist_each 0 body pos s = Inl Diverges"
| "hlist_each (Suc fuel) body pos s =
     (case pos of
        None \<Rightarrow> Inr (None, s)
      | Some x \<Rightarrow> bindE (body x s) (\<lambda>(r, s).
          case r of Some v \<Rightarrow> Inr (Some v, s) | None \<Rightarrow> hlist_each fuel body (hnext_of s x) s))"

fun hlist_each_safe ::
  "nat \<Rightarrow> (addr \<Rightarrow> hstore \<Rightarrow> ('r option \<times> hstore) res) \<Rightarrow> addr option \<Rightarrow> hstore \<Rightarrow> ('r option \<times> hstore) res" where
  "hlist_each_safe 0 body pos s = Inl Diverges"
| "hlist_each_safe (Suc fuel) body pos s =
     (case pos of
        None \<Rightarrow> Inr (None, s)
      | Some x \<Rightarrow> let n = hnext_of s x
          in bindE (body x s) (\<lambda>(r, s).
             case r of Some v \<Rightarrow> Inr (Some v, s) | None \<Rightarrow> hlist_each_safe fuel body n s))"

definition hlist_for_each ::
  "nat \<Rightarrow> addr \<Rightarrow> (addr \<Rightarrow> hstore \<Rightarrow> ('r option \<times> hstore) res) \<Rightarrow> hstore \<Rightarrow> ('r option \<times> hstore) res" where
  "hlist_for_each fuel head body s = hlist_each fuel body (first_of s head) s"

definition hlist_for_each_safe ::
  "nat \<Rightarrow> addr \<Rightarrow> (addr \<Rightarrow> hstore \<Rightarrow> ('r option \<times> hstore) res) \<Rightarrow> hstore \<Rightarrow> ('r option \<times> hstore) res" where
  "hlist_for_each_safe fuel head body s = hlist_each_safe fuel body (first_of s head) s"

definition hlist_for_each_entry_continue ::
  "nat \<Rightarrow> addr \<Rightarrow> (addr \<Rightarrow> hstore \<Rightarrow> ('r option \<times> hstore) res) \<Rightarrow> hstore \<Rightarrow> ('r option \<times> hstore) res" where
  "hlist_for_each_entry_continue fuel pos body s = hlist_each fuel body (hnext_of s pos) s"

definition hlist_for_each_entry_from ::
  "nat \<Rightarrow> addr option \<Rightarrow> (addr \<Rightarrow> hstore \<Rightarrow> ('r option \<times> hstore) res) \<Rightarrow> hstore \<Rightarrow> ('r option \<times> hstore) res" where
  "hlist_for_each_entry_from fuel pos body s = hlist_each fuel body pos s"

section \<open>The list behind a slot\<close>

text \<open>
  \<open>hpre s p xs\<close>: starting with the pointer in slot \<open>p\<close> the nodes \<open>xs\<close> follow, each with the right \<open>pprev\<close>;
  the list goes on in the slot \<open>tip p xs\<close>. \<open>hlist s h xs\<close>: the head \<open>h\<close> holds exactly the nodes \<open>xs\<close>.
\<close>

fun hpre :: "hstore \<Rightarrow> slot \<Rightarrow> addr list \<Rightarrow> bool" where
  "hpre s p [] = True"
| "hpre s p (x # xs) \<longleftrightarrow> fetch p s = Some x \<and> pprev_of s x = Some p \<and> hpre s (Next x) xs"

fun tip :: "slot \<Rightarrow> addr list \<Rightarrow> slot" where
  "tip p [] = p"
| "tip p (x # xs) = tip (Next x) xs"

definition hseg :: "hstore \<Rightarrow> slot \<Rightarrow> addr list \<Rightarrow> bool" where
  "hseg s p xs \<longleftrightarrow> hpre s p xs \<and> fetch (tip p xs) s = None"

definition hlist :: "hstore \<Rightarrow> addr \<Rightarrow> addr list \<Rightarrow> bool" where
  "hlist s h xs \<longleftrightarrow> hseg s (First h) xs \<and> distinct xs"

lemma slot_image [simp]: "Next x \<in> Next ` A \<longleftrightarrow> x \<in> A" "First h \<notin> Next ` A"
  by auto

lemma hpre_append: "hpre s p (xs @ ys) \<longleftrightarrow> hpre s p xs \<and> hpre s (tip p xs) ys"
  by (induction xs arbitrary: p) auto

lemma tip_append [simp]: "tip p (xs @ ys) = tip (tip p xs) ys"
  by (induction xs arbitrary: p) auto

lemma tip_cases: "tip p xs = p \<and> xs = [] \<or> (\<exists>x\<in>set xs. tip p xs = Next x)"
proof (cases xs rule: rev_cases)
  case (snoc ys y)
  then show ?thesis by auto
qed auto

lemma hseg_Cons: "hseg s p (x # xs) \<longleftrightarrow> fetch p s = Some x \<and> pprev_of s x = Some p \<and> hseg s (Next x) xs"
  by (auto simp: hseg_def)

lemma hseg_append: "hseg s p (xs @ ys) \<longleftrightarrow> hpre s p xs \<and> hseg s (tip p xs) ys"
  by (auto simp: hseg_def hpre_append)

lemma hpre_cong:
  assumes "fetch p s' = fetch p s \<or> xs = []" and "\<And>x. x \<in> set (butlast xs) \<Longrightarrow> hnext_of s' x = hnext_of s x"
    and "\<And>x. x \<in> set xs \<Longrightarrow> pprev_of s' x = pprev_of s x"
  shows "hpre s' p xs = hpre s p xs"
  using assms
proof (induction xs arbitrary: p)
  case (Cons x xs)
  have "hpre s' (Next x) xs = hpre s (Next x) xs"
  proof (rule Cons.IH)
    show "fetch (Next x) s' = fetch (Next x) s \<or> xs = []"
      using Cons.prems(2) by (cases xs) (auto simp: fetch_def)
  next
    fix y
    assume "y \<in> set (butlast xs)"
    then show "hnext_of s' y = hnext_of s y"
      using Cons.prems(2) [of y] by (cases xs) auto
  qed (simp add: Cons.prems(3))
  with Cons.prems show ?case by auto
qed simp

lemma hseg_cong:
  assumes "fetch p s' = fetch p s" and "\<And>x. x \<in> set xs \<Longrightarrow> hnext_of s' x = hnext_of s x"
    and "\<And>x. x \<in> set xs \<Longrightarrow> pprev_of s' x = pprev_of s x"
  shows "hseg s' p xs = hseg s p xs"
proof -
  have "hpre s' p xs = hpre s p xs"
    using assms by (intro hpre_cong) (auto dest: in_set_butlastD)
  moreover have "fetch (tip p xs) s' = fetch (tip p xs) s"
    using tip_cases [of p xs] assms(1,2) by (auto simp: fetch_def)
  ultimately show ?thesis
    by (simp add: hseg_def)
qed

lemma hstore_sel [simp]:
  "fetch q (assign p v s) = (if q = p then v else fetch q s)" "pprev_of (assign p v s) = pprev_of s"
  "fetch q (set_pprev n r s) = fetch q s" "pprev_of (set_pprev n r s) = (pprev_of s)(n := r)"
  by (auto simp: fetch_def assign_def set_pprev_def split: slot.splits)

lemma hstore_fetch: "first_of s h = fetch (First h) s" "hnext_of s n = fetch (Next n) s"
  by (simp_all add: fetch_def)

text \<open>What a write leaves alone.\<close>

lemma hseg_frame [simp]:
  "y \<notin> set xs \<Longrightarrow> hpre (set_pprev y r s) p xs = hpre s p xs"
  "y \<notin> set xs \<Longrightarrow> hseg (set_pprev y r s) p xs = hseg s p xs"
  "q \<noteq> p \<Longrightarrow> q \<notin> Next ` set xs \<Longrightarrow> hpre (assign q v s) p xs = hpre s p xs"
  "q \<noteq> p \<Longrightarrow> q \<notin> Next ` set xs \<Longrightarrow> hseg (assign q v s) p xs = hseg s p xs"
  by (intro hpre_cong hseg_cong; auto simp: hstore_fetch dest: in_set_butlastD)+

lemma hpre_assign_tip [simp]:
  assumes "distinct xs" and "p \<notin> Next ` set xs"
  shows "hpre (assign (tip p xs) v s) p xs = hpre s p xs"
proof (cases xs rule: rev_cases)
  case (snoc ys y)
  with assms show ?thesis
    by (intro hpre_cong) (auto simp: hstore_fetch butlast_append)
qed simp

lemma tip_in: "tip p xs = Next y \<Longrightarrow> p = Next y \<or> y \<in> set xs"
  using tip_cases [of p xs] by auto

lemma tip_not_Next: "y \<notin> set xs \<Longrightarrow> p \<noteq> Next y \<Longrightarrow> tip p xs \<noteq> Next y" "y \<notin> set xs \<Longrightarrow> p \<noteq> Next y \<Longrightarrow> Next y \<noteq> tip p xs"
  using tip_in [of p xs y] by auto

lemma tip_First: "xs \<noteq> [] \<Longrightarrow> tip p xs \<noteq> First h"
  using tip_cases [of p xs] by auto

section \<open>What the operations do\<close>

lemma hlist_add_head_hlist:
  assumes "hlist s h xs" and "n \<notin> set xs"
  shows "hlist (hlist_add_head n h s) h (n # xs)"
proof (cases xs)
  case Nil
  with assms show ?thesis
    by (auto simp: hlist_def hseg_def hlist_add_head_def hstore_fetch Let_def)
next
  case (Cons x ys)
  with assms show ?thesis
    by (auto simp: hlist_def hseg_Cons hlist_add_head_def hstore_fetch Let_def)
qed

lemma hlist_unlink_hlist:
  assumes "hlist s h (as @ x # bs)"
  shows "\<exists>s'. hlist_unlink x s = Inr s' \<and> hlist s' h (as @ bs)"
proof -
  let ?p = "tip (First h) as"
  have d: "distinct (as @ x # bs)" "hpre s (First h) as" "fetch ?p s = Some x" "pprev_of s x = Some ?p" "hseg s (Next x) bs"
    using assms by (auto simp: hlist_def hseg_append hseg_Cons)
  have q: "?p \<notin> Next ` set bs" "?p \<noteq> Next x" "\<And>y. y \<in> set bs \<Longrightarrow> ?p \<noteq> Next y"
    using d(1) tip_in [of "First h" as] by auto
  show ?thesis
  proof (cases bs)
    case Nil
    with d q show ?thesis
      by (auto simp: hlist_unlink_def hlist_def hseg_append hstore_fetch) (auto simp: hseg_def)
  next
    case (Cons y cs)
    with d q show ?thesis
      by (auto simp: hlist_unlink_def hlist_def hseg_append hseg_Cons hstore_fetch Let_def image_iff)
  qed
qed

lemma hlist_frame_node:
  assumes "hlist s h xs" and "x \<notin> set xs"
  shows "hlist (set_pprev x r (assign (Next x) v s)) h xs"
  using assms by (auto simp: hlist_def)

lemma hlist_del_hlist:
  assumes "hlist s h (as @ x # bs)"
  shows "\<exists>s'. hlist_del x s = Inr s' \<and> hlist s' h (as @ bs) \<and> hlist_unhashed x s'"
    and "\<exists>s'. hlist_del_init x s = Inr s' \<and> hlist s' h (as @ bs) \<and> hlist_unhashed x s' \<and> hlist_del_init x s' = Inr s'"
proof -
  obtain s1 where s1: "hlist_unlink x s = Inr s1" "hlist s1 h (as @ bs)"
    using hlist_unlink_hlist [OF assms] by blast
  have "x \<notin> set (as @ bs)" "pprev_of s x \<noteq> None"
    using assms by (auto simp: hlist_def hseg_append hseg_Cons)
  then show "\<exists>s'. hlist_del x s = Inr s' \<and> hlist s' h (as @ bs) \<and> hlist_unhashed x s'"
    and "\<exists>s'. hlist_del_init x s = Inr s' \<and> hlist s' h (as @ bs) \<and> hlist_unhashed x s' \<and> hlist_del_init x s' = Inr s'"
    using s1 hlist_frame_node [OF s1(2), of x None None]
    by (simp_all add: hlist_del_def hlist_del_init_def hlist_unhashed_def INIT_HLIST_NODE_def)
qed

lemma hlist_add_before_hlist:
  assumes "hlist s h (as @ x # bs)" and "n \<notin> set (as @ x # bs)"
  shows "\<exists>s'. hlist_add_before n x s = Inr s' \<and> hlist s' h (as @ n # x # bs)"
proof -
  let ?p = "tip (First h) as"
  have d: "distinct (as @ x # bs)" "hpre s (First h) as" "fetch ?p s = Some x" "pprev_of s x = Some ?p" "hseg s (Next x) bs"
    using assms by (auto simp: hlist_def hseg_append hseg_Cons)
  have q: "?p \<notin> Next ` set bs" "?p \<noteq> Next x" "?p \<noteq> Next n"
    using d(1) assms(2) tip_in [of "First h" as] by auto
  show ?thesis
    using d q assms(2)
    by (auto simp: hlist_add_before_def hlist_def hseg_append hseg_Cons Let_def image_iff)
qed

lemma hlist_add_after_hlist:
  assumes "hlist s h (as @ x # bs)" and "n \<notin> set (as @ x # bs)"
  shows "hlist (hlist_add_after x n s) h (as @ x # n # bs)"
proof -
  let ?p = "tip (First h) as"
  have d: "distinct (as @ x # bs)" "hpre s (First h) as" "fetch ?p s = Some x" "pprev_of s x = Some ?p" "hseg s (Next x) bs"
    using assms by (auto simp: hlist_def hseg_append hseg_Cons)
  have q: "?p \<noteq> Next x" "?p \<noteq> Next n"
    using d(1) assms(2) tip_in [of "First h" as] by auto
  show ?thesis
  proof (cases bs)
    case Nil
    with d q assms(2) show ?thesis
      by (auto simp: hlist_add_after_def hlist_def hseg_append hseg_Cons hstore_fetch Let_def) (auto simp: hseg_def)
  next
    case (Cons y cs)
    with d q assms(2) show ?thesis
      by (auto simp: hlist_add_after_def hlist_def hseg_append hseg_Cons hstore_fetch Let_def image_iff)
  qed
qed

lemma hlist_move_list_hlist:
  assumes "hlist s old xs" and "old \<noteq> new"
  shows "hlist (hlist_move_list old new s) new xs" and "hlist (hlist_move_list old new s) old []"
proof -
  show "hlist (hlist_move_list old new s) new xs"
  proof (cases xs)
    case Nil
    with assms show ?thesis
      by (simp add: hlist_move_list_def hlist_def hseg_def hstore_fetch)
  next
    case (Cons x ys)
    with assms show ?thesis
      by (simp add: hlist_move_list_def hlist_def hseg_Cons hstore_fetch)
  qed
  show "hlist (hlist_move_list old new s) old []"
    by (simp add: hlist_move_list_def hlist_def hseg_def Let_def)
qed

text \<open>The walks.\<close>

definition keeps_hlist :: "addr \<Rightarrow> addr list \<Rightarrow> (addr \<Rightarrow> hstore \<Rightarrow> ('r option \<times> hstore) res) \<Rightarrow> bool" where
  "keeps_hlist h xs body \<longleftrightarrow> (\<forall>s x r s'. hlist s h xs \<longrightarrow> body x s = Inr (r, s') \<longrightarrow> hlist s' h xs)"

lemma hlist_first: "hlist s h (x # xs) \<Longrightarrow> first_of s h = Some x" "hlist s h [] \<Longrightarrow> first_of s h = None"
  by (auto simp: hlist_def hseg_Cons hseg_def hstore_fetch)

lemma hlist_next:
  assumes "hlist s h (as @ x # bs)"
  shows "hnext_of s x = (case bs of [] \<Rightarrow> None | y # ys \<Rightarrow> Some y)"
  using assms by (cases bs) (auto simp: hlist_def hpre_append hseg_def hstore_fetch)

lemma hlist_each_walk:
  assumes "keeps_hlist h xs body" and "hlist s h xs" and "xs = as @ bs" and "length bs < fuel"
  shows "hlist_each fuel body (case bs of [] \<Rightarrow> None | y # ys \<Rightarrow> Some y) s = walk body bs s"
  using assms(2-4)
proof (induction bs arbitrary: as fuel s)
  case Nil
  then show ?case by (cases fuel) auto
next
  case (Cons b bs)
  obtain f where f: "fuel = Suc f" "length bs < f"
    using Cons.prems(3) by (cases fuel) auto
  have step: "hlist_each f body (hnext_of s' b) s' = walk body bs s'" if "body b s = Inr (None, s')" for s'
  proof -
    have d: "hlist s' h xs"
      using assms(1) that Cons.prems(1) by (auto simp: keeps_hlist_def)
    then show ?thesis
      using Cons.IH [OF d, of "as @ [b]" f] Cons.prems(2) f(2) hlist_next [of s' h as b bs] by simp
  qed
  show ?case
    using f(1) step by (cases "body b s") (auto split: option.split)
qed

text \<open>
  The safe walk holds the next node already, so the body may take the node it is at out of its list:
  only the nodes behind it have to stay, and stay linked.
\<close>

definition hremoval_safe :: "addr \<Rightarrow> (addr \<Rightarrow> hstore \<Rightarrow> ('r option \<times> hstore) res) \<Rightarrow> bool" where
  "hremoval_safe h body \<longleftrightarrow> (\<forall>s ps x xs r s'. hlist s h (ps @ x # xs) \<longrightarrow> body x s = Inr (r, s') \<longrightarrow>
     (\<exists>ps'. hlist s' h (ps' @ xs)))"

lemma hlist_each_safe_walk:
  assumes "hremoval_safe h body" and "hlist s h (as @ bs)" and "length bs < fuel"
  shows "hlist_each_safe fuel body (case bs of [] \<Rightarrow> None | y # ys \<Rightarrow> Some y) s = walk body bs s"
  using assms(2,3)
proof (induction bs arbitrary: as fuel s)
  case Nil
  then show ?case by (cases fuel) auto
next
  case (Cons b bs)
  obtain f where f: "fuel = Suc f" "length bs < f"
    using Cons.prems(2) by (cases fuel) auto
  have n: "hnext_of s b = (case bs of [] \<Rightarrow> None | y # ys \<Rightarrow> Some y)"
    by (rule hlist_next [OF Cons.prems(1)])
  have step: "hlist_each_safe f body (case bs of [] \<Rightarrow> None | y # ys \<Rightarrow> Some y) s' = walk body bs s'"
    if b: "body b s = Inr (None, s')" for s'
  proof -
    obtain ps where "hlist s' h (ps @ bs)"
      using assms(1) b Cons.prems(1) unfolding hremoval_safe_def by blast
    then show ?thesis
      using f(2) by (rule Cons.IH)
  qed
  show ?case
    using f(1) n step by (cases "body b s") (auto split: option.split)
qed

lemma first_case: "hlist s h xs \<Longrightarrow> first_of s h = (case xs of [] \<Rightarrow> None | y # ys \<Rightarrow> Some y)"
  using hlist_first [of s h] by (cases xs) auto

section \<open>Properties\<close>

text \<open>
  The operations on a single-pointer list do what they say: adding at the head, before and after a
  node, removing a node (after which it is not on a list, and removing it again with
  \<open>hlist_del_init\<close> changes nothing), and handing all nodes over to another head.
\<close>

theorem hlist_operations:
  assumes "hlist s h (as @ x # bs)"
  shows "(\<forall>n. n \<notin> set (as @ x # bs) \<longrightarrow>
      hlist (hlist_add_head n h s) h (n # as @ x # bs) \<and>
      (\<exists>s'. hlist_add_before n x s = Inr s' \<and> hlist s' h (as @ n # x # bs)) \<and>
      hlist (hlist_add_after x n s) h (as @ x # n # bs)) \<and>
    (\<exists>s'. hlist_del x s = Inr s' \<and> hlist s' h (as @ bs) \<and> hlist_unhashed x s') \<and>
    (\<exists>s'. hlist_del_init x s = Inr s' \<and> hlist s' h (as @ bs) \<and> hlist_unhashed x s' \<and> hlist_del_init x s' = Inr s') \<and>
    (\<forall>g. g \<noteq> h \<longrightarrow> hlist (hlist_move_list h g s) g (as @ x # bs) \<and> hlist_empty h (hlist_move_list h g s))"
  using hlist_add_head_hlist [OF assms] hlist_add_before_hlist [OF assms] hlist_add_after_hlist [OF assms]
    hlist_del_hlist [OF assms] hlist_move_list_hlist(1) [OF assms]
    hlist_first(2) [OF hlist_move_list_hlist(2) [OF assms]]
  by (auto simp: hlist_empty_def)

definition one_node :: hstore where
  "one_node = \<lparr>first_of = (\<lambda>h. if h = 0 then Some 1 else None), hnext_of = (\<lambda>_. None),
     pprev_of = (\<lambda>n. if n = 1 then Some (First 0) else None)\<rparr>"

lemma one_node_hlist: "hlist one_node 0 [1]"
  by (simp add: hlist_def hseg_def fetch_def one_node_def)

theorem hlist_operations_witness:
  "hlist (hlist_add_after 1 2 one_node) 0 [1, 2] \<and> (\<exists>s'. hlist_del 1 one_node = Inr s' \<and> hlist s' 0 [])"
proof -
  have "hlist one_node 0 ([] @ 1 # [])"
    using one_node_hlist by simp
  from hlist_operations [OF this] show ?thesis
    by auto
qed

text \<open>
  Deleting while walking: \<open>hlist_for_each_safe\<close> with a body that takes each node off the list runs over
  all nodes in order and leaves the list empty, whatever else the body does outside the list.
\<close>

theorem hlist_safe_walk_empties:
  assumes "hlist s h xs" and "length xs < fuel"
  shows "\<exists>s'. hlist_for_each_safe fuel h (\<lambda>x s. bindE (hlist_del x s) (\<lambda>s. Inr (None :: unit option, s))) s = Inr (None, s') \<and>
    hlist s' h [] \<and> (\<forall>x\<in>set xs. hlist_unhashed x s')"
proof -
  let ?body = "\<lambda>x s. bindE (hlist_del x s) (\<lambda>s. Inr (None :: unit option, s))"
  have "hremoval_safe h ?body"
    using hlist_del_hlist(1) [of _ h] by (fastforce simp: hremoval_safe_def res_conv)
  from hlist_each_safe_walk [OF this, of s "[]" xs fuel] assms
  have "hlist_for_each_safe fuel h ?body s = walk ?body xs s"
    by (simp add: hlist_for_each_safe_def first_case)
  moreover have "\<exists>s'. walk ?body ys s = Inr (None, s') \<and> hlist s' h [] \<and> (\<forall>x. x \<in> set ys \<or> hlist_unhashed x s \<longrightarrow> hlist_unhashed x s')"
    if "hlist s h ys" for ys s
    using that
  proof (induction ys arbitrary: s)
    case (Cons y ys)
    have n: "pprev_of s y \<noteq> None" "hnext_of s y = (case ys of [] \<Rightarrow> None | y # ys \<Rightarrow> Some y)" "pprev_of s y = Some (First h)"
      "distinct (y # ys)"
      using Cons.prems hlist_next [of s h "[]" y ys] by (auto simp: hlist_def hseg_Cons)
    obtain s1 where s1: "hlist_del y s = Inr s1" "hlist s1 h ys" "hlist_unhashed y s1"
      using hlist_del_hlist(1) [of s h "[]" y ys] Cons.prems by auto
    have "hlist_unhashed x s1" if "hlist_unhashed x s" for x
      using s1(1) n that Cons.prems
      by (cases ys) (auto simp: hlist_del_def hlist_unlink_def hlist_unhashed_def hlist_def hseg_Cons hstore_fetch Let_def)
    with s1 Cons.IH [OF s1(2)] show ?case
      by auto
  qed auto
  ultimately show ?thesis
    using assms(1) by fastforce
qed

theorem hlist_safe_walk_empties_witness:
  "\<exists>s'. hlist_for_each_safe 2 0 (\<lambda>x s. bindE (hlist_del x s) (\<lambda>s. Inr (None :: unit option, s))) one_node = Inr (None, s') \<and>
    hlist s' 0 []"
  using hlist_safe_walk_empties [OF one_node_hlist, of 2] by auto


end
