(* ===== verification/Sequence.thy ===== *)
theory Sequence
  imports ListOps Hlist
begin

text \<open>
  The contract that both kinds of list in src/include/list.h meet: an ordered collection of different
  entries to which one is added in front and from which any one is removed. The locale is proved once on the
  abstract sequence; the circular list (\<open>list_add\<close>, \<open>list_del_init\<close>) and the list with a single-pointer
  head (\<open>hlist_add_head\<close>, \<open>hlist_del_init\<close>) interpret it.
\<close>

section \<open>The abstract sequence\<close>

datatype seq_op = Add nat | Remove nat

fun seq_step :: "seq_op \<Rightarrow> nat list \<Rightarrow> nat list" where
  "seq_step (Add x) xs = x # xs"
| "seq_step (Remove x) xs = filter (\<lambda>y. y \<noteq> x) xs"

text \<open>An entry that is not in the sequence may be added, one that is in it may be removed.\<close>

fun legal :: "seq_op list \<Rightarrow> nat list \<Rightarrow> bool" where
  "legal [] xs = True"
| "legal (Add x # ops) xs \<longleftrightarrow> x \<notin> set xs \<and> legal ops (x # xs)"
| "legal (Remove x # ops) xs \<longleftrightarrow> x \<in> set xs \<and> legal ops (filter (\<lambda>y. y \<noteq> x) xs)"

fun entries_of :: "seq_op list \<Rightarrow> nat set" where
  "entries_of [] = {}"
| "entries_of (Add x # ops) = insert x (entries_of ops)"
| "entries_of (Remove x # ops) = entries_of ops"

text \<open>The same operations on a store, with the functions that add and remove.\<close>

definition perform ::
  "(nat \<Rightarrow> nat \<Rightarrow> 's \<Rightarrow> 's res) \<Rightarrow> (nat \<Rightarrow> 's \<Rightarrow> 's res) \<Rightarrow> nat \<Rightarrow> seq_op \<Rightarrow> 's \<Rightarrow> 's res" where
  "perform add remove h c s = (case c of Add x \<Rightarrow> add x h s | Remove x \<Rightarrow> remove x s)"

section \<open>The contract\<close>

locale sequence_store =
  fixes holds :: "'s \<Rightarrow> nat \<Rightarrow> nat list \<Rightarrow> bool"
    and usable :: "'s \<Rightarrow> nat \<Rightarrow> nat \<Rightarrow> bool"
    and add :: "nat \<Rightarrow> nat \<Rightarrow> 's \<Rightarrow> 's res"
    and remove :: "nat \<Rightarrow> 's \<Rightarrow> 's res"
  assumes add_front: "holds s h xs \<Longrightarrow> usable s h x \<Longrightarrow> x \<notin> set xs \<Longrightarrow>
      \<exists>s'. add x h s = Inr s' \<and> holds s' h (x # xs) \<and> (\<forall>y. usable s' h y = usable s h y)"
    and remove_entry: "holds s h (as @ x # bs) \<Longrightarrow>
      \<exists>s'. remove x s = Inr s' \<and> holds s' h (as @ bs) \<and> (\<forall>y. usable s' h y = usable s h y)"
    and entries_distinct: "holds s h xs \<Longrightarrow> distinct xs"
begin

lemma remove_filter:
  assumes "holds s h xs" and "x \<in> set xs"
  shows "\<exists>s'. remove x s = Inr s' \<and> holds s' h (filter (\<lambda>y. y \<noteq> x) xs) \<and> (\<forall>y. usable s' h y = usable s h y)"
proof -
  obtain as bs where xs: "xs = as @ x # bs"
    using assms(2) by (auto dest: split_list)
  then have "filter (\<lambda>y. y \<noteq> x) xs = as @ bs"
    using entries_distinct [OF assms(1)] filter_True [of as "\<lambda>y. y \<noteq> x"] filter_True [of bs "\<lambda>y. y \<noteq> x"]
    by fastforce
  then show ?thesis
    using remove_entry [of s h as x bs] assms(1) xs by simp
qed

text \<open>Every legal run succeeds and does to the list what it does to the sequence.\<close>

lemma run:
  "holds s h xs \<Longrightarrow> legal ops xs \<Longrightarrow> \<forall>x\<in>entries_of ops. usable s h x \<Longrightarrow>
   \<exists>s'. foldE (perform add remove h) ops s = Inr s' \<and> holds s' h (fold seq_step ops xs)"
proof (induction ops arbitrary: s xs)
  case (Cons c ops)
  have "\<exists>s1. perform add remove h c s = Inr s1 \<and> holds s1 h (seq_step c xs) \<and> (\<forall>y. usable s1 h y = usable s h y)"
    using Cons.prems add_front [of s h xs] remove_filter [of s h xs] by (cases c) (auto simp: perform_def)
  then obtain s1 where s1: "perform add remove h c s = Inr s1" "holds s1 h (seq_step c xs)" "\<forall>y. usable s1 h y = usable s h y"
    by blast
  have "legal ops (seq_step c xs)" "\<forall>x\<in>entries_of ops. usable s1 h x"
    using Cons.prems(2,3) s1(3) by (cases c; auto)+
  from Cons.IH [OF s1(2) this] s1(1) show ?case
    by simp
qed auto

end

section \<open>The two kinds of list\<close>

definition list_usable :: "'d store \<Rightarrow> addr \<Rightarrow> addr \<Rightarrow> bool" where
  "list_usable s h x \<longleftrightarrow> x \<noteq> h \<and> allocated s x \<and> x < brk s"

lemma only_links_usable: "only_links A s s' \<Longrightarrow> list_usable s' h x = list_usable s h x"
  by (simp add: only_links_def list_usable_def)

lemma list_del_init_dlist:
  assumes "dlist s h (as @ e # bs)"
  shows "\<exists>s'. list_del_init e s = Inr s' \<and> dlist s' h (as @ bs) \<and> (\<forall>y. list_usable s' h y = list_usable s h y)"
proof -
  obtain s1 where s1: "del_entry e s = Inr s1" "dlist s1 h (as @ bs)" "only_links (set (h # as @ bs)) s s1"
    using del_entry_dlist [OF assms] by blast
  have e: "e \<notin> set (h # as @ bs)" "allocated s e" "e < brk s"
    using assms by (auto simp: dlist_def)
  have "list_usable (INIT_LIST_HEAD e s1) h y = list_usable s h y" for y
    using only_links_usable [OF INIT_LIST_HEAD_only] only_links_usable [OF s1(3)] by blast
  then show ?thesis
    using s1(1) reinit_list(1) [OF s1(3,2) e] by (simp add: list_del_init_def)
qed

interpretation circular: sequence_store dlist list_usable list_add list_del_init
proof
  fix s :: "'d store" and h x and xs :: "nat list"
  assume "dlist s h xs" "list_usable s h x" "x \<notin> set xs"
  then show "\<exists>s'. list_add x h s = Inr s' \<and> dlist s' h (x # xs) \<and> (\<forall>y. list_usable s' h y = list_usable s h y)"
    using list_add_only_links [of s h xs x] only_links_usable by (fastforce simp: list_usable_def)
next
  fix s :: "'d store" and h x and as bs :: "nat list"
  assume "dlist s h (as @ x # bs)"
  then show "\<exists>s'. list_del_init x s = Inr s' \<and> dlist s' h (as @ bs) \<and> (\<forall>y. list_usable s' h y = list_usable s h y)"
    by (rule list_del_init_dlist)
qed (simp add: dlist_def)

interpretation hashed: sequence_store hlist "\<lambda>s h x. True" "\<lambda>x h s. Inr (hlist_add_head x h s)" hlist_del_init
proof
  fix s h as x bs
  assume "hlist s h (as @ x # bs)"
  from hlist_del_hlist(2) [OF this]
  show "\<exists>s'. hlist_del_init x s = Inr s' \<and> hlist s' h (as @ bs) \<and> (\<forall>y. True = True)"
    by blast
qed (simp_all add: hlist_add_head_hlist, simp add: hlist_def)

section \<open>Properties\<close>

text \<open>
  C23. Both kinds of list implement a sequence: whatever legal series of additions in front and removals is
  run on a list that holds some entries, with nodes that are allocated, it succeeds, and the list then holds
  what the same series makes of the sequence of entries.
\<close>

theorem lists_implement_sequences:
  assumes "legal ops xs"
  shows "(dlist s h xs \<and> (\<forall>x\<in>entries_of ops. list_usable s h x) \<longrightarrow>
      (\<exists>s'. foldE (perform list_add list_del_init h) ops s = Inr s' \<and> dlist s' h (fold seq_step ops xs))) \<and>
    (hlist t g xs \<longrightarrow>
      (\<exists>t'. foldE (perform (\<lambda>x g t. Inr (hlist_add_head x g t)) hlist_del_init g) ops t = Inr t' \<and> hlist t' g (fold seq_step ops xs)))"
  using circular.run [OF _ assms] hashed.run [OF _ assms] by blast

text \<open>A single-pointer list with the entries 1 and 2.\<close>

definition two_hashed :: hstore where
  "two_hashed = hlist_add_head 1 0 (hlist_add_head 2 0 \<lparr>first_of = (\<lambda>h. None), hnext_of = (\<lambda>x. None), pprev_of = (\<lambda>x. None)\<rparr>)"

lemma two_hashed_hlist: "hlist two_hashed 0 [1, 2]"
  unfolding two_hashed_def by (intro hlist_add_head_hlist) (simp_all add: hlist_def hseg_def fetch_def)

theorem lists_implement_sequences_witness:
  "\<exists>s' t'. foldE (perform list_add list_del_init 0) [Add 4, Remove 1, Add 1, Remove 2] two_lists = Inr s' \<and> dlist s' 0 [1, 4] \<and>
    foldE (perform (\<lambda>x g t. Inr (hlist_add_head x g t)) hlist_del_init 0) [Add 4, Remove 1, Add 1, Remove 2] two_hashed = Inr t' \<and>
    hlist t' 0 [1, 4]"
proof -
  have l: "legal [Add 4, Remove 1, Add 1, Remove 2] [1, 2]" and r: "fold seq_step [Add 4, Remove 1, Add 1, Remove 2] [1, 2] = [1, 4]"
    by simp_all
  have "\<forall>x\<in>entries_of [Add 4, Remove 1, Add 1, Remove 2]. list_usable two_lists 0 x"
    by (simp add: list_usable_def two_lists_def)
  then show ?thesis
    using lists_implement_sequences [OF l, of two_lists 0 two_hashed 0] two_lists_dlist(1) two_hashed_hlist unfolding r by blast
qed

end
