(* ===== verification/TimeHelpers.thy ===== *)
theory TimeHelpers
  imports Prelude
begin

text \<open>
  src/GetTime.cpp: the two functions that store the Unix time as bytes. \<open>time_t\<close> is a signed integer;
  \<open>now\<close> is its value, and \<open>>>\<close> on it is the arithmetic shift. The two stop-watch functions compute with
  floating-point numbers and are left out.
\<close>

definition GetUnixTime :: "int \<Rightarrow> byte list \<Rightarrow> byte list res" where
  "GetUnixTime now localTime =
     wr_block localTime 0
       [word_of_int (drop_bit 24 now AND 0xFF), word_of_int (drop_bit 16 now AND 0xFF),
        word_of_int (drop_bit 8 now AND 0xFF), word_of_int (drop_bit 0 now AND 0xFF)]"

definition GetUnixTime8 :: "int \<Rightarrow> byte list \<Rightarrow> byte list res" where
  "GetUnixTime8 now localTime =
     wr_block localTime 0
       [word_of_int (drop_bit 28 now AND 0xFF), word_of_int (drop_bit 24 now AND 0xFF),
        word_of_int (drop_bit 20 now AND 0xFF), word_of_int (drop_bit 16 now AND 0xFF),
        word_of_int (drop_bit 12 now AND 0xFF), word_of_int (drop_bit 8 now AND 0xFF),
        word_of_int (drop_bit 4 now AND 0xFF), word_of_int (now AND 0xFF)]"

text \<open>The number big-endian bytes stand for.\<close>

definition be_value :: "byte list \<Rightarrow> int" where
  "be_value bs = foldl (\<lambda>n b. 256 * n + uint b) 0 bs"

lemma uint_low_byte: "uint (word_of_int (drop_bit k now AND 0xFF) :: byte) = now div 2 ^ k mod 256"
proof -
  have "drop_bit k now AND 0xFF = now div 2 ^ k mod 256"
    using take_bit_eq_mask [of 8 "drop_bit k now"] by (simp add: mask_eq_exp_minus_1 take_bit_eq_mod drop_bit_eq_div)
  then show ?thesis
    by (simp add: uint_word_of_int)
qed

lemma four_bytes:
  fixes n :: int
  shows "256 * (256 * (256 * (n div 2 ^ 24 mod 256) + n div 2 ^ 16 mod 256) + n div 2 ^ 8 mod 256) + n mod 256 = n mod 2 ^ 32"
proof -
  define a where "a = n div 256"
  define b where "b = a div 256"
  define c where "c = b div 256"
  have q: "n div 2 ^ 8 = a" "n div 2 ^ 16 = b" "n div 2 ^ 24 = c"
    by (simp_all add: a_def b_def c_def zdiv_zmult2_eq [symmetric])
  have 1: "n mod (256 * 16777216) = 256 * (a mod 16777216) + n mod 256"
    unfolding a_def by (rule zmod_zmult2_eq) simp
  have 2: "a mod (256 * 65536) = 256 * (b mod 65536) + a mod 256"
    unfolding b_def by (rule zmod_zmult2_eq) simp
  have 3: "b mod (256 * 256) = 256 * (c mod 256) + b mod 256"
    unfolding c_def by (rule zmod_zmult2_eq) simp
  show ?thesis
    using 1 2 3 unfolding q by simp
qed

text \<open>
  The four bytes are the time modulo 2^32, big-endian, so they read back until the year 2106; the
  function needs four bytes of room and touches no others.
\<close>

theorem unix_time_bytes:
  assumes "4 \<le> length buf"
  shows "\<exists>bs. GetUnixTime now buf = Inr (bs @ drop 4 buf) \<and> length bs = 4 \<and> be_value bs = now mod 2 ^ 32"
proof -
  let ?bs = "[word_of_int (drop_bit 24 now AND 0xFF), word_of_int (drop_bit 16 now AND 0xFF),
    word_of_int (drop_bit 8 now AND 0xFF), word_of_int (drop_bit 0 now AND 0xFF)] :: byte list"
  have "be_value ?bs = now mod 2 ^ 32"
    using four_bytes [of now] unfolding be_value_def foldl.simps uint_low_byte by (simp only: power_0 div_by_1 mult_zero_right add_0)
  moreover have "GetUnixTime now buf = Inr (?bs @ drop 4 buf)"
    using assms by (simp add: GetUnixTime_def wr_block_def numeral_eq_Suc)
  ultimately show ?thesis
    by (intro exI [of _ ?bs]) simp
qed

lemma add_power_36:
  fixes n :: int
  assumes "k \<le> 28"
  shows "(n + 2 ^ 36) div 2 ^ k mod 256 = n div 2 ^ k mod 256"
proof -
  have e: "(2 :: int) ^ 36 = 256 * 2 ^ (28 - k) * 2 ^ k"
    using assms by (simp add: mult.assoc flip: power_add)
  have "(n + 256 * 2 ^ (28 - k) * 2 ^ k) div 2 ^ k = 256 * 2 ^ (28 - k) + n div 2 ^ k"
    by (rule div_mult_self1) simp
  then show ?thesis
    unfolding e by (simp only: mod_mult_self4)
qed

text \<open>
  The eight-byte variant shifts by four bits per byte, so neighbouring bytes overlap: they are not the time
  as a 64-bit number (already for the time 256 they read differently), and they carry only its
  low 36 bits.
\<close>

theorem unix_time8_overlaps:
  "GetUnixTime8 256 (replicate 8 0) = Inr [0, 0, 0, 0, 0, 1, 0x10, 0] \<and>
   GetUnixTime8 (now + 2 ^ 36) buf = GetUnixTime8 now buf"
proof
  show "GetUnixTime8 256 (replicate 8 0) = Inr [0, 0, 0, 0, 0, 1, 0x10, 0]"
    by (simp add: GetUnixTime8_def wr_block_def)
  have "word_of_int (drop_bit k (now + 2 ^ 36) AND 0xFF) = (word_of_int (drop_bit k now AND 0xFF) :: byte)"
    if "k \<in> {0, 4, 8, 12, 16, 20, 24, 28}" for k
  proof -
    have "(now + 2 ^ 36) div 2 ^ k mod 256 = now div 2 ^ k mod 256"
      using that add_power_36 [of k now] by auto
    then show ?thesis
      by (metis uint_low_byte word_uint_eqI)
  qed
  from this [of 28] this [of 24] this [of 20] this [of 16] this [of 12] this [of 8] this [of 4] this [of 0]
  show "GetUnixTime8 (now + 2 ^ 36) buf = GetUnixTime8 now buf"
    by (simp add: GetUnixTime8_def)
qed

end
