(* ===== verification/Gpio.thy ===== *)
theory Gpio
  imports Os
begin

text \<open>
  \<open>Gpio\<close> (src/IODevice.cpp): one pin of the board, driven through the files of
  /sys/class/gpio. The descriptor \<open>fd\<close> is not initialised by the constructor; using it then is a
  fault. The answers of the kernel are the parameter \<open>K\<close>.
\<close>

section \<open>The code\<close>

record gpio =
  fd :: "int option"
  Pin :: int
  PinName :: string
  mode :: string
  isOpen :: bool

definition TQ3568_GPIO_Out_Pin :: "string list" where
  "TQ3568_GPIO_Out_Pin = [''5'', ''15'', ''18'', ''20'', ''102'', ''101'', ''97'', ''90'', ''63'', ''65'', ''19'']"

definition TQ3568_GPIO_In_Pin :: "string list" where
  "TQ3568_GPIO_In_Pin = [''36'', ''40'', ''41'', ''42'', ''74'', ''73'', ''0'', ''8'', ''4'', ''64'', ''148'']"

definition SetPin :: "int \<Rightarrow> gpio \<Rightarrow> bool \<times> gpio" where
  "SetPin GpioPin g =
     (if GpioPin < 1 \<or> GpioPin > 11 then (False, g)
      else if mode g = ''out'' then (True, g\<lparr>PinName := TQ3568_GPIO_Out_Pin ! nat (GpioPin - 1)\<rparr>)
      else if mode g = ''in'' then (True, g\<lparr>PinName := TQ3568_GPIO_In_Pin ! nat (GpioPin - 1)\<rparr>)
      else (False, g))"

text \<open>\<open>return -1\<close> in a \<open>bool\<close> function is true.\<close>

definition SetClose :: "'w kernel \<Rightarrow> gpio \<Rightarrow> 'w os \<Rightarrow> bool \<times> 'w os" where
  "SetClose K g s =
     (let (r, s) = do_sys K (Open_file ''/sys/class/gpio/unexport'') s; export_fd = fst r
      in if export_fd < 0 then (True, s)
         else let (r, s) = do_sys K (Write_fd export_fd (bytes_of (PinName g))) s
              in if fst r < 0 then (True, snd (do_sys K (Close_fd export_fd) s))
                 else (True, snd (do_sys K (Close_fd export_fd) s)))"

definition Gpio_Exit :: "'w kernel \<Rightarrow> gpio \<Rightarrow> 'w os \<Rightarrow> (bool \<times> gpio \<times> 'w os) res" where
  "Gpio_Exit K g s =
     (case fd g of
        None \<Rightarrow> Inl Uninitialised
      | Some f \<Rightarrow>
          let (_, s) = do_sys K (Close_fd f) s; (_, s) = SetClose K g s
          in Inr (True, g\<lparr>isOpen := False\<rparr>, s))"

text \<open>
  Exporting the pin. \<open>closedir\<close> of the directory that was opened is no call the properties look at. After a failed
  \<open>opendir\<close> the code calls \<open>closedir (NULL)\<close>, which the C library answers with EINVAL and without a system call;
  it is no step here either.
\<close>

definition export_pin :: "'w kernel \<Rightarrow> gpio \<Rightarrow> 'w os \<Rightarrow> bool \<times> 'w os" where
  "export_pin K g s =
     (let (dir, s) = do_sys K (Opendir (''/sys/class/gpio/gpio'' @ PinName g)) s
      in if fst dir < 0
         then let (r, s) = do_sys K (Open_file ''/sys/class/gpio/export'') s; export_fd = fst r
              in if export_fd < 0 then (False, s)
                 else let (r, s) = do_sys K (Write_fd export_fd (bytes_of (PinName g))) s
                      in if fst r < 0 then (False, snd (do_sys K (Close_fd export_fd) s))
                         else (True, snd (do_sys K (Close_fd export_fd) s))
         else (True, s))"

definition set_direction :: "'w kernel \<Rightarrow> gpio \<Rightarrow> 'w os \<Rightarrow> bool \<times> 'w os" where
  "set_direction K g s =
     (let (r, s) = do_sys K (Open_file (''/sys/class/gpio/gpio'' @ PinName g @ ''/direction'')) s;
          direction_fd = fst r
      in if direction_fd < 0 then let (_, s) = SetClose K g s in (False, s)
         else let (r, s) = do_sys K (Write_fd direction_fd (bytes_of (mode g))) s
              in if fst r < 0
                 then let (_, s) = do_sys K (Close_fd direction_fd) s; (_, s) = SetClose K g s
                      in (False, s)
                 else (True, snd (do_sys K (Close_fd direction_fd) s)))"

definition SetOpen :: "'w kernel \<Rightarrow> gpio \<Rightarrow> 'w os \<Rightarrow> (bool \<times> gpio \<times> 'w os) res" where
  "SetOpen K g s =
     bindE (if isOpen g = True then Gpio_Exit K g s else Inr (True, g, s)) (\<lambda>(_, g, s).
     let (ok, g) = SetPin (Pin g) g
     in if ok = False then Inr (False, g, s)
        else let (ok, s) = export_pin K g s
        in if ok = False then Inr (False, g, s)
        else let (ok, s) = set_direction K g s
        in if ok = False then Inr (False, g, s)
        else let (r, s) = do_sys K (Open_file (''/sys/class/gpio/gpio'' @ PinName g @ ''/value'')) s;
                 g = g\<lparr>fd := Some (fst r)\<rparr>
        in if fst r < 0 then let (_, s) = SetClose K g s in Inr (False, g, s)
        else Inr (True, g\<lparr>isOpen := True\<rparr>, s))"

definition Gpio_new :: "'w kernel \<Rightarrow> int \<Rightarrow> string \<Rightarrow> 'w os \<Rightarrow> (gpio \<times> 'w os) res" where
  "Gpio_new K GpioPin Mode s =
     bindE (SetOpen K \<lparr>fd = None, Pin = GpioPin, PinName = [], mode = Mode, isOpen = False\<rparr> s)
       (\<lambda>(_, g, s). Inr (g, s))"

text \<open>The destructor.\<close>

definition Gpio_delete :: "'w kernel \<Rightarrow> gpio \<Rightarrow> 'w os \<Rightarrow> 'w os res" where
  "Gpio_delete K g s = bindE (Gpio_Exit K g s) (\<lambda>(_, _, s). Inr s)"

definition SetOn :: "'w kernel \<Rightarrow> gpio \<Rightarrow> 'w os \<Rightarrow> (bool \<times> 'w os) res" where
  "SetOn K g s =
     (if isOpen g = False then Inr (False, s)
      else case fd g of None \<Rightarrow> Inl Uninitialised
      | Some f \<Rightarrow> let (r, s) = do_sys K (Write_fd f (bytes_of ''1'')) s
                  in if fst r < 0 then Inr (False, s) else Inr (True, s))"

definition SetOff :: "'w kernel \<Rightarrow> gpio \<Rightarrow> 'w os \<Rightarrow> (bool \<times> 'w os) res" where
  "SetOff K g s =
     (if isOpen g = False then Inr (False, s)
      else case fd g of None \<Rightarrow> Inl Uninitialised
      | Some f \<Rightarrow> let (r, s) = do_sys K (Write_fd f (bytes_of ''0'')) s
                  in if fst r < 0 then Inr (False, s) else Inr (True, s))"

text \<open>\<open>read (fd, buf, 1)\<close> into two zero bytes, then \<open>atoi\<close>.\<close>

definition GetIOValue :: "'w kernel \<Rightarrow> gpio \<Rightarrow> 'w os \<Rightarrow> (int \<times> 'w os) res" where
  "GetIOValue K g s =
     (if isOpen g = False then Inr (-1, s)
      else case fd g of None \<Rightarrow> Inl Uninitialised
      | Some f \<Rightarrow>
          let (_, s) = do_sys K (Lseek f) s; (r, s) = do_sys K (Read_fd f 1) s
          in if fst r < 0 then Inr (-1, s)
             else let value = atoi (string_of (c_string (take 1 (take (nat (fst r)) (snd r)))))
                  in if value = 0 then Inr (0, s) else Inr (1, s))"

section \<open>Lemmas\<close>

definition pin_name :: "int \<Rightarrow> string \<Rightarrow> string option" where
  "pin_name p m =
     (if 1 \<le> p \<and> p \<le> 11 then
        if m = ''out'' then Some (TQ3568_GPIO_Out_Pin ! nat (p - 1))
        else if m = ''in'' then Some (TQ3568_GPIO_In_Pin ! nat (p - 1)) else None
      else None)"

lemma SetPin_conv:
  "SetPin p g = (case pin_name p (mode g) of None \<Rightarrow> (False, g) | Some n \<Rightarrow> (True, g\<lparr>PinName := n\<rparr>))"
  by (simp add: SetPin_def pin_name_def)

lemma SetClose_true: "fst (SetClose K g s) = True"
  by (simp add: SetClose_def Let_def case_prod_beta)

text \<open>An object is usable when it is closed, or open on a descriptor the kernel gave it.\<close>

definition gpio_ok :: "gpio \<Rightarrow> bool" where
  "gpio_ok g \<longleftrightarrow> isOpen g \<longrightarrow>
     (\<exists>f\<ge>0. fd g = Some f) \<and> pin_name (Pin g) (mode g) = Some (PinName g)"

lemma SetOpen_closed:
  assumes "isOpen g = False"
  shows "\<exists>g' s'. SetOpen K g s = Inr (isOpen g', g', s') \<and> gpio_ok g' \<and> Pin g' = Pin g \<and> mode g' = mode g \<and>
    (pin_name (Pin g) (mode g) = None \<longrightarrow> g' = g \<and> s' = s)"
proof (cases "pin_name (Pin g) (mode g)")
  case None
  then show ?thesis
    using assms by (simp add: SetOpen_def SetPin_conv gpio_ok_def)
next
  case (Some n)
  then show ?thesis
    using assms by (simp add: SetOpen_def SetPin_conv gpio_ok_def case_prod_beta Let_def)
qed

lemma SetOpen_ok:
  assumes "gpio_ok g"
  shows "\<exists>g' s'. SetOpen K g s = Inr (isOpen g', g', s') \<and> gpio_ok g' \<and> Pin g' = Pin g \<and> mode g' = mode g"
proof (cases "isOpen g")
  case False
  then show ?thesis
    using SetOpen_closed [of g K s] by auto
next
  case True
  then obtain f where f: "fd g = Some f"
    using assms by (auto simp: gpio_ok_def)
  obtain s1 where e: "Gpio_Exit K g s = Inr (True, g\<lparr>isOpen := False\<rparr>, s1)"
    using f by (simp add: Gpio_Exit_def case_prod_beta Let_def)
  have "SetOpen K g s = SetOpen K (g\<lparr>isOpen := False\<rparr>) s1"
    using True e by (simp add: SetOpen_def)
  then show ?thesis
    using SetOpen_closed [of "g\<lparr>isOpen := False\<rparr>" K s1] by auto
qed

text \<open>Driving an open pin is one write to its descriptor; a closed pin is left alone.\<close>

definition drive :: "'w kernel \<Rightarrow> bool \<Rightarrow> gpio \<Rightarrow> 'w os \<Rightarrow> (bool \<times> 'w os) res" where
  "drive K on g s = (if on then SetOn K g s else SetOff K g s)"

definition level_bytes :: "bool \<Rightarrow> byte list" where
  "level_bytes on = bytes_of (if on then ''1'' else ''0'')"

lemma drive_open:
  assumes "gpio_ok g" and "isOpen g"
  shows "\<exists>f. fd g = Some f \<and> drive K on g s =
    Inr (0 \<le> answer K (Write_fd f (level_bytes on)) s, after K (Write_fd f (level_bytes on)) s)"
  using assms by (auto simp: gpio_ok_def drive_def SetOn_def SetOff_def level_bytes_def
      case_prod_beta Let_def not_less)

lemma drive_closed: "\<not> isOpen g \<Longrightarrow> drive K on g s = Inr (False, s)"
  by (simp add: drive_def SetOn_def SetOff_def)

section \<open>Properties\<close>

text \<open>
  Constructing a pin never faults whatever the kernel answers, and leaves an object that is
  open exactly on a descriptor the kernel returned, for the name that the pin tables give its
  number and direction; an impossible number or direction leaves it closed without a system call,
  and destroying such an object closes a descriptor that was never initialised.
\<close>

theorem Gpio_new_open_state:
  shows "\<exists>g s'. Gpio_new K p m s = Inr (g, s') \<and> Pin g = p \<and> mode g = m \<and>
    (isOpen g = (fd g \<noteq> None \<and> 0 \<le> the (fd g) \<and> pin_name p m = Some (PinName g))) \<and>
    (pin_name p m = None \<longrightarrow> s' = s \<and> Gpio_delete K g s' = Inl Uninitialised)"
proof (cases "pin_name p m")
  case None
  then show ?thesis
    by (simp add: Gpio_new_def SetOpen_def SetPin_conv Gpio_delete_def Gpio_Exit_def)
next
  case (Some n)
  then show ?thesis
    by (simp add: Gpio_new_def SetOpen_def SetPin_conv case_prod_beta Let_def)
qed

theorem Gpio_new_open_state_witness:
  "\<exists>g s'. Gpio_new (\<lambda>c w. ((9, []), w)) 12 ''out'' \<lparr>world = (), calls = []\<rparr> = Inr (g, s') \<and> calls s' = [] \<and>
     \<not> isOpen g \<and> Gpio_delete (\<lambda>c w. ((9, []), w)) g s' = Inl Uninitialised"
proof -
  have "pin_name 12 ''out'' = None"
    by (simp add: pin_name_def)
  then show ?thesis
    using Gpio_new_open_state [of "\<lambda>c w. ((9, []), w)" 12 "''out''" "\<lparr>world = (), calls = []\<rparr>"] by auto
qed

text \<open>
  No two pins share a GPIO: the tables give different names to different pin numbers and
  directions, so driving one output never drives, and reading one input never reads, another.
\<close>

theorem pin_names_distinct:
  assumes "SetPin p g = (True, h)" and "SetPin p' g' = (True, h')" and "PinName h = PinName h'"
  shows "p = p' \<and> mode g = mode g'"
proof -
  let ?t = "TQ3568_GPIO_Out_Pin @ TQ3568_GPIO_In_Pin"
  define ix where "ix p m = (if m = ''out'' then nat (p - 1) else 11 + nat (p - 1))" for p m
  have d: "distinct ?t"
    by (simp add: TQ3568_GPIO_Out_Pin_def TQ3568_GPIO_In_Pin_def)
  have l: "length TQ3568_GPIO_Out_Pin = 11" "length TQ3568_GPIO_In_Pin = 11"
    by (simp_all add: TQ3568_GPIO_Out_Pin_def TQ3568_GPIO_In_Pin_def)
  have n: "ix p m < length ?t \<and> ?t ! ix p m = n \<and> 1 \<le> p \<and> p \<le> 11 \<and> (m = ''out'' \<or> m = ''in'')"
    if "pin_name p m = Some n" for p m n
    using that by (auto simp: pin_name_def ix_def nth_append l split: if_splits)
  have named: "pin_name p (mode g) = Some (PinName h)" "pin_name p' (mode g') = Some (PinName h)"
    using assms by (auto simp: SetPin_conv split: option.splits)
  have "ix p (mode g) = ix p' (mode g')"
    using nth_eq_iff_index_eq [OF d] n [OF named(1)] n [OF named(2)] by metis
  then show ?thesis
    using n [OF named(1)] n [OF named(2)] by (auto simp: ix_def split: if_splits)
qed

theorem pin_names_distinct_witness:
  "\<not> (\<exists>h'. SetPin 8 \<lparr>fd = None, Pin = 8, PinName = [], mode = ''out'', isOpen = False\<rparr> = (True, h') \<and>
     PinName h' = ''97'')"
proof
  let ?g = "\<lparr>fd = None, Pin = 7, PinName = [], mode = ''out'', isOpen = False\<rparr>"
  let ?g8 = "\<lparr>fd = None, Pin = 8, PinName = [], mode = ''out'', isOpen = False\<rparr>"
  assume "\<exists>h'. SetPin 8 ?g8 = (True, h') \<and> PinName h' = ''97''"
  then obtain h' where h': "SetPin 8 ?g8 = (True, h')" "PinName h' = ''97''"
    by blast
  have "SetPin 7 ?g = (True, ?g\<lparr>PinName := ''97''\<rparr>)"
    by (simp add: SetPin_conv pin_name_def TQ3568_GPIO_Out_Pin_def)
  from pin_names_distinct [OF this h'(1)] h'(2) show False
    by simp
qed

end
