(* ===== verification/Tcp_Server.thy ===== *)
theory Tcp_Server
  imports Os
begin

text \<open>
  \<open>TcpServer\<close> (src/TcpServer.cpp): one listening socket that keeps a single client. A new
  connection replaces the old one. The descriptors are not initialised by the constructor; using
  one before it is set is a fault. \<open>Spawn_accept\<close> in the trace is the start of \<open>AcceptThread\<close>.
\<close>

section \<open>The code\<close>

record tcp_server =
  connected :: bool
  newfd :: "int option"
  sockfd :: "int option"
  server_port :: nat

definition TcpServer_new :: "nat \<Rightarrow> tcp_server" where
  "TcpServer_new p = \<lparr>connected = False, newfd = None, sockfd = None, server_port = p mod 2 ^ 16\<rparr>"

definition set_socket_options :: "'w kernel \<Rightarrow> int \<Rightarrow> 'w os \<Rightarrow> 'w os" where
  "set_socket_options K sock s =
     fold (\<lambda>(opt, v) s. snd (do_sys K (Setsockopt sock opt v) s))
       [(''SO_KEEPALIVE'', 1), (''TCP_KEEPIDLE'', 5), (''TCP_KEEPINTVL'', 1), (''TCP_KEEPCNT'', 3),
        (''SO_REUSEADDR'', 1), (''TCP_NODELAY'', 1)] s"

definition TcpServer_Open :: "'w kernel \<Rightarrow> tcp_server \<Rightarrow> 'w os \<Rightarrow> bool \<times> tcp_server \<times> 'w os" where
  "TcpServer_Open K t s =
     (let (r, s) = do_sys K Socket s; sock = fst r; t = t\<lparr>sockfd := Some sock\<rparr>
      in if sock < 0 then (False, t, s)
         else let s = set_socket_options K sock s;
                  (r, s) = do_sys K (Bind sock (server_port t)) s
         in if fst r < 0 then (False, t, snd (do_sys K (Close_fd sock) s))
         else let (r, s) = do_sys K (Listen sock 5) s
         in if fst r < 0 then (False, t, snd (do_sys K (Close_fd sock) s))
         else (True, t, snd (do_sys K Spawn_accept s)))"

definition TcpServer_Close :: "'w kernel \<Rightarrow> tcp_server \<Rightarrow> 'w os \<Rightarrow> (bool \<times> tcp_server \<times> 'w os) res" where
  "TcpServer_Close K t s =
     (let t = t\<lparr>connected := False\<rparr>
      in case newfd t of
           None \<Rightarrow> Inl Uninitialised
         | Some f \<Rightarrow> let (_, s) = do_sys K (Shutdown f) s; (_, s) = do_sys K (Close_fd f) s
                     in Inr (True, t, s))"

definition WriteByte :: "'w kernel \<Rightarrow> byte list \<Rightarrow> tcp_server \<Rightarrow> 'w os \<Rightarrow> (bool \<times> 'w os) res" where
  "WriteByte K buffer t s =
     (if \<not> connected t then Inr (False, s)
      else case newfd t of
             None \<Rightarrow> Inl Uninitialised
           | Some f \<Rightarrow> Inr (True, snd (do_sys K (Send_sock f buffer) s)))"

definition RecvByte :: "'w kernel \<Rightarrow> nat \<Rightarrow> tcp_server \<Rightarrow> 'w os \<Rightarrow> ((int \<times> byte list) \<times> 'w os) res" where
  "RecvByte K len t s =
     (case newfd t of None \<Rightarrow> Inl Uninitialised | Some f \<Rightarrow> Inr (do_sys K (Recv_sock f len) s))"

definition ReadByte ::
  "'w kernel \<Rightarrow> nat \<Rightarrow> int \<Rightarrow> tcp_server \<Rightarrow> 'w os \<Rightarrow> ((int \<times> byte list) \<times> 'w os) res" where
  "ReadByte K len timeout t s =
     (if \<not> connected t then Inr ((-1, []), s)
      else case newfd t of
             None \<Rightarrow> Inl Uninitialised
           | Some f \<Rightarrow>
               let (r, s) = do_sys K (Select_fd f timeout) s
               in if fst r < 0 then Inr ((-1, []), s)
                  else if fst r = 0 then Inr ((0, []), s)
                  else Inr (do_sys K (Recv_sock f len) s))"

text \<open>The result is a \<open>bool\<close>: \<open>return -1\<close> is true, \<open>return new_fd\<close> is false for descriptor 0.\<close>

definition TcpServer_Accept :: "'w kernel \<Rightarrow> tcp_server \<Rightarrow> 'w os \<Rightarrow> (bool \<times> tcp_server \<times> 'w os) res" where
  "TcpServer_Accept K t s =
     (case sockfd t of
        None \<Rightarrow> Inl Uninitialised
      | Some sock \<Rightarrow>
          let (r, s) = do_sys K (Accept_conn sock) s; new_fd = fst r
          in if new_fd < 0 then Inr (True, t, s)
             else bindE (if connected t then TcpServer_Close K t s else Inr (True, t, s)) (\<lambda>(_, t, s).
                  Inr (new_fd \<noteq> 0, t\<lparr>newfd := Some new_fd, connected := True\<rparr>, s)))"

text \<open>One turn of \<open>AcceptThread\<close>; the first result says that it pauses for a second.\<close>

definition AcceptThread_round :: "'w kernel \<Rightarrow> tcp_server \<Rightarrow> 'w os \<Rightarrow> (bool \<times> tcp_server \<times> 'w os) res" where
  "AcceptThread_round K t s = bindE (TcpServer_Accept K t s) (\<lambda>(ok, t, s). Inr (ok = False, t, s))"

section \<open>Lemmas\<close>

definition server_ok :: "tcp_server \<Rightarrow> bool" where
  "server_ok t \<longleftrightarrow> (connected t \<longrightarrow> (\<exists>f\<ge>0. newfd t = Some f))"

lemma server_ok_new [simp]: "server_ok (TcpServer_new p)" and not_connected_new [simp]: "\<not> connected (TcpServer_new p)"
  by (simp_all add: TcpServer_new_def server_ok_def)

lemma WriteByte_connected:
  assumes "server_ok t" and "connected t"
  shows "\<exists>f. newfd t = Some f \<and> WriteByte K buf t s = Inr (True, after K (Send_sock f buf) s)"
  using assms by (auto simp: WriteByte_def server_ok_def)

lemma WriteByte_ok:
  assumes "server_ok t"
  shows "\<exists>s'. WriteByte K buf t s = Inr (connected t, s') \<and>
    calls s' = calls s @ (if connected t then [Send_sock (the (newfd t)) buf] else [])"
  using assms by (auto simp: WriteByte_def server_ok_def)

section \<open>Properties\<close>



end
