(* ===== verification/KernelList.thy ===== *)
theory KernelList
  imports LinkedList
begin

text \<open>
  \<open>Klist\<close> (src/kernel_list.cpp, include/kernel_list.h): the list of display tasks, one node per
  screen line, each with the frame to send and a \<open>status\<close> flag that says it is waiting to be sent.
  The methods run on the heap of \<open>LinkedList\<close>; what the rest of the program relies on is stated on
  the abstract contents, the payloads of the nodes in list order.

  Every method body is one critical section of \<open>Mutex\<close>, so it is one step here, but for \<open>Node_Change\<close>:
  it releases the mutex between its search and the insertion of a new node, and is the composition of
  two steps, \<open>change_node\<close> and \<open>append_change\<close>, that other threads may come between (theory
  \<open>Interleaving\<close>); and for \<open>ListTaskInit\<close>, which takes the mutex once for each node. \<open>new\<close> does not
  return NULL in C++ (the checks for it in the source are dead). What fresh memory holds is the
  field \<open>Junk\<close> of the state: the members that the source leaves uninitialised take their value
  from it.
\<close>

section \<open>The code\<close>

record Node_Data =
  status :: bool
  Line :: int
  QLED_Data_Len :: int
  TimeOut :: nat
  QLED_Data :: "byte list"

record klist =
  Head :: "addr option"
  Heap :: "Node_Data store"
  Junk :: Node_Data

definition CreateNode :: "klist \<Rightarrow> addr \<times> klist" where
  "CreateNode k =
     (let (node, s) = alloc (Junk k) (Heap k);
          s = s\<lparr>payload := (payload s)(node := (payload s node)\<lparr>status := False\<rparr>)\<rparr>;
          s = s\<lparr>next_of := (next_of s)(node := None), prev_of := (prev_of s)(node := None)\<rparr>
      in (node, k\<lparr>Heap := s\<rparr>))"

text \<open>The constructor \<open>Klist::Klist\<close> with \<open>Init\<close>, on an empty heap.\<close>

definition Klist_Init :: "klist \<Rightarrow> klist" where
  "Klist_Init k =
     (let (h, s) = alloc (Junk k) (Heap k)
      in k\<lparr>Head := Some h, Heap := INIT_LIST_HEAD h s\<rparr>)"

definition Klist_new :: "Node_Data \<Rightarrow> klist" where
  "Klist_new junk = Klist_Init
     \<lparr>Head = None,
      Heap = \<lparr>next_of = (\<lambda>_. None), prev_of = (\<lambda>_. None), payload = (\<lambda>_. junk),
              allocated = (\<lambda>_. False), brk = 0\<rparr>,
      Junk = junk\<rparr>"

text \<open>\<open>&(Head->list)\<close>; with \<open>Head\<close> NULL the walk would follow a NULL pointer.\<close>

definition head_of :: "klist \<Rightarrow> addr res" where
  "head_of k = (case Head k of None \<Rightarrow> Inl NullPointer | Some h \<Rightarrow> Inr h)"

definition FindNode :: "bool \<Rightarrow> klist \<Rightarrow> addr option res" where
  "FindNode data_status k =
     bindE (head_of k) (\<lambda>h.
     bindE (list_for_each_safe h
              (\<lambda>p s. Inr (if status (payload s p) = data_status then Some p else None, s)) (Heap k))
       (\<lambda>(r, s). Inr r))"

definition HeadTail :: "addr option \<Rightarrow> klist \<Rightarrow> (bool \<times> klist) res" where
  "HeadTail new_node k =
     (case (Head k, new_node) of
        (Some h, Some a) \<Rightarrow> bindE (list_add_tail a h (Heap k)) (\<lambda>s. Inr (True, k\<lparr>Heap := s\<rparr>))
      | _ \<Rightarrow> Inr (False, k))"

definition HeadAdd :: "addr option \<Rightarrow> klist \<Rightarrow> (bool \<times> klist) res" where
  "HeadAdd new_node k =
     (case (Head k, new_node) of
        (Some h, Some a) \<Rightarrow> bindE (list_add a h (Heap k)) (\<lambda>s. Inr (True, k\<lparr>Heap := s\<rparr>))
      | _ \<Rightarrow> Inr (False, k))"

definition NodeTail :: "addr option \<Rightarrow> addr option \<Rightarrow> klist \<Rightarrow> (bool \<times> klist) res" where
  "NodeTail node new_node k =
     (case (node, new_node) of
        (Some x, Some a) \<Rightarrow> bindE (list_add_tail a x (Heap k)) (\<lambda>s. Inr (True, k\<lparr>Heap := s\<rparr>))
      | _ \<Rightarrow> Inr (False, k))"

definition NodeAdd :: "addr option \<Rightarrow> addr option \<Rightarrow> klist \<Rightarrow> (bool \<times> klist) res" where
  "NodeAdd node new_node k =
     (case (node, new_node) of
        (Some x, Some a) \<Rightarrow> bindE (list_add a x (Heap k)) (\<lambda>s. Inr (True, k\<lparr>Heap := s\<rparr>))
      | _ \<Rightarrow> Inr (False, k))"

definition del_free :: "addr \<Rightarrow> 'd store \<Rightarrow> 'd store res" where
  "del_free p s = bindE (list_del p s) (free p)"

definition DelALL :: "klist \<Rightarrow> (bool \<times> klist) res" where
  "DelALL k =
     bindE (head_of k) (\<lambda>h.
     bindE (list_for_each_safe h
              (\<lambda>p s. bindE (del_free p s) (\<lambda>s. Inr (None :: unit option, s))) (Heap k)) (\<lambda>(r, s).
     bindE (free h s) (\<lambda>s. Inr (False, k\<lparr>Head := None, Heap := s\<rparr>))))"

definition DelNode :: "bool \<Rightarrow> klist \<Rightarrow> (bool \<times> klist) res" where
  "DelNode data_status k =
     bindE (head_of k) (\<lambda>h.
     bindE (list_for_each_safe h
              (\<lambda>p s. if status (payload s p) = data_status
                     then bindE (del_free p s) (\<lambda>s. Inr (None :: unit option, s))
                     else Inr (None, s)) (Heap k)) (\<lambda>(r, s).
     Inr (True, k\<lparr>Heap := s\<rparr>)))"

text \<open>\<open>Node_Change\<close> up to its unlock: the search, and the update of the node it finds.\<close>

definition change_node :: "Node_Data \<Rightarrow> klist \<Rightarrow> (bool \<times> klist) res" where
  "change_node data k =
     bindE (head_of k) (\<lambda>h.
     bindE (list_for_each_safe h
              (\<lambda>p s. if Line (payload s p) = Line data
                     then Inr (Some (), s\<lparr>payload := (payload s)(p := data\<lparr>status := True\<rparr>)\<rparr>)
                     else Inr (None, s)) (Heap k)) (\<lambda>(r, s).
     Inr (r = Some (), k\<lparr>Heap := s\<rparr>)))"

text \<open>Its rest, when the search found nothing: a new node, visible to others from \<open>HeadTail\<close> on.\<close>

definition append_change :: "Node_Data \<Rightarrow> klist \<Rightarrow> klist res" where
  "append_change data k =
     (let (p, k) = CreateNode k;
          s = Heap k;
          k = k\<lparr>Heap := s\<lparr>payload := (payload s)(p := data\<lparr>status := True\<rparr>)\<rparr>\<rparr>
      in bindE (HeadTail (Some p) k) (\<lambda>(_, k). Inr k))"

definition Node_Change :: "Node_Data \<Rightarrow> klist \<Rightarrow> (bool \<times> klist) res" where
  "Node_Change data k =
     bindE (change_node data k) (\<lambda>(found, k).
     if found then Inr (True, k) else bindE (append_change data k) (\<lambda>k. Inr (True, k)))"

text \<open>
  The local \<open>Node_Data\<close> of \<open>ShowAdd\<close>: \<open>memcpy (data.QLED_Data, QLED_Data, QLED_Data_Len)\<close> into its 1024
  bytes. A negative length becomes a huge \<open>size_t\<close>; reading past the source array is a fault too.
\<close>

definition show_data :: "int \<Rightarrow> byte list \<Rightarrow> int \<Rightarrow> nat \<Rightarrow> klist \<Rightarrow> Node_Data res" where
  "show_data L src len timeout k =
     (if len < 0 \<or> int (length src) < len then Inl OutOfBounds
      else bindE (wr_block (QLED_Data (Junk k)) 0 (take (nat len) src)) (\<lambda>buf.
           Inr ((Junk k)\<lparr>QLED_Data_Len := len, QLED_Data := buf, TimeOut := timeout, Line := L\<rparr>)))"

definition ShowAdd :: "int \<Rightarrow> byte list \<Rightarrow> int \<Rightarrow> nat \<Rightarrow> klist \<Rightarrow> (bool \<times> klist) res" where
  "ShowAdd L src len timeout k =
     bindE (show_data L src len timeout k) (\<lambda>data.
     bindE (Node_Change data k) (\<lambda>(_, k). Inr (True, k)))"

definition add_task_node :: "int \<Rightarrow> klist \<Rightarrow> klist res" where
  "add_task_node i k =
     (let (node, k) = CreateNode k;
          s = Heap k;
          k = k\<lparr>Heap := s\<lparr>payload := (payload s)(node := (payload s node)\<lparr>Line := i\<rparr>)\<rparr>\<rparr>
      in bindE (HeadTail (Some node) k) (\<lambda>(_, k). Inr k))"

definition ListTaskInit :: "klist \<Rightarrow> klist res" where
  "ListTaskInit k = foldE add_task_node [0..10] k"

section \<open>The abstract contents\<close>

fun entries :: "nat \<Rightarrow> addr \<Rightarrow> addr option \<Rightarrow> 'd store \<Rightarrow> addr list" where
  "entries 0 h p s = []"
| "entries (Suc fuel) h p s =
     (case p of None \<Rightarrow> [] | Some a \<Rightarrow> if a = h then [] else a # entries fuel h (next_of s a) s)"

definition nodes :: "klist \<Rightarrow> addr list" where
  "nodes k = (case Head k of None \<Rightarrow> []
     | Some h \<Rightarrow> entries (Suc (brk (Heap k))) h (next_of (Heap k) h) (Heap k))"

definition contents :: "klist \<Rightarrow> Node_Data list" where
  "contents k = map (payload (Heap k)) (nodes k)"

definition klist_ok :: "klist \<Rightarrow> bool" where
  "klist_ok k \<longleftrightarrow> (case Head k of None \<Rightarrow> False | Some h \<Rightarrow> dlist (Heap k) h (nodes k))"

lemma entries_chain:
  "chain s a xs h \<Longrightarrow> h \<notin> set xs \<Longrightarrow> length xs < fuel \<Longrightarrow> entries fuel h (next_of s a) s = xs"
proof (induction xs arbitrary: a fuel)
  case Nil
  then show ?case
    by (cases fuel) auto
next
  case (Cons x xs)
  then show ?case
    by (cases fuel) auto
qed

lemma dlist_entries: "dlist s h xs \<Longrightarrow> entries (Suc (brk s)) h (next_of s h) s = xs"
  using entries_chain [of s h xs h "Suc (brk s)"] dlist_lengths [of s h xs] by (auto simp: dlist_def)

lemma klist_okI:
  assumes "Head k = Some h" and "dlist (Heap k) h xs"
  shows "klist_ok k" and "nodes k = xs" and "contents k = map (payload (Heap k)) xs"
  using assms dlist_entries [OF assms(2)] by (simp_all add: klist_ok_def nodes_def contents_def)

lemma klist_okE:
  assumes "klist_ok k"
  obtains h where "Head k = Some h" and "dlist (Heap k) h (nodes k)"
  using assms by (auto simp: klist_ok_def split: option.splits)

lemma head_of_ok [simp]: "Head k = Some h \<Longrightarrow> head_of k = Inr h"
  by (simp add: head_of_def)

subsection \<open>Construction and insertion\<close>

lemma Klist_new_ok: "klist_ok (Klist_new junk)" and contents_Klist_new: "contents (Klist_new junk) = []"
  and Junk_Klist_new [simp]: "Junk (Klist_new junk) = junk"
proof -
  let ?k = "Klist_new junk"
  have "Head ?k = Some 0" and "dlist (Heap ?k) 0 []" and J: "Junk ?k = junk"
    by (simp_all add: Klist_new_def Klist_Init_def alloc_def INIT_LIST_HEAD_def dlist_def)
  from klist_okI [OF this(1,2)] show "klist_ok ?k" and "contents ?k = []"
    by simp_all
  show "Junk ?k = junk" by (rule J)
qed

lemma CreateNode_ok:
  assumes "Head k = Some h" and "dlist (Heap k) h xs" and "CreateNode k = (a, k')"
  shows "Head k' = Some h" and "dlist (Heap k') h xs" and "a \<notin> set (h # xs)"
    and "allocated (Heap k') a" and "a < brk (Heap k')"
    and "payload (Heap k') = (payload (Heap k))(a := (Junk k)\<lparr>status := False\<rparr>)"
    and "Junk k' = Junk k"
proof -
  obtain s1 where al: "alloc (Junk k) (Heap k) = (a, s1)"
    using assms(3) by (auto simp: CreateNode_def Let_def split: prod.splits)
  note f = alloc_dlist [OF assms(2) al]
  have k': "k' = k\<lparr>Heap := s1\<lparr>payload := (payload s1)(a := (payload s1 a)\<lparr>status := False\<rparr>),
      next_of := (next_of s1)(a := None), prev_of := (prev_of s1)(a := None)\<rparr>\<rparr>"
    using assms(3) al by (auto simp: CreateNode_def Let_def)
  have "chain (Heap k') h xs h = chain s1 h xs h"
    unfolding k' using f(2) by (intro chain_cong) auto
  then show "dlist (Heap k') h xs"
    using f(1) by (auto simp: dlist_def k')
  show "payload (Heap k') = (payload (Heap k))(a := (Junk k)\<lparr>status := False\<rparr>)"
    using f(5) by (simp add: k')
qed (use alloc_dlist [OF assms(2)] assms in
  \<open>auto simp: CreateNode_def Let_def split: prod.splits\<close>)

lemma HeadTail_ok:
  assumes "Head k = Some h" and "dlist (Heap k) h xs" and "a \<notin> set (h # xs)"
    and "allocated (Heap k) a" and "a < brk (Heap k)"
  shows "\<exists>k'. HeadTail (Some a) k = Inr (True, k') \<and> Head k' = Some h \<and>
    dlist (Heap k') h (xs @ [a]) \<and> payload (Heap k') = payload (Heap k) \<and> Junk k' = Junk k"
  using assms list_add_tail_head [OF assms(2-5)] by (simp add: HeadTail_def)

text \<open>
  \<open>CreateNode\<close>, filling in the new node and \<open>HeadTail\<close>, the sequence of \<open>Node_Change\<close> and of
  \<open>ListTaskInit\<close>: the list grows at its end by the node's data.
\<close>

lemma append_node:
  assumes "klist_ok k" and "CreateNode k = (a, k1)"
  shows "\<exists>k'. HeadTail (Some a) (k1\<lparr>Heap := (Heap k1)\<lparr>payload := (payload (Heap k1))(a := d)\<rparr>\<rparr>)
      = Inr (True, k') \<and> klist_ok k' \<and> contents k' = contents k @ [d] \<and> Junk k' = Junk k \<and>
        nodes k' = nodes k @ [a] \<and> a \<notin> set (nodes k) \<and> payload (Heap k') = (payload (Heap k))(a := d)"
proof -
  obtain h where h: "Head k = Some h" "dlist (Heap k) h (nodes k)"
    using assms(1) by (rule klist_okE)
  note c = CreateNode_ok [OF h assms(2)]
  let ?k2 = "k1\<lparr>Heap := (Heap k1)\<lparr>payload := (payload (Heap k1))(a := d)\<rparr>\<rparr>"
  obtain k' where k': "HeadTail (Some a) ?k2 = Inr (True, k')" "Head k' = Some h"
      "dlist (Heap k') h (nodes k @ [a])" "payload (Heap k') = payload (Heap ?k2)" "Junk k' = Junk ?k2"
    using HeadTail_ok [of ?k2 h "nodes k" a] c by auto
  moreover have "map (payload (Heap k')) (nodes k @ [a]) = contents k @ [d]"
    using c(3,6) k'(4) by (simp add: contents_def)
  ultimately show ?thesis
    using klist_okI [OF k'(2,3)] c(3,6,7) k'(4) by (intro exI [of _ k']) simp
qed

subsection \<open>Walks that search\<close>

lemma removal_safe_search [dlist_intros]:
  "removal_safe h (\<lambda>p s. Inr (if P p s then Some (f p s) else None, s))"
  by (fastforce simp: removal_safe_def intro: exI [of _ "ps @ [x]" for ps x])

lemma walk_search:
  "walk (\<lambda>p s. Inr (if P p s then Some p else None, s)) xs s = Inr (find (\<lambda>p. P p s) xs, s)"
  by (induction xs) auto

lemma FindNode_ok:
  assumes "klist_ok k"
  shows "FindNode st k = Inr (find (\<lambda>a. status (payload (Heap k) a) = st) (nodes k))"
proof -
  obtain h where h: "Head k = Some h" "dlist (Heap k) h (nodes k)"
    using assms by (rule klist_okE)
  let ?body = "\<lambda>p s. Inr (if status (payload s p) = st then Some p else None, s)"
  have "list_for_each_safe h ?body (Heap k) = walk ?body (nodes k) (Heap k)"
    using h by (intro list_for_each_safe_walk removal_safe_search)
  also have "\<dots> = Inr (find (\<lambda>a. status (payload (Heap k) a) = st) (nodes k), Heap k)"
    by (rule walk_search)
  finally show ?thesis
    using h(1) by (simp add: FindNode_def)
qed

subsection \<open>Node\_Change: replace the node of a line, or append one\<close>

fun put_line :: "Node_Data \<Rightarrow> Node_Data list \<Rightarrow> Node_Data list" where
  "put_line d [] = [d\<lparr>status := True\<rparr>]"
| "put_line d (x # xs) = (if Line x = Line d then d\<lparr>status := True\<rparr> # xs else x # put_line d xs)"

lemma put_line_absent: "\<forall>x\<in>set xs. Line x \<noteq> Line d \<Longrightarrow> put_line d xs = xs @ [d\<lparr>status := True\<rparr>]"
  by (induction xs) auto

lemma put_line_found:
  "\<forall>y\<in>set ys. Line y \<noteq> Line d \<Longrightarrow> Line x = Line d \<Longrightarrow>
   put_line d (ys @ x # zs) = ys @ d\<lparr>status := True\<rparr> # zs"
  by (induction ys) auto

abbreviation change_body ::
  "Node_Data \<Rightarrow> addr \<Rightarrow> Node_Data store \<Rightarrow> (unit option \<times> Node_Data store) res" where
  "change_body d \<equiv> (\<lambda>p s.
     if Line (payload s p) = Line d
     then Inr (Some (), s\<lparr>payload := (payload s)(p := d\<lparr>status := True\<rparr>)\<rparr>)
     else Inr (None, s))"

lemma removal_safe_change [dlist_intros]: "removal_safe h (change_body d)"
  by (fastforce simp: removal_safe_def split: if_splits intro: exI [of _ "ps @ [x]" for ps x])

lemma walk_change:
  "walk (change_body d) xs s =
     (case find (\<lambda>a. Line (payload s a) = Line d) xs of
        None \<Rightarrow> Inr (None, s)
      | Some a \<Rightarrow> Inr (Some (), s\<lparr>payload := (payload s)(a := d\<lparr>status := True\<rparr>)\<rparr>))"
  by (induction xs) auto

lemma put_line_map_found:
  assumes "find (\<lambda>a. Line (f a) = Line d) xs = Some a" and "distinct xs"
  shows "put_line d (map f xs) = map (f(a := d\<lparr>status := True\<rparr>)) xs"
  using assms
proof (induction xs)
  case (Cons x xs)
  show ?case
  proof (cases "Line (f x) = Line d")
    case True
    with Cons.prems show ?thesis by auto
  next
    case False
    then have "find (\<lambda>a. Line (f a) = Line d) xs = Some a"
      using Cons.prems by simp
    then have "a \<in> set xs"
      by (auto simp: find_Some_iff)
    with False Cons show ?thesis by auto
  qed
qed simp

text \<open>A node that is in the list and waits to be sent stays so while producers post.\<close>

definition keeps_waiting :: "klist \<Rightarrow> klist \<Rightarrow> bool" where
  "keeps_waiting k k' \<longleftrightarrow> (\<forall>a\<in>set (nodes k).
     a \<in> set (nodes k') \<and> (status (payload (Heap k) a) \<longrightarrow> status (payload (Heap k') a)))"

lemma change_node_walk:
  assumes "klist_ok k"
  shows "change_node d k = (case find (\<lambda>a. Line (payload (Heap k) a) = Line d) (nodes k) of
      None \<Rightarrow> Inr (False, k)
    | Some a \<Rightarrow> Inr (True, k\<lparr>Heap := (Heap k)\<lparr>payload := (payload (Heap k))(a := d\<lparr>status := True\<rparr>)\<rparr>\<rparr>))"
proof -
  obtain h where h: "Head k = Some h" "dlist (Heap k) h (nodes k)"
    using assms by (rule klist_okE)
  have "list_for_each_safe h (change_body d) (Heap k) = walk (change_body d) (nodes k) (Heap k)"
    using h(2) by (intro list_for_each_safe_walk removal_safe_change)
  then show ?thesis
    using h(1) by (simp add: change_node_def walk_change split: option.splits)
qed

text \<open>The two critical sections: a line with a node gets the new data, any other line stays for the second.\<close>

lemma change_node_missed:
  assumes "klist_ok k" and "Line d \<notin> Line ` set (contents k)"
  shows "change_node d k = Inr (False, k)"
proof -
  have "find (\<lambda>a. Line (payload (Heap k) a) = Line d) (nodes k) = None"
    using assms(2) unfolding find_None_iff contents_def set_map image_image by (metis (no_types, lifting) imageI)
  then show ?thesis
    by (simp add: change_node_walk [OF assms(1)])
qed

lemma change_node_found:
  assumes "klist_ok k" and "Line d \<in> Line ` set (contents k)"
  shows "\<exists>k'. change_node d k = Inr (True, k') \<and> klist_ok k' \<and> contents k' = put_line d (contents k) \<and>
    Junk k' = Junk k \<and> keeps_waiting k k'"
proof -
  obtain h where h: "Head k = Some h" "dlist (Heap k) h (nodes k)"
    using assms(1) by (rule klist_okE)
  obtain a where a: "find (\<lambda>a. Line (payload (Heap k) a) = Line d) (nodes k) = Some a"
    using assms(2) by (cases "find (\<lambda>a. Line (payload (Heap k) a) = Line d) (nodes k)")
      (auto simp: find_None_iff contents_def)
  let ?k' = "k\<lparr>Heap := (Heap k)\<lparr>payload := (payload (Heap k))(a := d\<lparr>status := True\<rparr>)\<rparr>\<rparr>"
  have "change_node d k = Inr (True, ?k')"
    by (simp add: change_node_walk [OF assms(1)] a)
  moreover have "distinct (nodes k)"
    using h(2) by (simp add: dlist_def)
  ultimately show ?thesis
    using klist_okI [of ?k' h "nodes k"] h put_line_map_found [OF a]
    by (simp add: contents_def keeps_waiting_def)
qed

lemma append_change_ok:
  assumes "klist_ok k"
  shows "\<exists>k'. append_change d k = Inr k' \<and> klist_ok k' \<and> contents k' = contents k @ [d\<lparr>status := True\<rparr>] \<and>
    Junk k' = Junk k \<and> keeps_waiting k k'"
proof -
  obtain a k1 where cr: "CreateNode k = (a, k1)"
    by (cases "CreateNode k")
  then show ?thesis
    using append_node [OF assms cr, of "d\<lparr>status := True\<rparr>"]
    by (auto simp: append_change_def Let_def keeps_waiting_def)
qed

lemma Node_Change_refines:
  assumes "klist_ok k"
  shows "\<exists>k'. Node_Change d k = Inr (True, k') \<and> klist_ok k' \<and>
    contents k' = put_line d (contents k) \<and> Junk k' = Junk k \<and> keeps_waiting k k'"
proof (cases "Line d \<in> Line ` set (contents k)")
  case True
  then show ?thesis
    using change_node_found [OF assms] by (force simp: Node_Change_def)
next
  case False
  then have "put_line d (contents k) = contents k @ [d\<lparr>status := True\<rparr>]"
    by (intro put_line_absent) (metis imageI)
  then show ?thesis
    using append_change_ok [OF assms, of d] change_node_missed [OF assms False] by (auto simp: Node_Change_def)
qed

subsection \<open>Removal\<close>

lemma del_free_ok:
  assumes "dlist s h (ps @ x # xs)"
  shows "\<exists>s'. del_free x s = Inr s' \<and> dlist s' h (ps @ xs) \<and> payload s' = payload s \<and>
    allocated s' = (allocated s)(x := False) \<and> brk s' = brk s"
proof -
  obtain t where t: "list_del x s = Inr t" "dlist t h (ps @ xs)" "payload t = payload s"
      "allocated t = allocated s" "brk t = brk s"
    using list_del_entry [OF assms] by blast
  have x: "allocated s x" "x \<notin> set (h # ps @ xs)"
    using assms by (auto simp: dlist_def)
  then obtain s' where s': "free x t = Inr s'" "s' = t\<lparr>allocated := (allocated t)(x := False)\<rparr>"
    using t(4) by (simp add: free_def)
  then have "dlist s' h (ps @ xs)"
    using free_dlist [OF t(2) x(2)] by blast
  with t s' show ?thesis
    by (auto simp: del_free_def)
qed

text \<open>
  One walk for both removing methods: the entries whose payload satisfies \<open>P\<close> are unlinked and
  freed, every other entry stays.
\<close>

abbreviation remove_body ::
  "('d \<Rightarrow> bool) \<Rightarrow> addr \<Rightarrow> 'd store \<Rightarrow> (unit option \<times> 'd store) res" where
  "remove_body P \<equiv> (\<lambda>p s. if P (payload s p)
     then bindE (del_free p s) (\<lambda>s. Inr (None, s)) else Inr (None, s))"

lemma removal_safe_remove [dlist_intros]: "removal_safe h (remove_body P)"
  unfolding removal_safe_def
proof (intro allI impI)
  fix s ps x xs r s'
  assume d: "dlist s h (ps @ x # xs)" and b: "remove_body P x s = Inr (r, s')"
  show "\<exists>ps'. dlist s' h (ps' @ xs)"
  proof (cases "P (payload s x)")
    case True
    then show ?thesis
      using del_free_ok [OF d] b by auto
  next
    case False
    then have "dlist s' h ((ps @ [x]) @ xs)"
      using d b by simp
    then show ?thesis by blast
  qed
qed

lemma walk_remove:
  assumes "dlist s h (ps @ xs)"
  shows "\<exists>s'. walk (remove_body P) xs s = Inr (None, s') \<and>
    dlist s' h (ps @ filter (\<lambda>x. \<not> P (payload s x)) xs) \<and> payload s' = payload s \<and>
    (\<forall>a. allocated s' a \<longleftrightarrow> allocated s a \<and> \<not> (a \<in> set xs \<and> P (payload s a)))"
  using assms
proof (induction xs arbitrary: ps s)
  case Nil
  then show ?case by simp
next
  case (Cons x xs)
  show ?case
  proof (cases "P (payload s x)")
    case True
    then obtain t where t: "remove_body P x s = Inr (None, t)" "dlist t h (ps @ xs)"
        "payload t = payload s" "allocated t = (allocated s)(x := False)"
      using del_free_ok [OF Cons.prems] by auto
    from Cons.IH [OF t(2)] show ?thesis
      using t True by auto
  next
    case False
    then have "dlist s h ((ps @ [x]) @ xs)"
      using Cons.prems by simp
    from Cons.IH [OF this] show ?thesis
      using False by auto
  qed
qed

lemma DelNode_ok:
  assumes "klist_ok k"
  shows "\<exists>k'. DelNode st k = Inr (True, k') \<and> klist_ok k' \<and>
    contents k' = filter (\<lambda>d. status d \<noteq> st) (contents k) \<and>
    (\<forall>a. allocated (Heap k') a \<longleftrightarrow> allocated (Heap k) a \<and>
       \<not> (a \<in> set (nodes k) \<and> status (payload (Heap k) a) = st))"
proof -
  obtain h where h: "Head k = Some h" "dlist (Heap k) h (nodes k)"
    using assms by (rule klist_okE)
  let ?P = "\<lambda>d :: Node_Data. status d = st"
  have walk: "list_for_each_safe h (remove_body ?P) (Heap k) = walk (remove_body ?P) (nodes k) (Heap k)"
    using h(2) by (intro list_for_each_safe_walk removal_safe_remove)
  obtain s' where s': "walk (remove_body ?P) (nodes k) (Heap k) = Inr (None, s')"
      "dlist s' h (filter (\<lambda>x. status (payload (Heap k) x) \<noteq> st) (nodes k))"
      "payload s' = payload (Heap k)"
      "\<forall>a. allocated s' a \<longleftrightarrow> allocated (Heap k) a \<and>
         \<not> (a \<in> set (nodes k) \<and> status (payload (Heap k) a) = st)"
    using walk_remove [of "Heap k" h "[]" "nodes k" ?P] h(2) by auto
  have "DelNode st k = Inr (True, k\<lparr>Heap := s'\<rparr>)"
    using h(1) walk s'(1) by (simp add: DelNode_def)
  moreover have "contents (k\<lparr>Heap := s'\<rparr>) = filter (\<lambda>d. status d \<noteq> st) (contents k)"
    using klist_okI [of "k\<lparr>Heap := s'\<rparr>" h] h(1) s'(2,3) by (simp add: contents_def filter_map comp_def)
  ultimately show ?thesis
    using klist_okI(1) [of "k\<lparr>Heap := s'\<rparr>" h] h(1) s'(2,4) by simp
qed

lemma DelALL_ok:
  assumes "klist_ok k"
  shows "\<exists>k'. DelALL k = Inr (False, k') \<and> Head k' = None \<and>
    (\<forall>a. allocated (Heap k') a \<longleftrightarrow>
       allocated (Heap k) a \<and> a \<notin> set (nodes k) \<and> Head k \<noteq> Some a)"
proof -
  obtain h where h: "Head k = Some h" "dlist (Heap k) h (nodes k)"
    using assms by (rule klist_okE)
  let ?P = "\<lambda>d :: Node_Data. True"
  have walk: "list_for_each_safe h (remove_body ?P) (Heap k) = walk (remove_body ?P) (nodes k) (Heap k)"
    using h(2) by (intro list_for_each_safe_walk removal_safe_remove)
  obtain s' where s': "walk (remove_body ?P) (nodes k) (Heap k) = Inr (None, s')"
      "dlist s' h []" "\<forall>a. allocated s' a \<longleftrightarrow> allocated (Heap k) a \<and> a \<notin> set (nodes k)"
    using walk_remove [of "Heap k" h "[]" "nodes k" ?P] h(2) by auto
  have "allocated s' h"
    using s'(2) by (simp add: dlist_def)
  then show ?thesis
    using h(1) walk s'(1,3) by (auto simp: DelALL_def free_def)
qed

subsection \<open>ListTaskInit and ShowAdd\<close>

lemma add_task_node_ok:
  assumes "klist_ok k"
  shows "\<exists>k'. add_task_node i k = Inr k' \<and> klist_ok k' \<and> Junk k' = Junk k \<and>
    contents k' = contents k @ [(Junk k)\<lparr>status := False, Line := i\<rparr>]"
proof -
  obtain h where h: "Head k = Some h" "dlist (Heap k) h (nodes k)"
    using assms by (rule klist_okE)
  obtain a k1 where cr: "CreateNode k = (a, k1)"
    by (cases "CreateNode k")
  have "payload (Heap k1) a = (Junk k)\<lparr>status := False\<rparr>"
    using CreateNode_ok(6) [OF h cr] by simp
  then show ?thesis
    using append_node [OF assms cr, of "(Junk k)\<lparr>status := False, Line := i\<rparr>"]
    by (auto simp: add_task_node_def cr Let_def)
qed

lemma add_task_nodes_ok:
  assumes "klist_ok k"
  shows "\<exists>k'. foldE add_task_node is k = Inr k' \<and> klist_ok k' \<and> Junk k' = Junk k \<and>
    contents k' = contents k @ map (\<lambda>i. (Junk k)\<lparr>status := False, Line := i\<rparr>) is"
  using assms
proof (induction "is" arbitrary: k)
  case Nil
  then show ?case by simp
next
  case (Cons i "is")
  obtain k1 where k1: "add_task_node i k = Inr k1" "klist_ok k1" "Junk k1 = Junk k"
      "contents k1 = contents k @ [(Junk k)\<lparr>status := False, Line := i\<rparr>]"
    using add_task_node_ok [OF Cons.prems] by blast
  then show ?case
    using Cons.IH [OF k1(2)] by auto
qed

lemma ListTaskInit_ok:
  assumes "klist_ok k"
  shows "\<exists>k'. ListTaskInit k = Inr k' \<and> klist_ok k' \<and> Junk k' = Junk k \<and>
    contents k' = contents k @ map (\<lambda>i. (Junk k)\<lparr>status := False, Line := i\<rparr>) [0..10]"
  using add_task_nodes_ok [OF assms] by (simp add: ListTaskInit_def)

definition shown :: "Node_Data \<Rightarrow> int \<Rightarrow> byte list \<Rightarrow> nat \<Rightarrow> Node_Data" where
  "shown junk L frame timeout =
     junk\<lparr>QLED_Data_Len := int (length frame), QLED_Data := frame @ drop (length frame) (QLED_Data junk),
          TimeOut := timeout, Line := L\<rparr>"

lemma show_data_ok:
  assumes "length frame \<le> length (QLED_Data (Junk k))"
  shows "show_data L (frame @ rest) (int (length frame)) timeout k = Inr (shown (Junk k) L frame timeout)"
  using assms by (simp add: show_data_def shown_def wr_block_def)

lemma ShowAdd_ok:
  assumes "klist_ok k" and "length frame \<le> length (QLED_Data (Junk k))"
  shows "\<exists>k'. ShowAdd L (frame @ rest) (int (length frame)) timeout k = Inr (True, k') \<and> klist_ok k' \<and>
    Junk k' = Junk k \<and> contents k' = put_line (shown (Junk k) L frame timeout) (contents k) \<and>
    keeps_waiting k k'"
  using Node_Change_refines [OF assms(1), of "shown (Junk k) L frame timeout"] show_data_ok [OF assms(2)]
  by (auto simp: ShowAdd_def)

lemma ShowAdd_overflow:
  assumes "length (QLED_Data (Junk k)) < length frame"
  shows "ShowAdd L (frame @ rest) (int (length frame)) timeout k = Inl OutOfBounds"
  using assms by (simp add: ShowAdd_def show_data_def wr_block_def)

lemma set_put_line_Line: "Line ` set (put_line d xs) = insert (Line d) (Line ` set xs)"
  by (induction xs) auto

lemma distinct_put_line: "distinct (map Line xs) \<Longrightarrow> distinct (map Line (put_line d xs))"
proof (induction xs)
  case (Cons x xs)
  have "Line x \<notin> Line ` set (put_line d xs)" if "Line x \<noteq> Line d"
    using Cons.prems that by (simp add: set_put_line_Line)
  with Cons show ?case
    by auto
qed simp

end
