(* ===== verification/Mailbox.thy ===== *)
theory Mailbox
  imports Prelude
begin

text \<open>
  The contract between the producers of display frames (the \<open>QLED\<close> methods) and the display
  thread: a mailbox with one slot per screen line. Posting to a line replaces what the line had
  waiting; fetching takes one waiting frame out. The producers and the thread are verified
  against these laws; \<open>Klist\<close> provides them (theory \<open>Display\<close>).
\<close>

section \<open>The interface\<close>

locale mailbox =
  fixes ok :: "'q \<Rightarrow> bool"
    and view :: "'q \<Rightarrow> int \<Rightarrow> (byte list \<times> nat) option"
    and capacity :: nat
    and post :: "int \<Rightarrow> byte list \<Rightarrow> nat \<Rightarrow> 'q \<Rightarrow> 'q res"
    and fetch :: "'q \<Rightarrow> ((byte list \<times> nat) option \<times> 'q) res"
  assumes finite_view: "ok q \<Longrightarrow> finite (dom (view q))"
    and post_slot: "ok q \<Longrightarrow> length fr \<le> capacity \<Longrightarrow>
      \<exists>q'. post l fr t q = Inr q' \<and> ok q' \<and> view q' = (view q)(l \<mapsto> (fr, t))"
    and fetch_none: "ok q \<Longrightarrow> dom (view q) = {} \<Longrightarrow> fetch q = Inr (None, q)"
    and fetch_slot: "ok q \<Longrightarrow> dom (view q) \<noteq> {} \<Longrightarrow>
      \<exists>l x q'. view q l = Some x \<and> fetch q = Inr (Some x, q') \<and> ok q' \<and> view q' = (view q)(l := None)"
begin

text \<open>Several posts in a row: the last one for each line wins.\<close>

lemma posts_view:
  assumes "ok q" and "\<forall>(l, fr, t)\<in>set ps. length fr \<le> capacity"
  shows "\<exists>q'. foldE (\<lambda>(l, fr, t). post l fr t) ps q = Inr q' \<and> ok q' \<and>
    view q' = view q ++ map_of (rev (map (\<lambda>(l, fr, t). (l, (fr, t))) ps))"
  using assms
proof (induction ps arbitrary: q)
  case Nil
  then show ?case by simp
next
  case (Cons p ps)
  obtain l fr t where p: "p = (l, fr, t)"
    by (cases p)
  obtain q1 where q1: "post l fr t q = Inr q1" "ok q1" "view q1 = (view q)(l \<mapsto> (fr, t))"
    using post_slot [of q fr l t] Cons.prems p by auto
  obtain q' where q': "foldE (\<lambda>(l, fr, t). post l fr t) ps q1 = Inr q'" "ok q'"
      "view q' = view q1 ++ map_of (rev (map (\<lambda>(l, fr, t). (l, (fr, t))) ps))"
    using Cons.IH [OF q1(2)] Cons.prems(2) by auto
  have "view q' = view q ++ map_of (rev (map (\<lambda>(l, fr, t). (l, (fr, t))) (p # ps)))"
    using q'(3) q1(3) p by (auto simp: map_add_def fun_eq_iff split: option.splits)
  with p q1(1) q'(1,2) show ?case
    by auto
qed

text \<open>Fetching until the mailbox is empty takes every waiting frame exactly once.\<close>

fun drain :: "nat \<Rightarrow> 'q \<Rightarrow> ((byte list \<times> nat) list \<times> 'q) res" where
  "drain 0 q = Inr ([], q)"
| "drain (Suc n) q = bindE (fetch q) (\<lambda>(x, q).
     case x of None \<Rightarrow> Inr ([], q) | Some x \<Rightarrow> bindE (drain n q) (\<lambda>(xs, q). Inr (x # xs, q)))"

lemma drain_all:
  assumes "ok q" and "card (dom (view q)) \<le> n"
  shows "\<exists>ls q'. drain n q = Inr (map (the \<circ> view q) ls, q') \<and> ok q' \<and> view q' = Map.empty \<and>
    distinct ls \<and> set ls = dom (view q)"
  using assms
proof (induction n arbitrary: q)
  case 0
  then have "dom (view q) = {}"
    using finite_view by auto
  with 0 show ?case
    by (intro exI [of _ "[]"]) auto
next
  case (Suc n)
  show ?case
  proof (cases "dom (view q) = {}")
    case True
    then show ?thesis
      using Suc.prems(1) fetch_none by (intro exI [of _ "[]"]) auto
  next
    case False
    obtain l x q1 where q1: "view q l = Some x" "fetch q = Inr (Some x, q1)" "ok q1"
        "view q1 = (view q)(l := None)"
      using fetch_slot [OF Suc.prems(1) False] by blast
    have "card (dom (view q1)) \<le> n"
      using Suc.prems finite_view [OF Suc.prems(1)] q1(1,4) by (simp add: card_Diff_singleton domI)
    then obtain ls q' where d: "drain n q1 = Inr (map (the \<circ> view q1) ls, q')" "ok q'"
        "view q' = Map.empty" "distinct ls" "set ls = dom (view q1)"
      using Suc.IH [OF q1(3)] by blast
    have "map (the \<circ> view q1) ls = map (the \<circ> view q) ls"
      using d(5) q1(4) by (intro map_cong) auto
    then have "drain (Suc n) q = Inr (map (the \<circ> view q) (l # ls), q')"
      using q1(1,2) d(1) by simp
    moreover have "distinct (l # ls)" and "set (l # ls) = dom (view q)"
      using d(4,5) q1(1,4) by auto
    ultimately show ?thesis
      using d(2,3) by blast
  qed
qed

end

end
