(* ===== verification/Display.thy ===== *)
theory Display
  imports KernelList Mailbox CString
begin

text \<open>
  \<open>QLED\<close> (src/QYLED.cpp): the driver of the toll display. Every method builds one control frame
  and posts it to the task list under a line number; the display thread takes waiting frames
  from the list and writes each of them twice to the device.

  The local arrays are zero-filled and written from the front, so a frame is the list of the
  bytes written; an array too small for its frame is a fault. The three relay pairs are the
  function-local statics of \<open>DisplaySetRelay\<close>.
\<close>

section \<open>State and frames\<close>

record 'c qled =
  QDEV :: string
  DisplayMode :: int
  ledList :: "klist option"
  comm :: "'c option"
  oldpage :: int
  DisplyID :: bool
  Relay1 :: "byte \<times> byte"
  Relay2 :: "byte \<times> byte"
  Relay3 :: "byte \<times> byte"

definition QLED_new :: "klist \<Rightarrow> 'c qled" where
  "QLED_new k = \<lparr>QDEV = [], DisplayMode = 1, ledList = Some k, comm = None, oldpage = -1, DisplyID = False,
     Relay1 = (0xFD, 0x02), Relay2 = (0xFD, 0x02), Relay3 = (0xFD, 0x02)\<rparr>"

text \<open>
  Opening: the parameter string is \<open>"device,port"\<close>. \<open>CreatComm\<close> is \<open>CommManage::CreatComm\<close>; the
  flag \<open>DisplyID\<close> says that the display thread was started.
\<close>

definition DisplayInit ::
  "(int \<Rightarrow> string \<Rightarrow> int \<Rightarrow> 'c option) \<Rightarrow> int \<Rightarrow> string \<Rightarrow> int \<Rightarrow> 'c qled \<Rightarrow> bool \<times> 'c qled" where
  "DisplayInit CreatComm nType Dev Port q =
     (let q = q\<lparr>QDEV := Dev, comm := CreatComm nType Dev Port\<rparr>
      in case comm q of None \<Rightarrow> (False, q) | Some _ \<Rightarrow> (True, q\<lparr>DisplyID := True\<rparr>))"

definition FB_Open ::
  "(int \<Rightarrow> string \<Rightarrow> int \<Rightarrow> 'c option) \<Rightarrow> int \<Rightarrow> string \<Rightarrow> 'c qled \<Rightarrow> (bool \<times> 'c qled) res" where
  "FB_Open CreatComm nType sParas q =
     (if nType \<noteq> 2 \<and> nType \<noteq> 0 then Inr (False, q)
      else bindE (substr 0 (find_first_of (\<lambda>c. c = CHR '','') sParas) sParas) (\<lambda>sIp1.
           if length sIp1 \<le> 0 then Inr (False, q)
           else bindE (substr (length sIp1 + 1) None sParas) (\<lambda>strParam.
                bindE (substr 0 (find_first_of (\<lambda>c. c = CHR '','') strParam) strParam) (\<lambda>Port.
                if length Port \<le> 0 then Inr (False, q)
                else Inr (DisplayInit CreatComm nType sIp1 (atoi Port) q)))))"

text \<open>The destructor of \<open>Klist\<close> is \<open>DelALL\<close>.\<close>

definition DisplayExit :: "'c qled \<Rightarrow> (bool \<times> 'c qled) res" where
  "DisplayExit q =
     bindE (case ledList q of None \<Rightarrow> Inr () | Some k \<Rightarrow> bindE (DelALL k) (\<lambda>_. Inr ())) (\<lambda>_.
     Inr (True, q\<lparr>comm := None, ledList := None\<rparr>))"

definition put_frame :: "nat \<Rightarrow> int \<Rightarrow> byte list \<Rightarrow> nat \<Rightarrow> 'c qled \<Rightarrow> 'c qled res" where
  "put_frame cap L frame timeout q =
     (if cap < length frame then Inl OutOfBounds
      else case ledList q of
        None \<Rightarrow> Inl NullPointer
      | Some k \<Rightarrow> bindE (ShowAdd L (frame @ replicate (cap - length frame) 0) (int (length frame)) timeout k)
                  (\<lambda>(_, k). Inr (q\<lparr>ledList := Some k\<rparr>)))"

text \<open>\<open>memcpy (dst, Data, Data_Len)\<close> from a pointer: the bytes it copies.\<close>

definition take_data :: "byte list \<Rightarrow> int \<Rightarrow> byte list res" where
  "take_data Data Data_Len =
     (if Data_Len < 0 \<or> int (length Data) < Data_Len then Inl OutOfBounds
      else Inr (take (nat Data_Len) Data))"

text \<open>The four bytes of an \<open>unsigned int\<close> as the code extracts them with \<open>(x >> 8*i) & 0xFF\<close>.\<close>

definition bytes_shr :: "32 word \<Rightarrow> byte list" where
  "bytes_shr x = [ucast (drop_bit 0 x AND 0xFF), ucast (drop_bit 8 x AND 0xFF),
                  ucast (drop_bit 16 x AND 0xFF), ucast (drop_bit 24 x AND 0xFF)]"

text \<open>What \<open>DisplayFast\<close> does instead: \<open>(x << 8*i) & 0xFF\<close>.\<close>

definition bytes_shl :: "32 word \<Rightarrow> byte list" where
  "bytes_shl x = [ucast (push_bit 0 x AND 0xFF), ucast (push_bit 8 x AND 0xFF),
                  ucast (push_bit 16 x AND 0xFF), ucast (push_bit 24 x AND 0xFF)]"

definition page_frame :: "int \<Rightarrow> byte list" where
  "page_frame Page =
     [0xFE, 0x5C, 0x4B, 0x89, 0x15, 0x00, 0x00, 0x00, 0x66, 0x92, 0x79, 0x95, 0x72,
      0x02, 0x00, 0x00, 0x00, word_of_int Page, word_of_int (0xFF - Page), 0xFF, 0xFF]"

definition DisplayPage :: "int \<Rightarrow> 'c qled \<Rightarrow> (bool \<times> 'c qled) res" where
  "DisplayPage Page q =
     (if oldpage q = Page then Inr (True, q)
      else let q = q\<lparr>oldpage := Page\<rparr>
           in bindE (put_frame 128 7 (page_frame Page) 150 q) (\<lambda>q.
              if Page = 1 then bindE (put_frame 128 7 (page_frame Page) 150 q) (\<lambda>q. Inr (True, q))
              else Inr (True, q)))"

definition relay_frame :: "byte \<times> byte \<Rightarrow> byte \<times> byte \<Rightarrow> byte \<times> byte \<Rightarrow> byte list" where
  "relay_frame r1 r2 r3 =
     [0xFE, 0x5C, 0x4B, 0x89, 0x19, 0x00, 0x00, 0x00, 0x61, 0x00, 0x00, 0x00, 0x00,
      0x06, 0x00, 0x00, 0x00, fst r1, snd r1, fst r2, snd r2, fst r3, snd r3, 0xFF, 0xFF]"

definition set_relay :: "int \<Rightarrow> int \<Rightarrow> int \<Rightarrow> 'c qled \<Rightarrow> 'c qled option" where
  "set_relay relay_bit Value sec q =
     (if relay_bit = 1 then
        Some (if Value = 0 then q\<lparr>Relay1 := (0xFD, 0x02)\<rparr>
              else if Value \<noteq> 0 \<and> sec = 0 then q\<lparr>Relay1 := (0xFC, 0x03)\<rparr>
              else let r0 = word_of_int (0xB0 + sec * 2) in q\<lparr>Relay1 := (r0, 0xFF - r0)\<rparr>)
      else if relay_bit = 2 then
        Some (if Value = 0 then q\<lparr>Relay2 := (0xFD, 0x02)\<rparr>
              else if Value \<noteq> 0 \<and> sec = 0 then q\<lparr>Relay2 := (0xFC, 0x03)\<rparr>
              else q\<lparr>Relay2 := (word_of_int (0xB0 + sec * 2), 0xFF - fst (Relay1 q))\<rparr>)
      else if relay_bit = 3 then
        Some (if Value = 0 then q\<lparr>Relay3 := (0xFD, 0x02)\<rparr>
              else if Value \<noteq> 0 \<and> sec = 0 then q\<lparr>Relay3 := (0xFC, 0x03)\<rparr>
              else q\<lparr>Relay3 := (word_of_int (0xB0 + sec * 2), 0xFF - fst (Relay1 q))\<rparr>)
      else None)"

definition DisplaySetRelay :: "int \<Rightarrow> int \<Rightarrow> int \<Rightarrow> 'c qled \<Rightarrow> (bool \<times> 'c qled) res" where
  "DisplaySetRelay relay_bit Value sec q =
     (case set_relay relay_bit Value sec q of
        None \<Rightarrow> Inr (False, q)
      | Some q \<Rightarrow> bindE (put_frame 128 8 (relay_frame (Relay1 q) (Relay2 q) (Relay3 q)) 150 q)
                     (\<lambda>q. Inr (True, q)))"

definition switch_frame :: "int \<Rightarrow> byte list" where
  "switch_frame Status =
     [0xFE, 0x5C, 0x4B, 0x89, 0x13, 0x00, 0x00, 0x00, if Status \<noteq> 0 then 0x51 else 0x52,
      0x00, 0x00, 0x00, 0x00, 0x00, 0x00, 0x00, 0x00, 0xFF, 0xFF]"

definition DisplaySwitch :: "int \<Rightarrow> 'c qled \<Rightarrow> (bool \<times> 'c qled) res" where
  "DisplaySwitch Status q = bindE (put_frame 128 9 (switch_frame Status) 150 q) (\<lambda>q. Inr (True, q))"

definition bright_frame :: "int \<Rightarrow> int \<Rightarrow> byte list" where
  "bright_frame Mode Size =
     (let Mode = (if Mode \<noteq> 0 then 0x01 else 0x02 :: int);
          Size = (if Size > 7 then 0x07 else Size)
      in [0xFE, 0x5C, 0x4B, 0x89, 0x17, 0x00, 0x00, 0x00, 0x76, 0x00, 0x00, 0x00, 0x00,
          0x04, 0x00, 0x00, 0x00, word_of_int Mode, word_of_int (0xFF - Mode),
          word_of_int (7 - Size), word_of_int (0xFF - (7 - Size)), 0xFF, 0xFF])"

text \<open>\<open>return 0\<close> in a \<open>bool\<close> function: \<open>DisplayBright\<close>, \<open>DisplayFast\<close> and \<open>DisplaySpecially\<close> answer false.\<close>

definition DisplayBright :: "int \<Rightarrow> int \<Rightarrow> 'c qled \<Rightarrow> (bool \<times> 'c qled) res" where
  "DisplayBright Mode Size q = bindE (put_frame 128 10 (bright_frame Mode Size) 150 q) (\<lambda>q. Inr (False, q))"

definition fast_frame :: "int \<Rightarrow> int \<Rightarrow> int \<Rightarrow> byte list \<Rightarrow> byte list" where
  "fast_frame L Font Colour data =
     [0xFE, 0x5C, 0x4B, 0x89] @ bytes_shl (word_of_nat (length data + 24)) @
     [0x65, 0x00, 0x00, 0x00, 0x00] @ bytes_shl (word_of_nat (length data + 5)) @
     ([word_of_int L, 0x00, word_of_int (0x01 OR push_bit 4 (Colour AND 0x0F)),
       word_of_int (0x10 OR ((if Font > 3 then 3 else Font) AND 0x0F)),
       word_of_nat (length data)] @ data) @ [0xFF, 0xFF]"

definition DisplayFast :: "int \<Rightarrow> int \<Rightarrow> int \<Rightarrow> byte list \<Rightarrow> int \<Rightarrow> 'c qled \<Rightarrow> (bool \<times> 'c qled) res" where
  "DisplayFast L Font Colour Data Data_Len q =
     bindE (take_data Data Data_Len) (\<lambda>data.
     bindE (put_frame 1024 L (fast_frame L Font Colour data) 80 q) (\<lambda>q. Inr (False, q)))"

definition special_body :: "int \<Rightarrow> int \<Rightarrow> int \<Rightarrow> int \<Rightarrow> byte list \<Rightarrow> byte list" where
  "special_body L Font Colour Specially data =
     [0x30, 0x30, 0x30, 0x30, 0x30, 0x30, 0x30, 0x30, word_of_int (0x30 + L), 0x2C,
      word_of_int Specially, 0x05, 0x00,
      0x30, 0x31, 0x30, 0x31, 0x30, 0x31, 0x39, 0x39, 0x31, 0x32, 0x33, 0x31,
      0x13, 0x00, 0x00, 0x00, 0x55, 0xAA, 0x00, 0x00, 0x37, 0x32, 0x32,
      0x31, 0x33, 0x31, 0x00, 0x00, 0x10, 0x00, 0x20, 0x00,
      word_of_int Colour, word_of_int ((0x10 AND 0xF0) OR ((if Font > 3 then 3 else Font) AND 0x0F)),
      0x00] @ bytes_shr (word_of_nat (length data + 10)) @ data @
     [0xFF, 0x00, 0x01, 0x00, 0x01, 0x00, 0x01, 0x00, 0x10, 0x48, 0x2D, 0x31, 0x2C]"

definition special_frame :: "int \<Rightarrow> int \<Rightarrow> int \<Rightarrow> int \<Rightarrow> byte list \<Rightarrow> byte list" where
  "special_frame L Font Colour Specially data =
     [0xFE, 0x5C, 0x4B, 0x89] @ bytes_shr (word_of_nat (length data + 84)) @
     [0x31, 0x00, 0x00, 0x00, 0x00] @ bytes_shr (word_of_nat (length data + 84) - 19) @
     special_body L Font Colour Specially data @ [0xFF, 0xFF]"

definition DisplaySpecially ::
  "int \<Rightarrow> int \<Rightarrow> int \<Rightarrow> int \<Rightarrow> byte list \<Rightarrow> int \<Rightarrow> 'c qled \<Rightarrow> (bool \<times> 'c qled) res" where
  "DisplaySpecially L Font Colour Specially Data Data_Len q =
     bindE (take_data Data Data_Len) (\<lambda>data.
     bindE (put_frame 1024 L (special_frame L Font Colour Specially data) 450 q) (\<lambda>q. Inr (False, q)))"

text \<open>
  \<open>DisplyShow\<close> copies the text into \<open>char buf[128]\<close> for the log first; a text of 128 bytes without
  a zero leaves the log reading past the array.
\<close>

definition DisplyShow ::
  "int \<Rightarrow> int \<Rightarrow> int \<Rightarrow> int \<Rightarrow> byte list \<Rightarrow> int \<Rightarrow> 'c qled \<Rightarrow> (bool \<times> 'c qled) res" where
  "DisplyShow L Font Colour Specially Data Data_Len q =
     (let Specially = (if Data_Len > 20 then 0x01 else Specially)
      in bindE (take_data Data Data_Len) (\<lambda>data.
         bindE (wr_block (replicate 128 0) 0 data) (\<lambda>buf.
         if 0 \<notin> set buf then Inl OutOfBounds
         else if DisplayMode q = 0 then DisplayFast L Font Colour Data Data_Len q
         else DisplaySpecially L Font Colour Specially Data Data_Len q)))"

definition clear_line :: "int \<Rightarrow> int \<Rightarrow> 'c qled \<Rightarrow> (bool \<times> 'c qled) res" where
  "clear_line L n q =
     (if DisplayMode q = 0 then DisplayFast L 0 1 (replicate 16 0x20) n q
      else DisplaySpecially L 0 1 9 (replicate 16 0x20) n q)"

definition DisplayClear :: "int \<Rightarrow> 'c qled \<Rightarrow> (bool \<times> 'c qled) res" where
  "DisplayClear L q =
     (if L = 0
      then bindE (foldE (\<lambda>i q. bindE (clear_line i 8 q) (\<lambda>(_, q). Inr q)) [1..4] q) (\<lambda>q. Inr (True, q))
      else clear_line L 2 q)"

text \<open>\<open>int\<close> shifts; the instruction length keeps only a nibble of its upper bytes.\<close>

definition voice_frame :: "int \<Rightarrow> byte list \<Rightarrow> byte list" where
  "voice_frame Mode data =
     (let voice_len = int (length data) + 2; voice_data_len = int (length data) + 26;
          len = voice_len + 5
      in [0xFE, 0x5C, 0x4B, 0x89,
          word_of_int (drop_bit 0 voice_data_len AND 0xFF), word_of_int (drop_bit 8 voice_data_len AND 0xFF),
          word_of_int (drop_bit 16 voice_data_len AND 0xFF), word_of_int (drop_bit 24 voice_data_len AND 0xFF),
          0x68, 0x02, 0x00, 0x00, 0x00,
          word_of_int (drop_bit 0 len AND 0xFF), word_of_int (drop_bit 8 len AND 0xF),
          word_of_int (drop_bit 16 len AND 0xF), word_of_int (drop_bit 24 len AND 0xF),
          0xFD, word_of_int (drop_bit 8 voice_len AND 0xFF), word_of_int (voice_len AND 0xFF),
          0x01, word_of_int Mode] @ data @ [0x00, 0x00, 0xFF, 0xFF])"

definition VoicePlay :: "int \<Rightarrow> byte list \<Rightarrow> int \<Rightarrow> 'c qled \<Rightarrow> (bool \<times> 'c qled) res" where
  "VoicePlay Mode Data Data_Len q =
     bindE (take_data Data Data_Len) (\<lambda>data.
     bindE (put_frame 1024 1 (voice_frame Mode data) 150 q) (\<lambda>q.
     bindE (wr_block (replicate 512 0) 0 data) (\<lambda>buf.
     if 0 \<notin> set buf then Inl OutOfBounds else Inr (True, q))))"

definition traffic_frame :: "int \<Rightarrow> int \<Rightarrow> byte list" where
  "traffic_frame L Mode =
     [0xFE, 0x5C, 0x4B, 0x89, 0x20, 0x00, 0x00, 0x00, 0x67, 0x00, 0x00, 0x00, 0x00,
      0x0D, 0x00, 0x00, 0x00, 0x01, 0xFE, 0x00, 0x00, 0x00, word_of_int L,
      if Mode = 0 then 0x00 else 0x01, 0x00, 0x01, 0x00, 0x00, 0x00, 0x00, 0xFF, 0xFF]"

definition TrafficLed :: "int \<Rightarrow> int \<Rightarrow> 'c qled \<Rightarrow> (bool \<times> 'c qled) res" where
  "TrafficLed L Mode q = bindE (put_frame 128 2 (traffic_frame L Mode) 150 q) (\<lambda>q. Inr (True, q))"

section \<open>The display thread\<close>

text \<open>
  One round of the loop of \<open>DisplayThread\<close>, split as the code is: \<open>FindNode\<close> under the mutex, then,
  under the mutex again, the copy of the node that was found. \<open>GetStatus\<close> and \<open>Send\<close> are the
  virtual methods of the \<open>Communication\<close> device \<open>c\<close>.
\<close>

definition fetch_node :: "addr \<Rightarrow> klist \<Rightarrow> ((byte list \<times> nat) \<times> klist) res" where
  "fetch_node a k =
     bindE (deref (Some a) (Heap k)) (\<lambda>a.
     let s = Heap k; s = s\<lparr>payload := (payload s)(a := (payload s a)\<lparr>status := False\<rparr>)\<rparr>;
         TimeOut = TimeOut (payload s a); buffLen = QLED_Data_Len (payload s a)
     in bindE (take_data (QLED_Data (payload s a)) buffLen) (\<lambda>data.
        bindE (wr_block (replicate 1024 0) 0 data) (\<lambda>buff.
          Inr ((take (nat buffLen) buff, TimeOut), k\<lparr>Heap := s\<rparr>))))"

definition DisplayThread_round ::
  "('c \<Rightarrow> bool) \<Rightarrow> (byte list \<Rightarrow> 'c \<Rightarrow> int \<times> 'c) \<Rightarrow> 'c qled \<Rightarrow> 'c qled res" where
  "DisplayThread_round GetStatus Send led =
     (case ledList led of
        None \<Rightarrow> Inl NullPointer
      | Some k \<Rightarrow>
          bindE (FindNode True k) (\<lambda>node.
          case node of
            None \<Rightarrow> Inr led
          | Some a \<Rightarrow>
              (case comm led of
                 None \<Rightarrow> Inl NullPointer
               | Some c \<Rightarrow>
                   if GetStatus c = False then Inr led
                   else bindE (fetch_node a k) (\<lambda>((buff, TimeOut), k).
                        let (_, c) = Send buff c; (_, c) = Send buff c
                        in Inr (led\<lparr>ledList := Some k, comm := Some c\<rparr>)))))"

definition DisplayThread ::
  "nat \<Rightarrow> ('c \<Rightarrow> bool) \<Rightarrow> (byte list \<Rightarrow> 'c \<Rightarrow> int \<times> 'c) \<Rightarrow> 'c qled \<Rightarrow> 'c qled res" where
  "DisplayThread rounds GetStatus Send led =
     (case ledList led of
        None \<Rightarrow> Inl NullPointer
      | Some k \<Rightarrow> bindE (ListTaskInit k) (\<lambda>k.
          foldE (\<lambda>_. DisplayThread_round GetStatus Send) [0..<rounds] (led\<lparr>ledList := Some k\<rparr>)))"

section \<open>The task list as a mailbox\<close>

definition tasks_ok :: "klist \<Rightarrow> bool" where
  "tasks_ok k \<longleftrightarrow> klist_ok k \<and> distinct (map Line (contents k)) \<and> length (QLED_Data (Junk k)) = 1024 \<and>
     (\<forall>d\<in>set (contents k). status d \<longrightarrow>
        length (QLED_Data d) = 1024 \<and> 0 \<le> QLED_Data_Len d \<and> QLED_Data_Len d \<le> 1024)"

definition frame_of :: "Node_Data \<Rightarrow> byte list \<times> nat" where
  "frame_of d = (take (nat (QLED_Data_Len d)) (QLED_Data d), TimeOut d)"

fun slot :: "Node_Data list \<Rightarrow> int \<Rightarrow> (byte list \<times> nat) option" where
  "slot [] l = None"
| "slot (d # ds) l = (if Line d = l then if status d then Some (frame_of d) else None else slot ds l)"

definition waiting :: "klist \<Rightarrow> int \<Rightarrow> (byte list \<times> nat) option" where
  "waiting k = slot (contents k)"

definition task_post :: "int \<Rightarrow> byte list \<Rightarrow> nat \<Rightarrow> klist \<Rightarrow> klist res" where
  "task_post l fr t k = bindE (ShowAdd l fr (int (length fr)) t k) (\<lambda>(_, k). Inr k)"

definition task_fetch :: "klist \<Rightarrow> ((byte list \<times> nat) option \<times> klist) res" where
  "task_fetch k = bindE (FindNode True k) (\<lambda>n. case n of None \<Rightarrow> Inr (None, k)
     | Some a \<Rightarrow> bindE (fetch_node a k) (\<lambda>(x, k). Inr (Some x, k)))"

lemma slot_put_line:
  "slot (put_line d ds) = (slot ds)(Line d \<mapsto> frame_of (d\<lparr>status := True\<rparr>))"
  by (induction ds) (auto simp: fun_eq_iff)

lemma slot_finite: "finite (dom (slot ds))"
proof (induction ds)
  case Nil
  show ?case by (simp add: dom_def)
next
  case (Cons d ds)
  have "dom (slot (d # ds)) \<subseteq> insert (Line d) (dom (slot ds))"
    by (auto split: if_splits)
  with Cons show ?case
    using finite_subset by blast
qed

lemma slot_Some:
  "distinct (map Line ds) \<Longrightarrow>
   slot ds l = Some x \<longleftrightarrow> (\<exists>d\<in>set ds. Line d = l \<and> status d \<and> frame_of d = x)"
  by (induction ds) force+

lemma slot_taken:
  "Line d \<notin> Line ` set ys \<Longrightarrow>
   slot (ys @ d\<lparr>status := False\<rparr> # zs) = (slot (ys @ d # zs))(Line d := None)"
  by (induction ys) (auto simp: fun_eq_iff)

lemma set_put_line: "set (put_line d ds) \<subseteq> insert (d\<lparr>status := True\<rparr>) (set ds)"
  by (induction ds) auto

lemma task_ShowAdd:
  assumes "tasks_ok k" and "length fr \<le> 1024"
  shows "\<exists>k'. ShowAdd l (fr @ rest) (int (length fr)) t k = Inr (True, k') \<and> tasks_ok k' \<and>
    waiting k' = (waiting k)(l \<mapsto> (fr, t)) \<and> keeps_waiting k k'"
proof -
  let ?d = "shown (Junk k) l fr t"
  have J: "length (QLED_Data (Junk k)) = 1024" and kk: "klist_ok k"
    using assms(1) by (simp_all add: tasks_ok_def)
  obtain k' where k': "ShowAdd l (fr @ rest) (int (length fr)) t k = Inr (True, k')" "klist_ok k'"
      "Junk k' = Junk k" "contents k' = put_line ?d (contents k)" "keeps_waiting k k'"
    using ShowAdd_ok [OF kk, of fr l rest t] assms(2) J by auto
  have "tasks_ok k'"
    using assms set_put_line [of ?d "contents k"] k'(2-4)
    by (auto simp: tasks_ok_def distinct_put_line shown_def)
  moreover have "waiting k' = (waiting k)(l \<mapsto> (fr, t))"
    using k'(4) by (simp add: waiting_def slot_put_line frame_of_def shown_def)
  ultimately show ?thesis
    using k'(1,5) by blast
qed

text \<open>The copy of a node of the list, on the contents.\<close>

lemma fetch_node_at:
  assumes "klist_ok k" and "nodes k = ys @ a # zs" and "length (QLED_Data (payload (Heap k) a)) = 1024"
    and "0 \<le> QLED_Data_Len (payload (Heap k) a)" and "QLED_Data_Len (payload (Heap k) a) \<le> 1024"
  shows "\<exists>k'. fetch_node a k = Inr (frame_of (payload (Heap k) a), k') \<and> klist_ok k' \<and> Junk k' = Junk k \<and>
    contents k' = map (payload (Heap k)) ys @ (payload (Heap k) a)\<lparr>status := False\<rparr> # map (payload (Heap k)) zs"
proof -
  let ?d = "payload (Heap k) a"
  let ?s = "(Heap k)\<lparr>payload := (payload (Heap k))(a := ?d\<lparr>status := False\<rparr>)\<rparr>"
  let ?k' = "k\<lparr>Heap := ?s\<rparr>"
  obtain h where h: "Head k = Some h" "dlist (Heap k) h (nodes k)"
    using assms(1) by (rule klist_okE)
  then have al: "allocated (Heap k) a" and dn: "distinct (nodes k)"
    using assms(2) by (auto simp: dlist_def)
  have k': "klist_ok ?k'" "contents ?k' = map (payload ?s) (nodes k)"
    using klist_okI [of ?k' h "nodes k"] h by simp_all
  have "a \<notin> set ys" and "a \<notin> set zs"
    using dn assms(2) by auto
  then have "contents ?k' = map (payload (Heap k)) ys @ ?d\<lparr>status := False\<rparr> # map (payload (Heap k)) zs"
    using k'(2) assms(2) by (simp add: map_fun_upd)
  moreover have "fetch_node a k = Inr (frame_of ?d, ?k')"
    using al assms(3-5) by (simp add: fetch_node_def deref_def take_data_def wr_block_def frame_of_def Let_def)
  ultimately show ?thesis
    using k'(1) by (intro exI [of _ ?k']) simp
qed

text \<open>The copy of a waiting node, whoever runs between the search and the copy.\<close>

lemma fetch_node_ok:
  assumes "tasks_ok k" and "a \<in> set (nodes k)" and "status (payload (Heap k) a)"
  shows "\<exists>k'. fetch_node a k = Inr (frame_of (payload (Heap k) a), k') \<and> tasks_ok k' \<and>
    waiting k (Line (payload (Heap k) a)) = Some (frame_of (payload (Heap k) a)) \<and>
    waiting k' = (waiting k)(Line (payload (Heap k) a) := None) \<and> Junk k' = Junk k \<and>
    map Line (contents k') = map Line (contents k)"
proof -
  let ?d = "payload (Heap k) a"
  have kk: "klist_ok k" and dl: "distinct (map Line (contents k))"
      and J: "length (QLED_Data (Junk k)) = 1024"
      and len: "length (QLED_Data ?d) = 1024" "0 \<le> QLED_Data_Len ?d" "QLED_Data_Len ?d \<le> 1024"
    using assms by (auto simp: tasks_ok_def contents_def)
  obtain ys zs where n: "nodes k = ys @ a # zs"
    using assms(2) by (metis split_list)
  have c: "contents k = map (payload (Heap k)) ys @ ?d # map (payload (Heap k)) zs"
    using n by (simp add: contents_def)
  obtain k' where k': "fetch_node a k = Inr (frame_of ?d, k')" "klist_ok k'" "Junk k' = Junk k"
      "contents k' = map (payload (Heap k)) ys @ ?d\<lparr>status := False\<rparr> # map (payload (Heap k)) zs"
    using fetch_node_at [OF kk n len] by blast
  have ln: "map Line (contents k') = map Line (contents k)"
    by (simp add: c k'(4))
  have "tasks_ok k'"
    using assms(1) k'(2,3) J ln by (auto simp: tasks_ok_def c k'(4))
  moreover have w: "waiting k (Line ?d) = Some (frame_of ?d)"
    using dl assms(2,3) by (auto simp: waiting_def slot_Some contents_def)
  moreover have "waiting k' = (waiting k)(Line ?d := None)"
    using dl unfolding waiting_def c k'(4) by (intro slot_taken) (auto simp: image_iff)
  ultimately show ?thesis
    using k'(1,3) ln by blast
qed

lemma FindNode_waiting:
  assumes "tasks_ok k"
  shows "FindNode True k = Inr None \<and> dom (waiting k) = {} \<or>
    (\<exists>a. FindNode True k = Inr (Some a) \<and> a \<in> set (nodes k) \<and> status (payload (Heap k) a))"
proof -
  have kk: "klist_ok k" and dl: "distinct (map Line (contents k))"
    using assms by (simp_all add: tasks_ok_def)
  show ?thesis
  proof (cases "find (\<lambda>a. status (payload (Heap k) a) = True) (nodes k)")
    case None
    then have "\<forall>d\<in>set (contents k). \<not> status d"
      by (auto simp: find_None_iff contents_def)
    then have "waiting k l = None" for l
      using dl by (cases "waiting k l") (auto simp: waiting_def slot_Some)
    then show ?thesis
      using None FindNode_ok [OF kk, of True] by auto
  next
    case (Some a)
    then show ?thesis
      using FindNode_ok [OF kk, of True] by (auto simp: find_Some_iff)
  qed
qed

interpretation tasks: mailbox tasks_ok waiting 1024 task_post task_fetch
proof unfold_locales
  fix k
  show "finite (dom (waiting k))"
    by (simp add: waiting_def slot_finite)
next
  fix k fr l t assume "tasks_ok k" "length (fr :: byte list) \<le> 1024"
  then show "\<exists>k'. task_post l fr t k = Inr k' \<and> tasks_ok k' \<and> waiting k' = (waiting k)(l \<mapsto> (fr, t))"
    using task_ShowAdd [of k fr l "[]" t] by (auto simp: task_post_def)
next
  fix k assume k: "tasks_ok k" "dom (waiting k) = {}"
  then show "task_fetch k = Inr (None, k)"
    using FindNode_waiting [OF k(1)] fetch_node_ok [OF k(1)] by (auto simp: task_fetch_def)
next
  fix k assume k: "tasks_ok k" "dom (waiting k) \<noteq> {}"
  then obtain a where a: "FindNode True k = Inr (Some a)" "a \<in> set (nodes k)" "status (payload (Heap k) a)"
    using FindNode_waiting [OF k(1)] by auto
  show "\<exists>l x k'. waiting k l = Some x \<and> task_fetch k = Inr (Some x, k') \<and> tasks_ok k' \<and>
      waiting k' = (waiting k)(l := None)"
    using fetch_node_ok [OF k(1) a(2,3)] a(1)
    by (intro exI [of _ "Line (payload (Heap k) a)"] exI [of _ "frame_of (payload (Heap k) a)"])
      (auto simp: task_fetch_def)
qed

lemma ListTaskInit_tasks:
  assumes "tasks_ok k" and "contents k = []" and "ListTaskInit k = Inr k'"
  shows "tasks_ok k'"
proof -
  have "klist_ok k'" and "Junk k' = Junk k" and "contents k' = map (\<lambda>i. (Junk k)\<lparr>status := False, Line := i\<rparr>) [0..10]"
    using ListTaskInit_ok [of k] assms by (auto simp: tasks_ok_def)
  then show ?thesis
    using assms(1) by (auto simp: tasks_ok_def comp_def)
qed

text \<open>The list the thread starts from: the lines 0 to 10, nothing waiting.\<close>

lemma tasks_ok_init:
  assumes "length (QLED_Data junk) = 1024"
  shows "\<exists>k. ListTaskInit (Klist_new junk) = Inr k \<and> tasks_ok k \<and> waiting k = Map.empty \<and>
    map Line (contents k) = [0..10]"
proof -
  obtain k where k: "ListTaskInit (Klist_new junk) = Inr k" "klist_ok k" "Junk k = junk"
      "contents k = map (\<lambda>i. junk\<lparr>status := False, Line := i\<rparr>) [0..10]"
    using ListTaskInit_ok [OF Klist_new_ok] contents_Klist_new by auto
  have "slot (map (\<lambda>i. junk\<lparr>status := False, Line := i\<rparr>) is) = Map.empty" for "is"
    by (induction "is") auto
  then show ?thesis
    using assms k by (auto simp: tasks_ok_def waiting_def comp_def)
qed

section \<open>Frames and the operations that post them\<close>

text \<open>
  The layout the display expects: magic number, total length, instruction length (both
  little-endian, the instruction being all but the 19 bytes of framing), tail.
\<close>

fun le_value :: "byte list \<Rightarrow> nat" where
  "le_value [] = 0"
| "le_value (b # bs) = unat b + 256 * le_value bs"

definition fee_frame :: "byte list \<Rightarrow> bool" where
  "fee_frame f \<longleftrightarrow> 19 \<le> length f \<and> take 4 f = [0xFE, 0x5C, 0x4B, 0x89] \<and>
     le_value (segment 4 4 f) = length f \<and> le_value (segment 13 4 f) + 19 = length f \<and>
     drop (length f - 2) f = [0xFF, 0xFF]"

definition qled_ok :: "'c qled \<Rightarrow> bool" where
  "qled_ok q \<longleftrightarrow> (case ledList q of None \<Rightarrow> False | Some k \<Rightarrow> tasks_ok k)"

definition screen :: "'c qled \<Rightarrow> int \<Rightarrow> (byte list \<times> nat) option" where
  "screen q = (case ledList q of None \<Rightarrow> Map.empty | Some k \<Rightarrow> waiting k)"

named_theorems frame_simps "evaluation of display frames"

lemma segment_eval [frame_simps]:
  "segment 0 n xs = take n xs"
  "segment (Suc m) n (x # xs) = segment m n xs"
  "segment (numeral k) n (x # xs) = segment (pred_numeral k) n xs"
  by (simp_all add: segment_def numeral_eq_Suc)

lemma le_bytes_value:
  assumes "(n :: nat) < 4294967296"
  shows "n mod 256 + 256 * (n div 256 mod 256 + 256 * (n div 65536 mod 256 +
    256 * (n div 16777216 mod 256))) = n"
proof -
  have s: "m mod 256 + 256 * (m div 256) = m" for m :: nat
    by simp
  have "n div 16777216 mod 256 = n div 16777216"
    using assms by simp
  moreover have "n div 16777216 = n div 65536 div 256" and "n div 65536 = n div 256 div 256"
    by (simp_all add: div_mult2_eq [symmetric])
  ultimately show ?thesis
    by (simp only: s)
qed

lemma le_value_bytes_shr: "le_value (bytes_shr x) = unat x"
proof -
  have "unat x < 2 ^ LENGTH(32)"
    by (rule unsigned_less)
  then have lt: "unat x < 4294967296"
    by simp
  have mask: "(0xFF :: 32 word) = mask 8"
    by (simp add: mask_eq_exp_minus_1)
  have "unat (ucast (drop_bit n x AND 0xFF) :: byte) = unat x div 2 ^ n mod 256" for n
    unfolding mask by (simp add: unsigned_ucast_eq unat_drop_bit_eq unsigned_take_bit_eq
        flip: take_bit_eq_mask) (simp add: drop_bit_eq_div take_bit_eq_mod)
  then have "le_value (bytes_shr x) = unat x div 2 ^ 0 mod 256 + 256 * (unat x div 2 ^ 8 mod 256 +
      256 * (unat x div 2 ^ 16 mod 256 + 256 * (unat x div 2 ^ 24 mod 256 + 256 * 0)))"
    by (simp only: bytes_shr_def le_value.simps)
  also have "\<dots> = unat x"
    using le_bytes_value [of "unat x"] lt by simp
  finally show ?thesis .
qed

lemma length_bytes_shr [simp]: "length (bytes_shr x) = 4"
  by (simp add: bytes_shr_def)

lemma length_bytes_shl [simp]: "length (bytes_shl x) = 4"
  by (simp add: bytes_shl_def)

text \<open>A frame given by its five parts.\<close>

lemma fee_frame_parts:
  assumes "length l1 = 4" and "length mid = 5" and "length l2 = 4"
    and "le_value l1 = length body + 19" and "le_value l2 = length body"
  shows "fee_frame ([0xFE, 0x5C, 0x4B, 0x89] @ l1 @ mid @ l2 @ body @ [0xFF, 0xFF])"
proof -
  let ?pre = "[0xFE, 0x5C, 0x4B, 0x89] @ l1 @ mid @ l2 @ body"
  have "drop (length ?pre) (?pre @ [0xFF, 0xFF]) = [0xFF, 0xFF]"
    by (metis append_eq_conv_conj)
  moreover have "length ?pre = 17 + length body"
    using assms(1-3) by simp
  ultimately have "drop (17 + length body) (?pre @ [0xFF, 0xFF]) = [0xFF, 0xFF]"
    by (simp only:)
  then show ?thesis
    using assms by (simp add: fee_frame_def segment_def)
qed

lemmas const_frame_defs = page_frame_def relay_frame_def switch_frame_def bright_frame_def traffic_frame_def

lemma const_frames_ok:
  "fee_frame (page_frame p)" "fee_frame (relay_frame r1 r2 r3)" "fee_frame (switch_frame st)"
  "fee_frame (bright_frame m sz)" "fee_frame (traffic_frame l m)"
  by (simp_all add: fee_frame_def const_frame_defs segment_def Let_def)

lemma length_const_frames:
  "length (page_frame p) = 21" "length (relay_frame r1 r2 r3) = 25" "length (switch_frame st) = 19"
  "length (bright_frame m sz) = 23" "length (traffic_frame l m) = 32"
  by (simp_all add: const_frame_defs Let_def)

lemma length_special_frame: "length (special_frame L F C S data) = length data + 84"
  and length_voice_frame: "length (voice_frame m data) = length data + 26"
  and length_fast_frame: "length (fast_frame L F C data) = length data + 24"
  by (simp_all add: special_frame_def special_body_def voice_frame_def fast_frame_def Let_def)

lemma unat_word_of_nat_32: "n < 4294967296 \<Longrightarrow> unat (word_of_nat n :: 32 word) = n"
  by (simp add: unat_of_nat take_bit_nat_eq_self)

lemma special_frame_ok:
  assumes "length data \<le> 940"
  shows "fee_frame (special_frame L F C S data)"
proof -
  let ?n = "word_of_nat (length data + 84) :: 32 word"
  have "?n - 19 = word_of_nat (length data + 65)"
    by simp
  then have "le_value (bytes_shr ?n) = length data + 84"
      and "le_value (bytes_shr (?n - 19)) = length data + 65"
    using assms unat_word_of_nat_32 [of "length data + 84"] unat_word_of_nat_32 [of "length data + 65"]
    by (simp_all only: le_value_bytes_shr)
  moreover have "length (special_body L F C S data) = length data + 65"
    by (simp add: special_body_def)
  ultimately show ?thesis
    unfolding special_frame_def by (intro fee_frame_parts) (simp_all only:, simp_all)
qed

text \<open>The data stand in the frame unchanged, at offset 69.\<close>

lemma special_frame_data: "segment 69 (length data) (special_frame L F C S data) = data"
  by (simp add: special_frame_def special_body_def segment_def bytes_shr_def)

text \<open>
  \<open>DisplayFast\<close> shifts the lengths the wrong way: only a frame below 256 bytes is well formed.
\<close>

lemma bytes_shl_conv: "bytes_shl x = [ucast x, 0, 0, 0]"
proof -
  have mask: "(0xFF :: 32 word) = mask 8"
    by (simp add: mask_eq_exp_minus_1)
  have "ucast (push_bit n x AND 0xFF) = (push_bit n (ucast x) :: byte)" if "n < 32" for n
    unfolding mask by (rule bit_word_eqI) (use that in \<open>auto simp: bit_simps\<close>)
  from this [of 0] this [of 8] this [of 16] this [of 24] show ?thesis
    by (simp add: bytes_shl_def)
qed

lemma fast_frame_ok_iff:
  "fee_frame (fast_frame L F C data) \<longleftrightarrow> length data + 24 < 256"
proof -
  let ?b = "\<lambda>n. le_value (bytes_shl (word_of_nat n))"
  have b: "?b n = n mod 256" for n
    by (simp add: bytes_shl_conv unsigned_ucast_eq unat_of_nat take_bit_eq_mod mod_mod_cancel)
  show ?thesis
  proof
    assume "length data + 24 < 256"
    then show "fee_frame (fast_frame L F C data)"
      unfolding fast_frame_def by (intro fee_frame_parts) (simp_all only: b, simp_all)
  next
    assume "fee_frame (fast_frame L F C data)"
    then have "?b (length data + 24) = length data + 24"
      by (simp add: fee_frame_def fast_frame_def segment_def del: of_nat_add)
    then show "length data + 24 < 256"
      unfolding b by (metis mod_less_divisor zero_less_numeral)
  qed
qed

lemma small_bytes:
  assumes "n < 4096"
  shows "nat (int n div 2 ^ 0 mod 256) + 256 * (nat (int n div 2 ^ 8 mod 256) +
      256 * (nat (int n div 2 ^ 16 mod 256) + 256 * (nat (int n div 2 ^ 24 mod 256) + 256 * 0))) = n"
    and "nat (int n div 2 ^ 0 mod 256) + 256 * (nat (int n div 2 ^ 8 mod 16) +
      256 * (nat (int n div 2 ^ 16 mod 16) + 256 * (nat (int n div 2 ^ 24 mod 16) + 256 * 0))) = n"
proof -
  have d: "n div 256 mod 256 = n div 256" "n div 256 mod 16 = n div 256" "n div 65536 = 0" "n div 16777216 = 0"
    using assms by simp_all
  have "n mod 256 + 256 * (n div 256) = n"
    by simp
  with d show "nat (int n div 2 ^ 0 mod 256) + 256 * (nat (int n div 2 ^ 8 mod 256) +
      256 * (nat (int n div 2 ^ 16 mod 256) + 256 * (nat (int n div 2 ^ 24 mod 256) + 256 * 0))) = n"
    and "nat (int n div 2 ^ 0 mod 256) + 256 * (nat (int n div 2 ^ 8 mod 16) +
      256 * (nat (int n div 2 ^ 16 mod 16) + 256 * (nat (int n div 2 ^ 24 mod 16) + 256 * 0))) = n"
    by (simp_all add: nat_mod_distrib nat_div_distrib)
qed

lemma voice_frame_ok:
  assumes "length data \<le> 998"
  shows "fee_frame (voice_frame m data)"
proof -
  have m8: "(x :: int) AND 0xFF = x mod 256" for x
    using take_bit_eq_mask [of 8 x] by (simp add: mask_eq_exp_minus_1 take_bit_eq_mod)
  have m4: "(x :: int) AND 0xF = x mod 16" for x
    using take_bit_eq_mask [of 4 x] by (simp add: mask_eq_exp_minus_1 take_bit_eq_mod)
  have u: "unat (word_of_int x :: byte) = nat x" if "0 \<le> x" "x < 256" for x
    using that by (simp add: unsigned_of_int take_bit_int_eq_self)
  have byte8: "unat (word_of_int (drop_bit n x AND 0xFF) :: byte) = nat (x div 2 ^ n mod 256)" for n x
    by (subst u) (simp_all add: m8 drop_bit_eq_div)
  have byte4: "unat (word_of_int (drop_bit n x AND 0xF) :: byte) = nat (x div 2 ^ n mod 16)" for n x
    by (subst u) (simp_all add: m4 drop_bit_eq_div order.strict_trans [OF pos_mod_bound])
  let ?n = "int (length data)"
  let ?l1 = "[word_of_int (drop_bit 0 (?n + 26) AND 0xFF), word_of_int (drop_bit 8 (?n + 26) AND 0xFF),
      word_of_int (drop_bit 16 (?n + 26) AND 0xFF), word_of_int (drop_bit 24 (?n + 26) AND 0xFF)] :: byte list"
  let ?l2 = "[word_of_int (drop_bit 0 (?n + 7) AND 0xFF), word_of_int (drop_bit 8 (?n + 7) AND 0xF),
      word_of_int (drop_bit 16 (?n + 7) AND 0xF), word_of_int (drop_bit 24 (?n + 7) AND 0xF)] :: byte list"
  let ?body = "[0xFD, word_of_int (drop_bit 8 (?n + 2) AND 0xFF), word_of_int ((?n + 2) AND 0xFF),
      0x01, word_of_int m] @ data @ [0x00, 0x00] :: byte list"
  have "le_value ?l1 = length data + 26" and "le_value ?l2 = length data + 7"
    using assms small_bytes [of "length data + 26"] small_bytes [of "length data + 7"]
    by (simp_all only: le_value.simps byte8 byte4 of_nat_add of_nat_numeral)
  then have "fee_frame ([0xFE, 0x5C, 0x4B, 0x89] @ ?l1 @ [0x68, 0x02, 0x00, 0x00, 0x00] @ ?l2 @ ?body @
      [0xFF, 0xFF])"
    by (intro fee_frame_parts) simp_all
  then show ?thesis
    by (simp add: voice_frame_def Let_def add.commute [of 7])
qed

lemma put_frame_ok:
  assumes "qled_ok q" and "length fr \<le> cap" and "length fr \<le> 1024"
  shows "\<exists>k. put_frame cap L fr t q = Inr (q\<lparr>ledList := Some k\<rparr>) \<and> tasks_ok k \<and>
    waiting k = (screen q)(L \<mapsto> (fr, t))"
proof -
  obtain k where k: "ledList q = Some k" "tasks_ok k"
    using assms(1) by (auto simp: qled_ok_def split: option.splits)
  show ?thesis
    using task_ShowAdd [OF k(2) assms(3), of L "replicate (cap - length fr) 0" t] k(1) assms(2)
    by (auto simp: put_frame_def screen_def)
qed

text \<open>\<open>posts q r L fr t\<close>: the operation answered \<open>r\<close> and left exactly the frame \<open>fr\<close> waiting on line \<open>L\<close>.\<close>

definition posts :: "(bool \<times> 'c qled) res \<Rightarrow> bool \<Rightarrow> 'c qled \<Rightarrow> int \<Rightarrow> byte list \<Rightarrow> nat \<Rightarrow> bool" where
  "posts m r q L fr t \<longleftrightarrow> (case m of Inl _ \<Rightarrow> False
     | Inr (r', q') \<Rightarrow> r' = r \<and> qled_ok q' \<and> screen q' = (screen q)(L \<mapsto> (fr, t)) \<and>
         comm q' = comm q \<and> DisplayMode q' = DisplayMode q)"

lemma put_frame_posts:
  assumes "qled_ok q" and "length fr \<le> cap" and "length fr \<le> 1024"
  shows "posts (bindE (put_frame cap L fr t q) (\<lambda>q. Inr (r, q))) r q L fr t"
  using put_frame_ok [OF assms, of L t] by (auto simp: posts_def qled_ok_def screen_def)

lemma take_data_ok [simp]: "take_data (data @ rest) (int (length data)) = Inr data"
  by (simp add: take_data_def)

lemma DisplaySpecially_posts:
  assumes "qled_ok q" and "length data \<le> 940"
  shows "posts (DisplaySpecially L F C S (data @ rest) (int (length data)) q) False q L
    (special_frame L F C S data) 450"
  using assms put_frame_posts [OF assms(1), of "special_frame L F C S data" 1024]
  by (simp add: DisplaySpecially_def length_special_frame)

lemma DisplayFast_posts:
  assumes "qled_ok q" and "length data \<le> 1000"
  shows "posts (DisplayFast L F C (data @ rest) (int (length data)) q) False q L
    (fast_frame L F C data) 80"
  using assms put_frame_posts [OF assms(1), of "fast_frame L F C data" 1024]
  by (simp add: DisplayFast_def length_fast_frame)

text \<open>The rounds of the thread are fetches of the mailbox, each frame sent twice.\<close>

definition send_twice :: "(byte list \<Rightarrow> 'c \<Rightarrow> int \<times> 'c) \<Rightarrow> byte list \<Rightarrow> 'c \<Rightarrow> 'c" where
  "send_twice Send fr c = snd (Send fr (snd (Send fr c)))"

lemma round_idle:
  assumes "ledList q = Some k" and "tasks_ok k" and "dom (waiting k) = {}"
  shows "foldE (\<lambda>_. DisplayThread_round GetStatus Send) is q = Inr q"
proof (induction "is")
  case (Cons i "is")
  have "FindNode True k = Inr None"
    using FindNode_waiting [OF assms(2)] assms(3) fetch_node_ok [OF assms(2)] by auto
  then have "DisplayThread_round GetStatus Send q = Inr q"
    using assms(1) by (simp add: DisplayThread_round_def)
  with Cons show ?case by simp
qed simp

lemma round_fetch:
  assumes "ledList q = Some k" and "comm q = Some c" and "GetStatus c"
    and "task_fetch k = Inr (Some (fr, t), k')"
  shows "DisplayThread_round GetStatus Send q =
    Inr (q\<lparr>ledList := Some k', comm := Some (send_twice Send fr c)\<rparr>)"
proof -
  obtain a where "FindNode True k = Inr (Some a)" and "fetch_node a k = Inr ((fr, t), k')"
    using assms(4) by (auto simp: task_fetch_def res_conv split: option.splits)
  with assms(1-3) show ?thesis
    by (simp add: DisplayThread_round_def send_twice_def case_prod_beta Let_def)
qed

text \<open>\<open>good\<close> is what every \<open>Send\<close> keeps of the device, and what makes it report itself open.\<close>

lemma rounds_drain:
  assumes "tasks.drain (length is) k = Inr (xs, k')" and "tasks_ok k"
    and "ledList q = Some k" and "comm q = Some c" and "good c"
    and "\<forall>c fr. good c \<longrightarrow> GetStatus c \<and> good (snd (Send fr c))"
  shows "\<exists>q'. foldE (\<lambda>_. DisplayThread_round GetStatus Send) is q = Inr q' \<and>
    ledList q' = Some k' \<and>
    comm q' = Some (fold (send_twice Send) (map fst xs) c)"
  using assms(1-5)
proof (induction "is" arbitrary: k q c xs)
  case Nil
  then show ?case by simp
next
  case (Cons i "is")
  let ?round = "DisplayThread_round GetStatus Send"
  show ?case
  proof (cases "dom (waiting k) = {}")
    case True
    have "xs = []" and "k' = k"
      using Cons.prems(1) tasks.fetch_none [OF Cons.prems(2) True] by auto
    then show ?thesis
      using round_idle [OF Cons.prems(3,2) True, of GetStatus Send "i # is"] Cons.prems(3,4)
      by (intro exI [of _ q]) simp
  next
    case False
    obtain fr t k1 where x: "task_fetch k = Inr (Some (fr, t), k1)" "tasks_ok k1"
      using tasks.fetch_slot [OF Cons.prems(2) False] by auto
    obtain ys where ys: "tasks.drain (length is) k1 = Inr (ys, k')" "xs = (fr, t) # ys"
      using Cons.prems(1) x(1) by (auto simp: res_conv)
    let ?q = "q\<lparr>ledList := Some k1, comm := Some (send_twice Send fr c)\<rparr>"
    have "GetStatus c"
      using assms(6) Cons.prems(5) by blast
    with Cons.prems(3,4) x(1) have r: "?round q = Inr ?q"
      by (intro round_fetch)
    have "good (send_twice Send fr c)"
      using assms(6) Cons.prems(5) by (simp add: send_twice_def)
    then obtain q' where "foldE (\<lambda>_. ?round) is ?q = Inr q'" "ledList q' = Some k'"
        "comm q' = Some (fold (send_twice Send) (map fst ys) (send_twice Send fr c))"
      using Cons.IH [OF ys(1) x(2), of ?q "send_twice Send fr c"] by auto
    then show ?thesis
      using r ys(2) by (intro exI [of _ q']) simp
  qed
qed

lemma display_good_drain:
  assumes "ledList q = Some k" and "tasks_ok k" and "comm q = Some c" and "good c"
    and "\<forall>c fr. good c \<longrightarrow> GetStatus c \<and> good (snd (Send fr c))"
    and "card (dom (waiting k)) \<le> rounds"
  shows "\<exists>q' ls k'. foldE (\<lambda>_. DisplayThread_round GetStatus Send) [0..<rounds] q = Inr q' \<and>
    distinct ls \<and> set ls = dom (waiting k) \<and>
    comm q' = Some (fold (send_twice Send) (map (\<lambda>l. fst (the (waiting k l))) ls) c) \<and>
    ledList q' = Some k' \<and> tasks_ok k' \<and> waiting k' = Map.empty"
proof -
  obtain ls k' where d: "tasks.drain rounds k = Inr (map (the \<circ> waiting k) ls, k')" "tasks_ok k'"
      "waiting k' = Map.empty" "distinct ls" "set ls = dom (waiting k)"
    using tasks.drain_all [OF assms(2,6)] by blast
  have len: "length [0..<rounds] = rounds"
    by simp
  obtain q' where "foldE (\<lambda>_. DisplayThread_round GetStatus Send) [0..<rounds] q = Inr q'"
      "ledList q' = Some k'"
      "comm q' = Some (fold (send_twice Send) (map fst (map (the \<circ> waiting k) ls)) c)"
    using rounds_drain [of "[0..<rounds]" k _ k', unfolded len, OF d(1) assms(2,1,3,4,5)] by blast
  with d(2-5) show ?thesis
    by (intro exI [of _ q'] exI [of _ ls] exI [of _ k']) (simp add: comp_def)
qed


lemma display_rounds_drain:
  assumes "ledList q = Some k" and "tasks_ok k" and "comm q = Some c" and "GetStatus c"
    and "\<forall>c fr. GetStatus c \<longrightarrow> GetStatus (snd (Send fr c))"
    and "card (dom (waiting k)) \<le> rounds"
  shows "\<exists>q' ls k'. foldE (\<lambda>_. DisplayThread_round GetStatus Send) [0..<rounds] q = Inr q' \<and>
    distinct ls \<and> set ls = dom (waiting k) \<and>
    comm q' = Some (fold (send_twice Send) (map (\<lambda>l. fst (the (waiting k l))) ls) c) \<and>
    ledList q' = Some k' \<and> tasks_ok k' \<and> waiting k' = Map.empty"
  using assms(5) by (intro display_good_drain [where good = GetStatus, OF assms(1-4) _ assms(6)]) blast

section \<open>Properties\<close>

text \<open>
  Every frame that is waiting reaches the display: with an online device, as many rounds of
  the display thread as there are lines waiting send each line's frame exactly twice, one line
  after the other, leave nothing waiting and never touch memory outside the list.
\<close>

theorem display_thread_sends_all:
  assumes "ledList q = Some k" and "tasks_ok k" and "comm q = Some c" and "GetStatus c"
    and "\<forall>c fr. GetStatus c \<longrightarrow> GetStatus (snd (Send fr c))"
    and "card (dom (waiting k)) \<le> rounds"
  shows "\<exists>q' ls k'. foldE (\<lambda>_. DisplayThread_round GetStatus Send) [0..<rounds] q = Inr q' \<and>
    distinct ls \<and> set ls = dom (waiting k) \<and>
    comm q' = Some (fold (send_twice Send) (map (\<lambda>l. fst (the (waiting k l))) ls) c) \<and>
    ledList q' = Some k' \<and> tasks_ok k' \<and> waiting k' = Map.empty"
  using display_rounds_drain [OF assms] .

text \<open>A display whose list has just been set up, and the frame of one command.\<close>

lemma display_example:
  "\<exists>(q :: byte list list qled) k. ledList q = Some k \<and> tasks_ok k \<and> comm q = Some [] \<and>
     waiting k = Map.empty(9 \<mapsto> (switch_frame 1, 150))"
proof -
  obtain k where k: "tasks_ok k" "waiting k = Map.empty"
    using tasks_ok_init [of "\<lparr>status = False, Line = 0, QLED_Data_Len = 0, TimeOut = 0,
      QLED_Data = replicate 1024 0\<rparr>"] by auto
  obtain k' where "task_post 9 (switch_frame 1) 150 k = Inr k'" "tasks_ok k'"
      "waiting k' = Map.empty(9 \<mapsto> (switch_frame 1, 150))"
    using tasks.post_slot [OF k(1), of "switch_frame 1" 9 150] k(2) by (auto simp: length_const_frames)
  then show ?thesis
    by (intro exI [of _ "(QLED_new k')\<lparr>comm := Some []\<rparr>"] exI [of _ k']) (simp add: QLED_new_def)
qed

theorem display_thread_sends_all_witness:
  "\<exists>q q' :: byte list list qled. foldE (\<lambda>_. DisplayThread_round (\<lambda>_. True) (\<lambda>fr c. (0, c @ [fr]))) [0..<3] q = Inr q' \<and>
     comm q = Some [] \<and> comm q' = Some [switch_frame 1, switch_frame 1] \<and> screen q' = Map.empty"
proof -
  obtain q :: "byte list list qled" and k where q: "ledList q = Some k" "tasks_ok k" "comm q = Some []"
      and w: "waiting k = Map.empty(9 \<mapsto> (switch_frame 1, 150))"
    using display_example by blast
  have "card (dom (waiting k)) \<le> 3"
    by (simp add: w)
  with display_thread_sends_all [OF q, of "\<lambda>_. True" "\<lambda>fr c. (0, c @ [fr])" 3]
  obtain q' ls k' where r: "foldE (\<lambda>_. DisplayThread_round (\<lambda>_. True) (\<lambda>fr c. (0, c @ [fr]))) [0..<3] q = Inr q'"
      "distinct ls" "set ls = dom (waiting k)" "ledList q' = Some k'" "waiting k' = Map.empty"
      "comm q' = Some (fold (send_twice (\<lambda>fr c. (0, c @ [fr]))) (map (\<lambda>l. fst (the (waiting k l))) ls) [])"
    by auto
  have "ls = [9]"
    using r(2,3) w by (cases ls; cases "tl ls") auto
  then show ?thesis
    using r(1,4,5,6) q(3) w by (intro exI [of _ q] exI [of _ q']) (simp add: send_twice_def screen_def)
qed

lemma DisplyShow_posts:
  assumes "qled_ok q" and "DisplayMode q \<noteq> 0" and "length data < 128"
  shows "posts (DisplyShow L F C S (data @ rest) (int (length data)) q) False q L
    (special_frame L F C (if 20 < length data then 1 else S) data) 450"
proof -
  let ?S = "if 20 < length data then 1 else S"
  have "wr_block (replicate 128 0) 0 data = Inr (data @ replicate (128 - length data) 0)"
    using assms(3) by (simp add: wr_block_def)
  then have "DisplyShow L F C S (data @ rest) (int (length data)) q =
      DisplaySpecially L F C ?S (data @ rest) (int (length data)) q"
    using assms(2,3) by (simp add: DisplyShow_def Let_def)
  then show ?thesis
    using assms(3) DisplaySpecially_posts [OF assms(1), of data L F C ?S rest] by simp
qed

text \<open>
  Showing a text of fewer than 128 bytes in the special-effect mode leaves exactly one frame
  waiting, on the line asked for; the frame is well formed, its lengths are right and it carries
  the text unchanged; a text of more than 20 bytes scrolls. The method answers false all the same.
\<close>

theorem DisplyShow_posts_frame:
  assumes "qled_ok q" and "DisplayMode q \<noteq> 0" and "length data < 128"
  shows "\<exists>fr. fr = special_frame L F C (if 20 < length data then 1 else S) data \<and>
    posts (DisplyShow L F C S (data @ rest) (int (length data)) q) False q L fr 450 \<and>
    fee_frame fr \<and> segment 69 (length data) fr = data"
  using DisplyShow_posts [OF assms] assms(3) by (simp add: special_frame_ok special_frame_data)

text \<open>A display set up as the program does, with an empty task list.\<close>

lemma fresh_qled:
  "\<exists>q :: unit qled. qled_ok q \<and> DisplayMode q = 1 \<and> oldpage q = -1 \<and> screen q = Map.empty \<and>
     Relay1 q = (0xFD, 0x02)"
proof -
  let ?J = "\<lparr>status = False, Line = 0, QLED_Data_Len = 0, TimeOut = 0, QLED_Data = replicate 1024 0\<rparr>"
  obtain k where "tasks_ok k" "waiting k = Map.empty"
    using tasks_ok_init [of ?J] by auto
  then show ?thesis
    by (intro exI [of _ "QLED_new k"]) (simp add: QLED_new_def qled_ok_def screen_def)
qed

theorem DisplyShow_posts_frame_witness:
  "\<exists>q :: unit qled. posts (DisplyShow 2 3 1 9 ([0x41, 0x42] @ []) (int (length [0x41, 0x42 :: byte])) q) False q 2
     (special_frame 2 3 1 9 [0x41, 0x42]) 450"
proof -
  obtain q :: "unit qled" where q: "qled_ok q" "DisplayMode q = 1"
    using fresh_qled by blast
  have "DisplayMode q \<noteq> 0" and "length [0x41, 0x42 :: byte] < 128"
    using q(2) by simp_all
  from DisplyShow_posts_frame [OF q(1) this, of 2 3 1 9 "[]"] show ?thesis
    by auto
qed

lemma control_commands:
  assumes "qled_ok q"
  shows "oldpage q \<noteq> p \<longrightarrow> posts (DisplayPage p q) True q 7 (page_frame p) 150"
    and "oldpage q = p \<longrightarrow> DisplayPage p q = Inr (True, q)"
    and "posts (DisplaySwitch st q) True q 9 (switch_frame st) 150"
    and "posts (DisplayBright m sz q) False q 10 (bright_frame m sz) 150"
    and "posts (TrafficLed l m q) True q 2 (traffic_frame l m) 150"
    and "fee_frame (page_frame p)" and "fee_frame (switch_frame st)"
    and "fee_frame (bright_frame m sz)" and "fee_frame (traffic_frame l m)"
proof -
  let ?q = "q\<lparr>oldpage := p\<rparr>"
  have q: "qled_ok ?q" "screen ?q = screen q"
    using assms by (simp_all add: qled_ok_def screen_def)
  obtain k where k: "put_frame 128 7 (page_frame p) 150 ?q = Inr (?q\<lparr>ledList := Some k\<rparr>)" "tasks_ok k"
      "waiting k = (screen q)(7 \<mapsto> (page_frame p, 150))"
    using put_frame_ok [OF q(1), of "page_frame p" 128 7 150] q(2) by (auto simp: length_const_frames)
  have q1: "qled_ok (?q\<lparr>ledList := Some k\<rparr>)" "screen (?q\<lparr>ledList := Some k\<rparr>) = waiting k"
    using k(2) by (simp_all add: qled_ok_def screen_def)
  show "oldpage q \<noteq> p \<longrightarrow> posts (DisplayPage p q) True q 7 (page_frame p) 150"
    using k put_frame_ok [OF q1(1), of "page_frame p" 128 7 150] q1(2)
    by (auto simp: DisplayPage_def posts_def qled_ok_def screen_def length_const_frames)
qed (use assms const_frames_ok in \<open>auto simp: DisplayPage_def DisplaySwitch_def DisplayBright_def TrafficLed_def
    intro!: put_frame_posts simp: length_const_frames\<close>)

text \<open>
  The control commands post the frame of their kind on the line the protocol reserves for it,
  and every one of these frames is well formed; a page that is already shown is not sent again.
\<close>

theorem control_commands_post_frames:
  assumes "qled_ok q"
  shows "(oldpage q \<noteq> p \<longrightarrow> posts (DisplayPage p q) True q 7 (page_frame p) 150) \<and>
    (oldpage q = p \<longrightarrow> DisplayPage p q = Inr (True, q)) \<and>
    posts (DisplaySwitch st q) True q 9 (switch_frame st) 150 \<and>
    posts (DisplayBright m sz q) False q 10 (bright_frame m sz) 150 \<and>
    posts (TrafficLed l m q) True q 2 (traffic_frame l m) 150 \<and>
    fee_frame (page_frame p) \<and> fee_frame (switch_frame st) \<and> fee_frame (bright_frame m sz) \<and>
    fee_frame (traffic_frame l m)"
  using control_commands [OF assms] by blast

theorem control_commands_post_frames_witness:
  "\<exists>q :: unit qled. posts (DisplayPage 1 q) True q 7 (page_frame 1) 150 \<and>
     posts (TrafficLed 3 1 q) True q 2 (traffic_frame 3 1) 150"
proof -
  obtain q :: "unit qled" where q: "qled_ok q" "oldpage q = -1"
    using fresh_qled by blast
  from control_commands_post_frames [OF q(1), of 1 0 0 0 3] control_commands_post_frames [OF q(1), of 1 0 1 0 3] q(2)
  show ?thesis
    by auto
qed

text \<open>
  The fast display command produces a well-formed frame exactly when the frame is shorter than
  256 bytes: its length fields are shifted left where the other commands shift right.
\<close>

theorem fast_frame_well_formed_iff:
  assumes "qled_ok q" and "length data \<le> 1000"
  shows "posts (DisplayFast L F C (data @ rest) (int (length data)) q) False q L (fast_frame L F C data) 80 \<and>
    (fee_frame (fast_frame L F C data) \<longleftrightarrow> length data + 24 < 256)"
  using DisplayFast_posts [OF assms, of L F C rest] fast_frame_ok_iff by blast

theorem fast_frame_well_formed_iff_witness: "\<not> fee_frame (fast_frame 1 1 1 (replicate 232 0x41))"
proof -
  obtain q :: "unit qled" where q: "qled_ok q"
    using fresh_qled by blast
  have "length (replicate 232 (0x41 :: byte)) \<le> 1000"
    by simp
  from fast_frame_well_formed_iff [OF q this, of 1 1 1 "[]"] show ?thesis
    by simp
qed

definition complement_pair :: "byte \<times> byte \<Rightarrow> bool" where
  "complement_pair r \<longleftrightarrow> snd r = 0xFF - fst r"

lemma complement_pair_simps:
  "complement_pair (0xFD, 0x02)" "complement_pair (0xFC, 0x03)"
  "complement_pair (w, 0xFF - r) \<longleftrightarrow> r = w"
  by (auto simp: complement_pair_def)

lemma set_relay_pairs:
  assumes "set_relay b v sec q = Some p"
  shows "complement_pair (Relay1 q) \<longrightarrow> complement_pair (Relay1 p)"
    and "b = 2 \<and> v \<noteq> 0 \<and> sec \<noteq> 0 \<longrightarrow>
      (complement_pair (Relay2 p) \<longleftrightarrow> fst (Relay1 q) = word_of_int (0xB0 + sec * 2))"
    and "b = 3 \<and> v \<noteq> 0 \<and> sec \<noteq> 0 \<longrightarrow>
      (complement_pair (Relay3 p) \<longleftrightarrow> fst (Relay1 q) = word_of_int (0xB0 + sec * 2))"
  using assms by (auto simp: set_relay_def complement_pair_simps Let_def split: if_splits)
    (simp_all add: complement_pair_def)

text \<open>
  Relay commands: relay 1 always carries a value and its complement, whatever commands come;
  relay 2 and relay 3, switched on for a number of seconds, carry the complement of relay 1's
  value, so their pair is right only when relay 1 happens to hold the same value. A relay number
  outside 1..3 is refused without a frame.
\<close>

theorem relay_commands:
  assumes "qled_ok q"
  shows "(b \<notin> {1, 2, 3} \<longrightarrow> DisplaySetRelay b v sec q = Inr (False, q)) \<and>
    (b \<in> {1, 2, 3} \<longrightarrow> (\<exists>q'. DisplaySetRelay b v sec q = Inr (True, q') \<and> qled_ok q' \<and>
       screen q' = (screen q)(8 \<mapsto> (relay_frame (Relay1 q') (Relay2 q') (Relay3 q'), 150)) \<and>
       (complement_pair (Relay1 q) \<longrightarrow> complement_pair (Relay1 q')) \<and>
       (b = 2 \<and> v \<noteq> 0 \<and> sec \<noteq> 0 \<longrightarrow>
          (complement_pair (Relay2 q') \<longleftrightarrow> fst (Relay1 q) = word_of_int (0xB0 + sec * 2))) \<and>
       (b = 3 \<and> v \<noteq> 0 \<and> sec \<noteq> 0 \<longrightarrow>
          (complement_pair (Relay3 q') \<longleftrightarrow> fst (Relay1 q) = word_of_int (0xB0 + sec * 2)))))"
proof (cases "set_relay b v sec q")
  case None
  then have "b \<notin> {1, 2, 3}"
    by (auto simp: set_relay_def split: if_splits)
  with None show ?thesis
    by (simp add: DisplaySetRelay_def)
next
  case (Some p)
  then have b: "b \<in> {1, 2, 3}" and p: "qled_ok p" "screen p = screen q"
    using assms by (auto simp: set_relay_def qled_ok_def screen_def Let_def split: if_splits)
  let ?fr = "relay_frame (Relay1 p) (Relay2 p) (Relay3 p)"
  obtain k where k: "put_frame 128 8 ?fr 150 p = Inr (p\<lparr>ledList := Some k\<rparr>)" "tasks_ok k"
      "waiting k = (screen q)(8 \<mapsto> (?fr, 150))"
    using put_frame_ok [OF p(1), of ?fr 128 8 150] p(2) by (auto simp: length_const_frames)
  then have "DisplaySetRelay b v sec q = Inr (True, p\<lparr>ledList := Some k\<rparr>)"
    using Some by (simp add: DisplaySetRelay_def)
  then show ?thesis
    using b k(2,3) set_relay_pairs [OF Some] by (simp add: qled_ok_def screen_def)
qed

theorem relay_commands_witness:
  "\<exists>q q' :: unit qled. DisplaySetRelay 2 1 5 q = Inr (True, q') \<and> \<not> complement_pair (Relay2 q')"
proof -
  obtain q :: "unit qled" where q: "qled_ok q" "Relay1 q = (0xFD, 0x02)"
    using fresh_qled by blast
  obtain q' where "DisplaySetRelay 2 1 5 q = Inr (True, q')"
      "complement_pair (Relay2 q') \<longleftrightarrow> fst (Relay1 q) = word_of_int (0xB0 + 5 * 2)"
    using relay_commands [OF q(1), of 2 1 5] by auto
  with q(2) show ?thesis
    by (intro exI [of _ q] exI [of _ q']) simp
qed

text \<open>
  Clearing line 0 clears the lines 1 to 4: each of them has the blank frame waiting, and no
  other line changes.
\<close>

theorem DisplayClear_all:
  assumes "qled_ok q" and "DisplayMode q \<noteq> 0"
  shows "\<exists>q'. DisplayClear 0 q = Inr (True, q') \<and> qled_ok q' \<and>
    screen q' = (\<lambda>l. if 1 \<le> l \<and> l \<le> 4
       then Some (special_frame l 0 1 9 (replicate 8 0x20), 450) else screen q l)"
proof -
  let ?blank = "replicate 8 (0x20 :: byte)"
  let ?step = "\<lambda>i q. bindE (clear_line i 8 q) (\<lambda>(_, q). Inr q)"
  have c: "\<exists>q'. ?step i p = Inr q' \<and> qled_ok q' \<and> DisplayMode q' = DisplayMode p \<and>
      screen q' = (screen p)(i \<mapsto> (special_frame i 0 1 9 ?blank, 450))"
    if "qled_ok p" "DisplayMode p \<noteq> 0" for i and p :: "'a qled"
  proof -
    have "replicate 16 (0x20 :: byte) = ?blank @ ?blank"
      by (simp add: replicate_add [symmetric])
    then have "clear_line i 8 p = DisplaySpecially i 0 1 9 (?blank @ ?blank) (int (length ?blank)) p"
      using that(2) by (simp add: clear_line_def)
    then show ?thesis
      using DisplaySpecially_posts [OF that(1), of ?blank i 0 1 9 ?blank]
      by (auto simp: posts_def split: sum.splits prod.splits)
  qed
  obtain q1 where q1: "?step 1 q = Inr q1" "qled_ok q1" "DisplayMode q1 = DisplayMode q"
      "screen q1 = (screen q)(1 \<mapsto> (special_frame 1 0 1 9 ?blank, 450))"
    using c [OF assms] by blast
  obtain q2 where q2: "?step 2 q1 = Inr q2" "qled_ok q2" "DisplayMode q2 = DisplayMode q"
      "screen q2 = (screen q1)(2 \<mapsto> (special_frame 2 0 1 9 ?blank, 450))"
    using c [OF q1(2), of 2] q1(3) assms(2) by auto
  obtain q3 where q3: "?step 3 q2 = Inr q3" "qled_ok q3" "DisplayMode q3 = DisplayMode q"
      "screen q3 = (screen q2)(3 \<mapsto> (special_frame 3 0 1 9 ?blank, 450))"
    using c [OF q2(2), of 3] q2(3) assms(2) by auto
  obtain q4 where q4: "?step 4 q3 = Inr q4" "qled_ok q4"
      "screen q4 = (screen q3)(4 \<mapsto> (special_frame 4 0 1 9 ?blank, 450))"
    using c [OF q3(2), of 4] q3(3) assms(2) by auto
  have "[1..4 :: int] = [1, 2, 3, 4]"
    by (simp add: upto_rec1)
  then have "DisplayClear 0 q = Inr (True, q4)"
    using q1(1) q2(1) q3(1) q4(1) by (simp add: DisplayClear_def)
  moreover have "screen q4 = (\<lambda>l. if 1 \<le> l \<and> l \<le> 4
      then Some (special_frame l 0 1 9 ?blank, 450) else screen q l)"
  proof
    fix l :: int
    have "1 \<le> l \<and> l \<le> 4 \<longleftrightarrow> l = 1 \<or> l = 2 \<or> l = 3 \<or> l = 4"
      by auto
    then show "screen q4 l = (if 1 \<le> l \<and> l \<le> 4
        then Some (special_frame l 0 1 9 ?blank, 450) else screen q l)"
      using q1(4) q2(4) q3(4) q4(3) by auto
  qed
  ultimately show ?thesis
    using q4(2) by blast
qed

theorem DisplayClear_all_witness:
  "\<exists>q q' :: unit qled. DisplayClear 0 q = Inr (True, q') \<and> screen q = Map.empty \<and> dom (screen q') = {1..4}"
proof -
  obtain q :: "unit qled" where q: "qled_ok q" "DisplayMode q = 1" "screen q = Map.empty"
    using fresh_qled by blast
  then have "DisplayMode q \<noteq> 0" by simp
  then obtain q' where q': "DisplayClear 0 q = Inr (True, q')"
      "screen q' = (\<lambda>l. if 1 \<le> l \<and> l \<le> 4
         then Some (special_frame l 0 1 9 (replicate 8 0x20), 450) else screen q l)"
    using DisplayClear_all [OF q(1)] by blast
  have "dom (screen q') = {1..4}"
    using q(3) by (auto simp: q'(2) split: if_splits)
  with q(3) q'(1) show ?thesis
    by blast
qed

text \<open>
  Opening the display on a parameter string \<open>device,port\<close> opens that device with that port
  number, for every port an \<open>int\<close> can hold; a parameter string without a comma, which the
  configuration's default is, ends the program with an uncaught \<open>out_of_range\<close>; a device type
  other than 0 and 2 is refused.
\<close>

theorem FB_Open_cases:
  assumes "dev \<noteq> []" and "CHR '','' \<notin> set dev" and "- (2 ^ 31) \<le> port" and "port < 2 ^ 31"
  shows "(nType \<in> {0, 2} \<longrightarrow>
      FB_Open CreatComm nType (dev @ '','' @ to_string port) q = Inr (DisplayInit CreatComm nType dev port q) \<and>
      FB_Open CreatComm nType dev q = Inl UncaughtException) \<and>
    (nType \<notin> {0, 2} \<longrightarrow> FB_Open CreatComm nType dev q = Inr (False, q))"
proof -
  let ?comma = "\<lambda>c. c = CHR '',''"
  have "\<forall>c\<in>set dev. \<not> ?comma c"
    using assms(2) by auto
  then have dev: "find_first_of ?comma dev = None"
      "find_first_of ?comma (dev @ '','' @ to_string port) = Some (length dev)"
    by (simp_all add: find_first_of_append)
  have "is_digit c \<longrightarrow> c \<noteq> CHR '',''" for c
    by (auto simp: is_digit_def)
  then have "\<forall>c\<in>set (to_string port). \<not> ?comma c"
    using dec_nat_digits by (auto simp: to_string_def)
  then have "find_first_of ?comma (to_string port) = None"
    by simp
  moreover have "to_string port \<noteq> []"
    using dec_nat_Cons [of "nat port"] by (auto simp: to_string_def)
  moreover have "substr 0 (Some (length dev)) (dev @ '','' @ to_string port) = Inr dev"
      and "substr (length dev + 1) None (dev @ '','' @ to_string port) = Inr (to_string port)"
      and "substr 0 None (to_string port) = Inr (to_string port)"
      and "substr 0 None dev = Inr dev" and "substr (length dev + 1) None dev = Inl UncaughtException"
    by (simp_all add: substr_def)
  ultimately show ?thesis
    using assms(1) dev atoi_to_string [OF assms(3,4)]
    by (simp add: FB_Open_def del: append_Cons append_Nil find_first_of_None substr_ok)
qed

theorem FB_Open_cases_witness:
  "\<forall>k. FB_Open (\<lambda>_ _ _. Some ()) 0 (''/dev/ttyS5'' @ '','' @ to_string 9600) (QLED_new k) =
     Inr (DisplayInit (\<lambda>_ _ _. Some ()) 0 ''/dev/ttyS5'' 9600 (QLED_new k)) \<and>
   FB_Open (\<lambda>_ _ _. Some ()) 0 ''/dev/ttyS5'' (QLED_new k) = Inl UncaughtException"
proof
  fix k
  show "FB_Open (\<lambda>_ _ _. Some ()) 0 (''/dev/ttyS5'' @ '','' @ to_string 9600) (QLED_new k) =
     Inr (DisplayInit (\<lambda>_ _ _. Some ()) 0 ''/dev/ttyS5'' 9600 (QLED_new k)) \<and>
   FB_Open (\<lambda>_ _ _. Some ()) 0 ''/dev/ttyS5'' (QLED_new k) = Inl UncaughtException"
    using FB_Open_cases [of "''/dev/ttyS5''" 9600 0 "\<lambda>_ _ _. Some ()" "QLED_new k"] by simp
qed

end
