(* ===== verification/Tts.thy ===== *)
theory Tts
  imports Os Convert
begin

text \<open>
  \<open>TTS::speech_playback\<close> (src/tts.cpp): starting the playback of a text. The body of the playback
  thread (\<open>TTS::compound\<close>, which drives the speech engine) is the parameter \<open>compound\<close>, and
  \<open>iconv_open\<close> and \<open>iconv\<close> are the parameters of the converter for GBK texts (\<open>Convert\<close>). The body may
  never end (\<open>Diverges\<close>), and then \<open>join\<close> does not return either. The constructor leaves \<open>m_text\<close>
  uninitialised: it holds the bytes \<open>junk\<close>.
\<close>

record tts =
  m_text :: "byte list"
  m_thread :: thread_state

definition TTS_new :: "byte list \<Rightarrow> tts" where
  "TTS_new junk = \<lparr>m_text = junk, m_thread = NotStarted\<rparr>"

definition find_process_kill :: "'w kernel \<Rightarrow> string \<Rightarrow> 'w os \<Rightarrow> 'w os" where
  "find_process_kill K process_name s =
     (let (status, s) = do_sys K (System (take 255 (bytes_of (''pidof '' @ process_name)))) s
      in if fst status = 0 then snd (do_sys K (System (bytes_of ''killall -9 aplay'')) s) else s)"

text \<open>\<open>memcpy\<close> of \<open>textLen\<close> bytes of the text into a zero-filled array of \<open>3 * textLen + 3\<close> bytes.\<close>

definition speech_buffer ::
  "(string \<Rightarrow> string \<Rightarrow> 'cd option) \<Rightarrow> ('cd \<Rightarrow> byte list \<Rightarrow> nat \<Rightarrow> bool \<times> byte list) \<Rightarrow>
   int \<Rightarrow> byte list \<Rightarrow> int \<Rightarrow> byte list res" where
  "speech_buffer iconv_open iconv nType txt textLen =
     (if textLen < 0 \<or> int (length txt) < textLen then Inl OutOfBounds
      else let speech_text = replicate (nat textLen * 3 + 3) 0; n = nat textLen
      in if nType = 1 then wr_block speech_text 0 (take n txt)
         else if nType = 2 then
           bindE (wr_block (replicate (n + 1) 0) 0 (take n txt)) (\<lambda>speech_data.
           bindE (charset_convert_GB2312_TO_UTF8 iconv_open iconv (Some speech_data) n (Some speech_text)
                    (length speech_text)) (\<lambda>(_, out).
             case out of None \<Rightarrow> Inl NullPointer | Some speech_text \<Rightarrow> Inr speech_text))
         else Inr speech_text)"

text \<open>\<open>m_thread.join ()\<close>: the body of a thread that has not finished runs to its end.\<close>

definition join_player :: "(byte list \<Rightarrow> 'w os \<Rightarrow> 'w os res) \<Rightarrow> tts \<Rightarrow> 'w os \<Rightarrow> 'w os res" where
  "join_player compound t s = (if m_thread t = Running then compound (c_string (m_text t)) s else Inr s)"

definition speech_playback ::
  "'w kernel \<Rightarrow> (string \<Rightarrow> string \<Rightarrow> 'cd option) \<Rightarrow>
   ('cd \<Rightarrow> byte list \<Rightarrow> nat \<Rightarrow> bool \<times> byte list) \<Rightarrow> (byte list \<Rightarrow> 'w os \<Rightarrow> 'w os res) \<Rightarrow>
   int \<Rightarrow> int \<Rightarrow> byte list \<Rightarrow> int \<Rightarrow> tts \<Rightarrow> 'w os \<Rightarrow> (tts \<times> 'w os) res" where
  "speech_playback K iconv_open iconv compound nType nSpeed txt textLen t s =
     bindE (speech_buffer iconv_open iconv nType txt textLen) (\<lambda>speech_text.
     bindE (if joinable (m_thread t)
            then bindE (join_player compound t s) (\<lambda>s. Inr (find_process_kill K ''aplay'' s))
            else Inr s) (\<lambda>s.
     let s = snd (do_sys K (System (bytes_of (''amixer set Master '' @ to_string nSpeed @ ''0''))) s);
         text = take 2047 (c_string speech_text)
     in Inr (t\<lparr>m_text := text @ replicate (2048 - length text) 0, m_thread := Running\<rparr>, s)))"

lemma speech_buffer_utf8:
  "speech_buffer io ic 1 (txt @ rest) (int (length txt)) = Inr (txt @ replicate (2 * length txt + 3) 0)"
  by (simp add: speech_buffer_def wr_block_def Let_def)

lemma c_string_pad: "0 \<notin> set txt \<Longrightarrow> c_string (txt @ replicate n 0) = txt"
  by (cases n) (auto simp: c_string_def takeWhile_append)

text \<open>The commands run before the new text: the search for the player, and its end when it is found.\<close>

definition stop_calls :: "'w kernel \<Rightarrow> tts \<Rightarrow> 'w os \<Rightarrow> syscall list" where
  "stop_calls K t s = (if joinable (m_thread t)
     then System (bytes_of ''pidof aplay'') #
       (if answer K (System (bytes_of ''pidof aplay'')) s = 0 then [System (bytes_of ''killall -9 aplay'')] else [])
     else [])"

lemma calls_find_process_kill:
  "joinable (m_thread t) \<Longrightarrow> calls (find_process_kill K ''aplay'' s) = calls s @ stop_calls K t s"
proof -
  have "take 255 (bytes_of (''pidof '' @ ''aplay'')) = bytes_of ''pidof aplay''"
    by (simp add: bytes_of_def)
  then show "joinable (m_thread t) \<Longrightarrow> calls (find_process_kill K ''aplay'' s) = calls s @ stop_calls K t s"
    by (simp add: find_process_kill_def stop_calls_def split_beta Let_def)
qed

text \<open>
  When the thread of the last text ends, leaving \<open>s1\<close>, a UTF-8 text becomes the text to play; when it does not,
  the call does not return.
\<close>

lemma speech_playback_utf8:
  assumes "0 \<notin> set txt" and "length txt < 2048" and "join_player compound t s = Inr s1"
  shows "\<exists>t' s'. speech_playback K io ic compound 1 n (txt @ rest) (int (length txt)) t s = Inr (t', s') \<and>
    c_string (m_text t') = txt \<and> m_thread t' = Running \<and> length (m_text t') = 2048 \<and>
    calls s' = calls s1 @ stop_calls K t s1 @ [System (bytes_of (''amixer set Master '' @ to_string n @ ''0''))]"
proof (cases "joinable (m_thread t)")
  case True
  then show ?thesis
    using assms calls_find_process_kill [OF True, of K s1]
    by (simp add: speech_playback_def speech_buffer_utf8 c_string_pad Let_def)
next
  case False
  then have "s1 = s" and "stop_calls K t s1 = []"
    using assms(3) by (auto simp: join_player_def joinable_def stop_calls_def)
  then show ?thesis
    using assms(1,2) False by (simp add: speech_playback_def speech_buffer_utf8 c_string_pad Let_def)
qed

lemma speech_playback_blocked:
  assumes "join_player compound t s = Inl e" and "speech_buffer io ic ty txt n = Inr b"
  shows "speech_playback K io ic compound ty v txt n t s = Inl e"
proof -
  have "joinable (m_thread t)"
    using assms(1) by (auto simp: join_player_def joinable_def split: if_splits)
  then show ?thesis
    using assms by (simp add: speech_playback_def)
qed

end
