(* ===== verification/Voice.thy ===== *)
theory Voice
  imports Tts
begin

text \<open>
  The phrases of \<open>IMachine::DisplayVoice\<close> (src/IMachine.cpp): each byte of the command names a
  phrase, whose UTF-8 bytes are appended with \<open>strcat\<close> to \<open>char VoiceData[256]\<close>.
\<close>

section \<open>The code\<close>

text \<open>The phrases of the cases 0x00 to 0x33, and 0x34 to 0x66.\<close>

definition voice_phrases_low :: "byte list list" where
  "voice_phrases_low =
    [[0x30],
     [0x31],
     [0x32],
     [0x33],
     [0x34],
     [0x35],
     [0x36],
     [0x37],
     [0x38],
     [0x39],
     [0xE5, 0x85, 0x83],
     [0xE9, 0x9B, 0xB6],
     [0xE5, 0x8D, 0x81],
     [0xE7, 0x99, 0xBE],
     [0xE5, 0x8D, 0x83],
     [0xE4, 0xB8, 0x87],
     [0xE4, 0xB8, 0x80, 0xE7, 0xB1, 0xBB, 0xE8, 0xBD, 0xA6],
     [0xE4, 0xBA, 0x8C, 0xE7, 0xB1, 0xBB, 0xE8, 0xBD, 0xA6],
     [0xE4, 0xB8, 0x89, 0xE7, 0xB1, 0xBB, 0xE8, 0xBD, 0xA6],
     [0xE5, 0x9B, 0x9B, 0xE7, 0xB1, 0xBB, 0xE8, 0xBD, 0xA6],
     [0xE4, 0xBA, 0x94, 0xE7, 0xB1, 0xBB, 0xE8, 0xBD, 0xA6],
     [0xE5, 0x85, 0xAD, 0xE7, 0xB1, 0xBB, 0xE8, 0xBD, 0xA6],
     [0xE4, 0xB8, 0x83, 0xE7, 0xB1, 0xBB, 0xE8, 0xBD, 0xA6],
     [0xE5, 0x85, 0xAB, 0xE7, 0xB1, 0xBB, 0xE8, 0xBD, 0xA6],
     [0xE4, 0xB9, 0x9D, 0xE7, 0xB1, 0xBB, 0xE8, 0xBD, 0xA6],
     [0xE9, 0x87, 0x91, 0xE9, 0xA2, 0x9D],
     [0xE4, 0xBD, 0x99, 0xE9, 0xA2, 0x9D],
     [0xE5, 0x9E, 0x8B],
     [0xE8, 0xBD, 0xA6],
     [0xE9, 0x81, 0x93],
     [0xE8, 0xB6, 0x85, 0xE9, 0x99, 0x90, 0xE7, 0x8E, 0x87],
     [0xE8, 0xB6, 0x85, 0xE9, 0x99, 0x90, 0xE9, 0x87, 0x8D],
     [0xE6, 0x80, 0xBB, 0xE8, 0xBD, 0xB4, 0xE9, 0x87, 0x8D],
     [0xE5, 0x90, 0xA8],
     [0xE6, 0x82, 0xA8, 0xE5, 0xA5, 0xBD],
     [0xE6, 0xAC, 0xA2, 0xE8, 0xBF, 0x8E, 0xE5, 0x85, 0x89, 0xE4, 0xB8, 0xB4],
     [0xE8, 0xB0, 0xA2, 0xE8, 0xB0, 0xA2],
     [0xE4, 0xB8, 0x80, 0xE8, 0xB7, 0xAF, 0xE5, 0xB9, 0xB3, 0xE5, 0xAE, 0x89],
     [0xE5, 0x86, 0x8D, 0xE8, 0xA7, 0x81],
     [0xE6, 0x8A, 0xA5, 0xE8, 0xAD, 0xA6, 0xE9, 0x9F, 0xB3],
     [0xE8, 0xB0, 0xA2, 0xE8, 0xB0, 0xA2, 0xE5, 0x90, 0x88, 0xE4, 0xBD, 0x9C],
     [0xE6, 0xAD, 0xA3, 0xE5, 0xB8, 0xB8],
     [0xE9, 0xA2, 0x84, 0xE4, 0xBB, 0x98],
     [0xE6, 0xAC, 0xA0, 0xE6, 0xAC, 0xBE],
     [0xE5, 0x85, 0xAC, 0xE5, 0x8A, 0xA1],
     [0xE5, 0x86, 0x9B, 0xE8, 0xAD, 0xA6],
     [0xE7, 0xB4, 0xA7, 0xE6, 0x80, 0xA5],
     [0xE5, 0x85, 0x8D, 0xE8, 0xB4, 0xB9],
     [0xE8, 0xBD, 0xA6, 0xE9, 0x98, 0x9F],
     [0xE5, 0x8F, 0x98, 0xE6, 0xA1, 0xA3],
     [0xE6, 0x97, 0xA0, 0xE5, 0x8D, 0xA1],
     [0xE5, 0x8F, 0xB3, 0xE8, 0xBD, 0xAC]]"

definition voice_phrases_high :: "byte list list" where
  "voice_phrases_high =
    [[0xE8, 0xB6, 0x85, 0xE6, 0x97, 0xB6],
     [0xE8, 0xBF, 0x9D, 0xE7, 0xAB, 0xA0],
     [0xE9, 0xBB, 0x91, 0xE8, 0xBD, 0xA6],
     [0xE9, 0xBB, 0x91, 0xE5, 0x8D, 0xA1],
     [0xE5, 0x9D, 0x8F, 0xE5, 0x8D, 0xA1],
     [0xE6, 0x9B, 0xB4, 0xE6, 0x94, 0xB9],
     [0xE8, 0xBD, 0xA6, 0xE7, 0x89, 0x8C, 0xE4, 0xB8, 0x8D, 0xE7, 0xAC, 0xA6],
     [0xE6, 0x97, 0xA0],
     [0xE7, 0x82, 0xB9],
     [0xE7, 0xB3, 0xBB, 0xE7, 0xBB, 0x9F, 0xE6, 0xAD, 0xA3, 0xE5, 0x9C, 0xA8, 0xE5, 0x8A, 0xA0, 0xE7,
      0x82, 0xB9, 0xE8, 0x87, 0xAA, 0xE6, 0xA3, 0x80],
     [0xE8, 0xB4, 0xA7, 0xE8, 0xBD, 0xA6],
     [0xE5, 0xAE, 0xA2, 0xE8, 0xBD, 0xA6],
     [0xE5, 0x9E, 0x8B, 0xE8, 0xBD, 0xA6],
     [0xE5, 0x86, 0x9C, 0xE7, 0x94, 0xA8, 0xE8, 0xBD, 0xA6],
     [0xE7, 0x99, 0xBE, 0xE5, 0x88, 0x86, 0xE4, 0xB9, 0x8B],
     [0xE9, 0x9B, 0x86, 0xE8, 0xA3, 0x85, 0xE7, 0xAE, 0xB1, 0xE8, 0xBD, 0xA6],
     [0xE6, 0x9C, 0x88, 0xE7, 0xA5, 0xA8, 0xE8, 0xBD, 0xA6],
     [0x2E, 0x28, 0xE7, 0x82, 0xB9, 0x29],
     [0x49, 0x43, 0x43, 0xE5, 0x87, 0xBA, 0xE9, 0x94, 0x99],
     [0x4F, 0x42, 0x55, 0xE8, 0xA2, 0xAB, 0xE9, 0x94, 0x81, 0xE4, 0xBD, 0x8F],
     [0xE7, 0x94, 0xB5, 0xE5, 0xAD, 0x90, 0xE6, 0xA0, 0x87, 0xE7, 0xAD, 0xBE, 0xE8, 0xA2, 0xAB, 0xE9,
      0x9D, 0x9E, 0xE6, 0xB3, 0x95, 0xE6, 0x8B, 0x86, 0xE5, 0x8D, 0xB8],
     [0xE7, 0x94, 0xB5, 0xE5, 0xAD, 0x90, 0xE6, 0xA0, 0x87, 0xE7, 0xAD, 0xBE, 0xE4, 0xBF, 0xA1, 0xE6,
      0x81, 0xAF, 0xE9, 0x94, 0x99, 0xE8, 0xAF, 0xAF],
     [0xE9, 0x9D, 0x9E, 0xE6, 0x9C, 0xAC, 0xE7, 0x9C, 0x81, 0xE7, 0x94, 0xB5, 0xE5, 0xAD, 0x90, 0xE6,
      0xA0, 0x87, 0xE7, 0xAD, 0xBE],
     [0xE9, 0x9D, 0x9E, 0xE8, 0x81, 0x94, 0xE7, 0xBD, 0x91, 0xE7, 0x94, 0xB5, 0xE5, 0xAD, 0x90, 0xE7,
      0x94, 0xB5, 0xE5, 0xAD, 0x90, 0xE6, 0xA0, 0x87, 0xE7, 0xAD, 0xBE],
     [0xE7, 0x94, 0xB5, 0xE5, 0xAD, 0x90, 0xE6, 0xA0, 0x87, 0xE7, 0xAD, 0xBE, 0xE8, 0xBF, 0x98, 0xE6,
      0x9C, 0xAA, 0xE5, 0x90, 0xAF, 0xE7, 0x94, 0xA8],
     [0xE7, 0x94, 0xB5, 0xE5, 0xAD, 0x90, 0xE6, 0xA0, 0x87, 0xE7, 0xAD, 0xBE, 0xE5, 0x8D, 0xA1, 0xE5,
      0xB7, 0xB2, 0xE7, 0xBB, 0x8F, 0xE8, 0xBF, 0x87, 0xE6, 0x9C, 0x9F],
     [0xE8, 0xAF, 0xA5, 0xE7, 0x94, 0xB5, 0xE5, 0xAD, 0x90, 0xE6, 0xA0, 0x87, 0xE7, 0xAD, 0xBE, 0xE5,
      0xB7, 0xB2, 0xE7, 0xBB, 0x8F, 0xE8, 0xBF, 0x9B, 0xE5, 0x85, 0xA5, 0xE9, 0xBB, 0x91, 0xE5,
      0x90, 0x8D, 0xE5, 0x8D, 0x95, 0xEF, 0xBC, 0x8C, 0xE6, 0x97, 0xA0, 0xE6, 0x95, 0x88, 0xEF,
      0xBC, 0x81],
     [0x4F, 0x42, 0x55, 0xE5, 0x86, 0x85, 0xE6, 0x97, 0xA0, 0xE8, 0xBD, 0xA6, 0xE7, 0x89, 0x8C, 0xE4,
      0xBF, 0xA1, 0xE6, 0x81, 0xAF, 0x2C, 0xE8, 0xAF, 0xB7, 0xE8, 0xB5, 0xB0, 0xE6, 0x99, 0xAE,
      0xE9, 0x80, 0x9A, 0xE8, 0xBD, 0xA6, 0xE9, 0x81, 0x93],
     [0x4F, 0x42, 0x55, 0xE4, 0xBF, 0xA1, 0xE6, 0x81, 0xAF, 0xE9, 0x9D, 0x9E, 0xE6, 0xB3, 0x95, 0x2C,
      0xE8, 0xAF, 0xB7, 0xE8, 0xB5, 0xB0, 0xE6, 0x99, 0xAE, 0xE9, 0x80, 0x9A, 0xE8, 0xBD, 0xA6,
      0xE9, 0x81, 0x93],
     [0xE7, 0x94, 0xB5, 0xE5, 0xAD, 0x90, 0xE6, 0xA0, 0x87, 0xE7, 0xAD, 0xBE, 0xE9, 0xBB, 0x91, 0xE5,
      0x90, 0x8D, 0xE5, 0x8D, 0x95],
     [0xE7, 0x94, 0xB5, 0xE5, 0xAD, 0x90, 0xE6, 0x94, 0xAF, 0xE4, 0xBB, 0x98, 0xE5, 0x8D, 0xA1, 0xE5,
      0xBC, 0x82, 0xE5, 0xB8, 0xB8],
     [0xE9, 0x9D, 0x9E, 0xE8, 0x81, 0x94, 0xE7, 0xBD, 0x91, 0xE7, 0x94, 0xB5, 0xE5, 0xAD, 0x90, 0xE6,
      0x94, 0xAF, 0xE4, 0xBB, 0x98, 0xE5, 0x8D, 0xA1],
     [0xE6, 0x97, 0xA0, 0xE6, 0xB9, 0x96, 0xE5, 0x8C, 0x97, 0xE7, 0x9C, 0x81, 0xE5, 0x85, 0xA5, 0xE5,
      0x8F, 0xA3, 0xE4, 0xBF, 0xA1, 0xE6, 0x81, 0xAF, 0xEF, 0xBC, 0x8C, 0xE8, 0xAF, 0xB7, 0xE8,
      0xB5, 0xB0, 0xE6, 0x99, 0xAE, 0xE9, 0x80, 0x9A, 0xE8, 0xBD, 0xA6, 0xE9, 0x81, 0x93],
     [0xE7, 0x94, 0xB5, 0xE5, 0xAD, 0x90, 0xE6, 0x94, 0xAF, 0xE4, 0xBB, 0x98, 0xE5, 0x8D, 0xA1, 0xE4,
      0xBF, 0xA1, 0xE6, 0x81, 0xAF, 0xE9, 0x94, 0x99, 0xE8, 0xAF, 0xAF],
     [0xE8, 0xAF, 0xA5, 0xE7, 0x94, 0xB5, 0xE5, 0xAD, 0x90, 0xE7, 0x94, 0xA8, 0xE6, 0x88, 0xB7, 0xE5,
      0x8D, 0xA1, 0xE5, 0xB7, 0xB2, 0xE8, 0xBF, 0x9B, 0xE5, 0x85, 0xA5, 0xE9, 0xBB, 0x91, 0xE5,
      0x90, 0x8D, 0xE5, 0x8D, 0x95, 0x2C, 0xE6, 0x97, 0xA0, 0xE6, 0x95, 0x88],
     [0xE4, 0xBD, 0x99, 0xE9, 0xA2, 0x9D, 0xE4, 0xB8, 0x8D, 0xE8, 0xB6, 0xB3, 0xEF, 0xBC, 0x8C, 0xE8,
      0xAF, 0xB7, 0xE8, 0xB5, 0xB0, 0xE6, 0x99, 0xAE, 0xE9, 0x80, 0x9A, 0xE8, 0xBD, 0xA6, 0xE9,
      0x81, 0x93],
     [0xE7, 0x94, 0xB5, 0xE5, 0xAD, 0x90, 0xE6, 0x94, 0xAF, 0xE4, 0xBB, 0x98, 0xE5, 0x8D, 0xA1, 0xE8,
      0xBF, 0x98, 0xE6, 0x9C, 0xAA, 0xE5, 0x90, 0xAF, 0xE7, 0x94, 0xA8],
     [0xE7, 0x94, 0xB5, 0xE5, 0xAD, 0x90, 0xE6, 0x94, 0xAF, 0xE4, 0xBB, 0x98, 0xE5, 0x8D, 0xA1, 0xE5,
      0xB7, 0xB2, 0xE7, 0xBB, 0x8F, 0xE8, 0xBF, 0x87, 0xE6, 0x9C, 0x9F],
     [0xE4, 0xBD, 0x99, 0xE9, 0xA2, 0x9D, 0xE4, 0xB8, 0xBA, 0xE8, 0xB4, 0x9F, 0x2C, 0xE7, 0xA6, 0x81,
      0xE6, 0xAD, 0xA2, 0xE9, 0x80, 0x9A, 0xE8, 0xA1, 0x8C],
     [0xE5, 0x8D, 0xA1, 0xE9, 0xBB, 0x91, 0xE5, 0x90, 0x8D, 0xE5, 0x8D, 0x95],
     [0xE5, 0x85, 0xB6, 0xE4, 0xBB, 0x96, 0xE5, 0xBC, 0x82, 0xE5, 0xB8, 0xB8],
     [0x49, 0x43, 0xE5, 0x8D, 0xA1, 0xE4, 0xB8, 0x8D, 0xE5, 0xAD, 0x98, 0xE5, 0x9C, 0xA8],
     [0x32, 0x2D, 0x35, 0xE7, 0x82, 0xB9, 0xE5, 0xA4, 0xA7, 0xE5, 0x9E, 0x8B, 0xE5, 0xAE, 0xA2, 0xE8,
      0xBD, 0xA6, 0xE7, 0xA6, 0x81, 0xE6, 0xAD, 0xA2, 0xE9, 0x80, 0x9A, 0xE8, 0xA1, 0x8C, 0x21],
     [0x4F, 0x42, 0x55, 0xE4, 0xB8, 0x8E, 0x43, 0x50, 0x55, 0xE5, 0x8D, 0xA1, 0xE9, 0x9D, 0x9E, 0xE5,
      0x90, 0x8C, 0xE7, 0x9C, 0x81, 0xE5, 0x8F, 0x91, 0xE8, 0xA1, 0x8C],
     [0xE6, 0x8D, 0xA2, 0xE5, 0x8D, 0xA1, 0xEF, 0xBC, 0x8C, 0xE8, 0xAF, 0xB7, 0xE8, 0xB5, 0xB0, 0xE6,
      0x99, 0xAE, 0xE9, 0x80, 0x9A, 0xE8, 0xBD, 0xA6, 0xE9, 0x81, 0x93],
     [0xE8, 0xB6, 0x85, 0xE6, 0x97, 0xB6, 0xEF, 0xBC, 0x8C, 0xE8, 0xAF, 0xB7, 0xE8, 0xB5, 0xB0, 0xE6,
      0x99, 0xAE, 0xE9, 0x80, 0x9A, 0xE8, 0xBD, 0xA6, 0xE9, 0x81, 0x93],
     [0xEF, 0xBC, 0xB5, 0xE8, 0xA1, 0x8C, 0xEF, 0xBC, 0x8C, 0xE8, 0xAF, 0xB7, 0xE8, 0xB5, 0xB0, 0xE6,
      0x99, 0xAE, 0xE9, 0x80, 0x9A, 0xE8, 0xBD, 0xA6, 0xE9, 0x81, 0x93],
     [0xE6, 0x9C, 0xAA, 0xE7, 0x9F, 0xA5, 0xE7, 0xBC, 0xB4, 0xE8, 0xB4, 0xB9, 0xE6, 0x96, 0xB9, 0xE5,
      0xBC, 0x8F, 0xEF, 0xBC, 0x81],
     [0xE8, 0xB4, 0xB9, 0xE7, 0x8E, 0x87, 0xE8, 0xAE, 0xA1, 0xE7, 0xAE, 0x97, 0xE5, 0xA4, 0xB1, 0xE8,
      0xB4, 0xA5, 0xEF, 0xBC, 0x8C, 0xE8, 0xAF, 0xB7, 0xE8, 0xB5, 0xB0, 0xE6, 0x99, 0xAE, 0xE9,
      0x80, 0x9A, 0xE8, 0xBD, 0xA6, 0xE9, 0x81, 0x93, 0xEF, 0xBC, 0x81],
     [0xE5, 0x85, 0xA5, 0xE5, 0x8F, 0xA3, 0xE4, 0xBF, 0xA1, 0xE6, 0x81, 0xAF, 0xE4, 0xB8, 0xBA, 0xE7,
      0xA9, 0xBA, 0xE6, 0x88, 0x96, 0xE8, 0x80, 0x85, 0xE5, 0xB7, 0xB2, 0xE4, 0xBA, 0xA4, 0xE6,
      0x98, 0x93, 0xE5, 0xAE, 0x8C, 0xE6, 0xAF, 0x95],
     [0xE5, 0xA4, 0xA9, 0xE7, 0xBA, 0xBF, 0xE6, 0x9C, 0xAA, 0xE6, 0x94, 0xB6, 0xE5, 0x88, 0xB0, 0xE6,
      0xA0, 0x87, 0xE7, 0xAD, 0xBE, 0xE6, 0x89, 0xA3, 0xE6, 0xAC, 0xBE, 0xE5, 0x9B, 0x9E, 0xE5,
      0xA4, 0x8D]]"

definition voice_phrases :: "byte list list" where
  "voice_phrases = voice_phrases_low @ voice_phrases_high"

text \<open>The \<open>switch\<close>: bytes above the last phrase add nothing.\<close>

definition voice_phrase :: "byte \<Rightarrow> byte list" where
  "voice_phrase b = (if unat b < length voice_phrases then voice_phrases ! unat b else [])"

text \<open>\<open>strcat (VoiceData, s)\<close>, with \<open>VoiceData\<close> given by the characters before its zero.\<close>

definition voice_strcat :: "byte list \<Rightarrow> byte list \<Rightarrow> byte list res" where
  "voice_strcat VoiceData s =
     (if length VoiceData + length s < 256 then Inr (VoiceData @ s) else Inl OutOfBounds)"

definition voice_step :: "byte list \<Rightarrow> nat \<Rightarrow> byte list \<Rightarrow> byte list res" where
  "voice_step Cmd i VoiceData =
     bindE (rd Cmd i) (\<lambda>b. voice_strcat VoiceData (voice_phrase b))"

definition voice_text :: "byte list \<Rightarrow> int \<Rightarrow> byte list res" where
  "voice_text Cmd CmdLen = foldE (voice_step Cmd) [2..<nat CmdLen] []"

section \<open>Lemmas\<close>

lemma phrases_ok: "list_all (\<lambda>p. length p \<le> 48 \<and> 0 \<notin> set p) voice_phrases"
  by (simp add: voice_phrases_def voice_phrases_low_def voice_phrases_high_def)

lemma length_voice_phrases: "length voice_phrases = 103"
  by (simp add: voice_phrases_def voice_phrases_low_def voice_phrases_high_def)

lemma voice_phrase_ok: "length (voice_phrase b) \<le> 48" "0 \<notin> set (voice_phrase b)"
  using phrases_ok by (auto simp: voice_phrase_def list_all_iff)

lemma voice_phrase_none: "103 \<le> unat b \<Longrightarrow> voice_phrase b = []"
  by (simp add: voice_phrase_def length_voice_phrases)

lemma voice_steps:
  assumes "\<forall>i\<in>set is. i < length Cmd" and "length acc < 256"
  shows "foldE (voice_step Cmd) is acc =
    (let t = acc @ concat (map (\<lambda>i. voice_phrase (Cmd ! i)) is) in
     if length t < 256 then Inr t else Inl OutOfBounds)"
  using assms by (induction "is" arbitrary: acc) (auto simp: voice_step_def voice_strcat_def Let_def)

lemma map_nth_segment:
  "b \<le> length xs \<Longrightarrow> map (\<lambda>i. f (xs ! i)) [a..<b] = map f (segment a (b - a) xs)"
  by (rule nth_equalityI) (auto simp: segment_def)

lemma voice_text_conv:
  assumes "CmdLen \<le> int (length Cmd)"
  shows "voice_text Cmd CmdLen =
    (let t = concat (map voice_phrase (segment 2 (nat CmdLen - 2) Cmd)) in
     if length t < 256 then Inr t else Inl OutOfBounds)"
proof -
  have n: "nat CmdLen \<le> length Cmd"
    using assms by (simp add: nat_le_iff)
  then have "\<forall>i\<in>set [2..<nat CmdLen]. i < length Cmd"
    by auto
  from voice_steps [OF this, of "[]"] map_nth_segment [OF n, of voice_phrase 2] show ?thesis
    by (simp add: voice_text_def)
qed

lemma voice_text_nonzero:
  "voice_text Cmd CmdLen = Inr t \<Longrightarrow> CmdLen \<le> int (length Cmd) \<Longrightarrow> 0 \<notin> set t \<and> length t < 256"
  using voice_phrase_ok(2) by (auto simp: voice_text_conv Let_def split: if_splits)

lemma length_concat_phrases: "length (concat (map voice_phrase bs)) \<le> 48 * length bs"
proof (induction bs)
  case (Cons b bs)
  then show ?case
    using voice_phrase_ok(1) [of b] by simp
qed simp

section \<open>Properties\<close>

text \<open>
  C38. A voice command that lies inside the receive buffer is turned into the concatenation of the
  phrases its bytes name, from the third byte on; the 256-byte text array overflows exactly when
  that text has 256 bytes or more, which five phrases never do.
\<close>

theorem voice_text_is_phrases:
  assumes "0 \<le> CmdLen" and "CmdLen \<le> int (length Cmd)"
  shows "voice_text Cmd CmdLen =
      (let t = concat (map voice_phrase (segment 2 (nat CmdLen - 2) Cmd)) in
       if length t < 256 then Inr t else Inl OutOfBounds) \<and>
    (CmdLen \<le> 7 \<longrightarrow> (\<exists>t. voice_text Cmd CmdLen = Inr t \<and> 0 \<notin> set t))"
proof -
  let ?t = "concat (map voice_phrase (segment 2 (nat CmdLen - 2) Cmd))"
  have conv: "voice_text Cmd CmdLen = (let t = ?t in if length t < 256 then Inr t else Inl OutOfBounds)"
    by (rule voice_text_conv [OF assms(2)])
  have "\<exists>t. voice_text Cmd CmdLen = Inr t \<and> 0 \<notin> set t" if "CmdLen \<le> 7"
  proof -
    have "nat CmdLen - 2 \<le> 5"
      using that by simp
    then have "length (segment 2 (nat CmdLen - 2) Cmd) \<le> 5"
      by (simp add: segment_def)
    then have "length ?t < 256"
      using length_concat_phrases [of "segment 2 (nat CmdLen - 2) Cmd"] by linarith
    then have "voice_text Cmd CmdLen = Inr ?t"
      unfolding conv by (simp only: Let_def if_True)
    then show ?thesis
      using voice_text_nonzero [OF _ assms(2)] by blast
  qed
  then show ?thesis
    using conv by blast
qed

theorem voice_text_is_phrases_witness:
  "voice_text [0x53, 0x08, 0x10, 0x19, 0x05, 0x0A] 6 =
     Inr (voice_phrase 0x10 @ voice_phrase 0x19 @ voice_phrase 0x05 @ voice_phrase 0x0A) \<and>
   voice_text [0x53, 0x08, 0x4E, 0x4E, 0x4E, 0x4E, 0x4E, 0x4E] 8 = Inl OutOfBounds"
proof -
  let ?a = "[0x53, 0x08, 0x10, 0x19, 0x05, 0x0A] :: byte list" and ?b = "[0x53, 0x08, 0x4E, 0x4E, 0x4E, 0x4E, 0x4E, 0x4E] :: byte list"
  have "voice_text ?a 6 = (let t = concat (map voice_phrase (segment 2 (nat 6 - 2) ?a)) in
      if length t < 256 then Inr t else Inl OutOfBounds)"
    and "voice_text ?b 8 = (let t = concat (map voice_phrase (segment 2 (nat 8 - 2) ?b)) in
      if length t < 256 then Inr t else Inl OutOfBounds)"
    using voice_text_is_phrases [of 6 ?a] voice_text_is_phrases [of 8 ?b] by simp_all
  then show ?thesis
    by (simp add: segment_def voice_phrase_def voice_phrases_def voice_phrases_low_def voice_phrases_high_def)
qed

end
