(* ===== verification/Machine.thy ===== *)
theory Machine
  imports Bcc Gpio Tcp_Server Transport Display Voice
begin

text \<open>
  \<open>IMachine\<close> (src/IMachine.cpp): the lane controller. Its state is the two TCP servers, the pins, the
  display, the speech player and the mode flags; its handlers interpret the control frames and
  answer them. What is outside the sources (kernel, iconv, the body of the speech thread) is the
  record \<open>platform\<close>.

  A pointer \<open>&Cmd[k]\<close> is the suffix \<open>drop k Cmd\<close> of the receive buffer. \<open>Oput\<close> is the 512-byte array
  \<open>Result\<close> of \<open>CommunicationAnalysis\<close>, which every handler writes at index 0 and 1. Waiting (\<open>usleep\<close>)
  and logging leave no trace.
\<close>

section \<open>State\<close>

text \<open>
  In the record of the controller, what a thread may read before it is assigned and what the code tests or follows is
  an \<open>option\<close>: the servers and the serial port, the descriptors inside the pins, the servers and the display. Three plain
  members are not initialised by the constructor either, \<open>IO4_manualSwitchStatus\<close>, \<open>resetTimer\<close> and, until
  \<open>Init\<close>, \<open>displayingDefaultContent\<close>; they are plain values here, so a theorem over all states holds for
  whatever they happen to contain.
\<close>

record ('w, 'cd) platform =
  kernel :: "'w kernel"
  iconv_open_of :: "string \<Rightarrow> string \<Rightarrow> 'cd option"
  iconv_of :: "'cd \<Rightarrow> byte list \<Rightarrow> nat \<Rightarrow> bool \<times> byte list"
  compound_of :: "byte list \<Rightarrow> 'w os \<Rightarrow> 'w os res"

record ('c, 'w) machine =
  Tcp1 :: "tcp_server option"
  Tcp2 :: "tcp_server option"
  Serial1 :: "serial option"
  VehicleDevice1 :: gpio
  VehicleDevice2 :: gpio
  VehicleDevice3 :: gpio
  ManualSwitch :: gpio
  Balustrade_up :: gpio
  Balustrade_down :: gpio
  TrafficPin :: gpio
  FlashLight :: gpio
  Led :: "'c qled"
  Player :: tts
  communication :: int
  LedMode :: int
  Client1 :: string
  Client2 :: string
  IO4_manualSwitchStatus :: int
  displayingDefaultContent :: bool
  lastPlayTime :: int
  resetTimer :: bool
  balustradeThread :: thread_state
  clock :: int
  machine_os :: "'w os"

definition run_pin ::
  "('w kernel \<Rightarrow> gpio \<Rightarrow> 'w os \<Rightarrow> (bool \<times> 'w os) res) \<Rightarrow> ('w, 'cd) platform \<Rightarrow> gpio \<Rightarrow>
   ('c, 'w) machine \<Rightarrow> ('c, 'w) machine res" where
  "run_pin op P g m = bindE (op (kernel P) g (machine_os m)) (\<lambda>(_, s). Inr (m\<lparr>machine_os := s\<rparr>))"

section \<open>The control handlers\<close>

definition Configration :: "byte list \<Rightarrow> int res" where
  "Configration Cmd = bindE (rd Cmd 1) (\<lambda>_. Inr 0)"

text \<open>The body of the thread that ends the pulse on both motor outputs, and \<open>join\<close>.\<close>

definition Balustrade_Thread ::
  "('w, 'cd) platform \<Rightarrow> ('c, 'w) machine \<Rightarrow> ('c, 'w) machine res" where
  "Balustrade_Thread P m =
     bindE (run_pin SetOff P (Balustrade_up m) m) (\<lambda>m.
     bindE (run_pin SetOff P (Balustrade_down m) m) (\<lambda>m.
     Inr (m\<lparr>balustradeThread := Finished\<rparr>)))"

definition join_balustrade ::
  "('w, 'cd) platform \<Rightarrow> ('c, 'w) machine \<Rightarrow> ('c, 'w) machine res" where
  "join_balustrade P m =
     (if joinable (balustradeThread m)
      then bindE (if balustradeThread m = Running then Balustrade_Thread P m else Inr m) (\<lambda>m.
           Inr (m\<lparr>balustradeThread := NotStarted\<rparr>))
      else Inr m)"

definition BalusTrade ::
  "('w, 'cd) platform \<Rightarrow> byte list \<Rightarrow> int \<Rightarrow> byte list \<Rightarrow> ('c, 'w) machine \<Rightarrow>
   (int \<times> byte list \<times> ('c, 'w) machine) res" where
  "BalusTrade P Cmd CmdLen Oput m =
     (let Oput = Oput[0 := 0xD3]
      in bindE (join_balustrade P m) (\<lambda>m.
         bindE (rd Cmd 0) (\<lambda>c0.
         let Oput = Oput[0 := c0]
         in bindE (rd Cmd 1) (\<lambda>c1.
            if c1 = 0x00
            then bindE (run_pin SetOff P (Balustrade_up m) m) (\<lambda>m.
                 bindE (run_pin SetOn P (Balustrade_down m) m) (\<lambda>m.
                 Inr (4, Oput[1 := 0x03], m\<lparr>balustradeThread := Running\<rparr>)))
            else if c1 = 0x01
            then bindE (run_pin SetOn P (Balustrade_up m) m) (\<lambda>m.
                 bindE (run_pin SetOff P (Balustrade_down m) m) (\<lambda>m.
                 Inr (4, Oput[1 := 0x02], m\<lparr>balustradeThread := Running\<rparr>)))
            else Inr (4, Oput, m)))))"

text \<open>
  \<open>DisplayVoice\<close>: the text array is 256 bytes, zero-filled; \<open>success\<close> is always set, since nothing
  in the block throws.
\<close>

definition DisplayVoice ::
  "('w, 'cd) platform \<Rightarrow> byte list \<Rightarrow> int \<Rightarrow> byte list \<Rightarrow> ('c, 'w) machine \<Rightarrow>
   (int \<times> byte list \<times> ('c, 'w) machine) res" where
  "DisplayVoice P Cmd CmdLen Oput m =
     (let Oput = Oput[0 := 0xD4]
      in bindE (rd Cmd 0) (\<lambda>c0.
         let SoundLevel = uint c0
         in bindE (voice_text Cmd CmdLen) (\<lambda>VoiceData.
            bindE (speech_playback (kernel P) (iconv_open_of P) (iconv_of P) (compound_of P) 1 SoundLevel
                     (VoiceData @ replicate (256 - length VoiceData) 0) (int (length VoiceData))
                     (Player m) (machine_os m)) (\<lambda>(t, s).
            Inr (4, Oput[1 := 0x04], m\<lparr>Player := t, machine_os := s\<rparr>)))))"

definition line_count :: "byte \<Rightarrow> int" where
  "line_count c0 = (if c0 = 0x44 then 3 else 4)"

definition chars_per_line :: "byte \<Rightarrow> int" where
  "chars_per_line c0 = (if c0 = 0x44 then 12 else 16)"

definition start_position :: "byte \<Rightarrow> int" where
  "start_position c0 = (if c0 = 0x44 then 6 else 7)"

text \<open>\<open>Colours[i + 1] = Cmd[3 + i]\<close> in every case of the \<open>switch\<close>.\<close>

definition line_colours :: "byte \<Rightarrow> byte list \<Rightarrow> int list res" where
  "line_colours c0 Cmd =
     foldE (\<lambda>i Colours. bindE (rd Cmd (3 + i)) (\<lambda>c. Inr (Colours[i + 1 := uint c])))
       [0..<nat (line_count c0)] (replicate 5 0)"

function display_lines ::
  "byte \<Rightarrow> int \<Rightarrow> int list \<Rightarrow> byte list \<Rightarrow> int \<Rightarrow> int \<Rightarrow> int \<Rightarrow> 'c qled \<Rightarrow> 'c qled res" where
  "display_lines c0 Font Colours Cmd CmdLen i row led =
     (if i < CmdLen - start_position c0
      then let remainingChars = CmdLen - i;
               lineLength = (if remainingChars > chars_per_line c0 then chars_per_line c0 else remainingChars)
           in if row > line_count c0 then Inr led
              else bindE (rd Colours (nat row)) (\<lambda>c.
                   bindE (DisplyShow row Font c 0x09 (drop (nat i) Cmd) lineLength led) (\<lambda>(_, led).
                   display_lines c0 Font Colours Cmd CmdLen (i + chars_per_line c0) (row + 1) led))
      else Inr led)"
  by pat_completeness auto
termination
  by (relation "measure (\<lambda>(c0, Font, Colours, Cmd, CmdLen, i, row, led). nat (CmdLen - i))")
    (auto simp: chars_per_line_def start_position_def split: if_splits)

declare display_lines.simps [simp del]

definition DisplayControl ::
  "byte list \<Rightarrow> int \<Rightarrow> byte list \<Rightarrow> ('c, 'w) machine \<Rightarrow> (int \<times> byte list \<times> ('c, 'w) machine) res" where
  "DisplayControl Cmd CmdLen Oput m =
     (let m = m\<lparr>displayingDefaultContent := False, resetTimer := True, lastPlayTime := clock m\<rparr>;
          Oput = Oput[0 := 0xD4]
      in bindE (rd Cmd 0) (\<lambda>c0.
         if c0 \<noteq> 0x44 \<and> c0 \<noteq> 0x64 then Inr (-1, Oput, m)
         else let Font = (if c0 = 0x44 then 1 else 0) :: int
         in bindE (rd Cmd 1) (\<lambda>Brightness.
            bindE (line_colours c0 Cmd) (\<lambda>Colours.
            let success = False
            in bindE (display_lines c0 Font Colours Cmd CmdLen (start_position c0) 1 (Led m)) (\<lambda>led.
               bindE (DisplayBright 0x02 (uint Brightness) led) (\<lambda>(_, led).
               Inr (4, Oput[1 := if success then 0x02 else 0x03], m\<lparr>Led := led\<rparr>)))))))"

definition TrafficControl ::
  "('w, 'cd) platform \<Rightarrow> byte list \<Rightarrow> int \<Rightarrow> byte list \<Rightarrow> ('c, 'w) machine \<Rightarrow>
   (int \<times> byte list \<times> ('c, 'w) machine) res" where
  "TrafficControl P Cmd CmdLen Oput m =
     (let Oput = Oput[0 := 0xDE]
      in bindE (rd Cmd 1) (\<lambda>c1.
         if c1 = 0x01
         then bindE (run_pin SetOff P (TrafficPin m) m) (\<lambda>m. Inr (4, Oput[1 := 0x01], m))
         else if c1 = 0x00
         then bindE (run_pin SetOn P (TrafficPin m) m) (\<lambda>m. Inr (4, Oput[1 := 0x00], m))
         else Inr (4, Oput, m)))"

definition FlashLightControl ::
  "('w, 'cd) platform \<Rightarrow> byte list \<Rightarrow> int \<Rightarrow> byte list \<Rightarrow> ('c, 'w) machine \<Rightarrow>
   (int \<times> byte list \<times> ('c, 'w) machine) res" where
  "FlashLightControl P Cmd CmdLen Oput m =
     (let Oput = Oput[0 := 0xDF]
      in bindE (rd Cmd 0) (\<lambda>c0.
         if c0 = 0x01
         then bindE (run_pin SetOn P (FlashLight m) m) (\<lambda>m. Inr (4, Oput[1 := 0x03], m))
         else bindE (run_pin SetOff P (FlashLight m) m) (\<lambda>m. Inr (4, Oput[1 := 0x04], m))))"

section \<open>Dispatch and replies\<close>

text \<open>
  \<open>Analysis\<close>: the second check of an integrated display frame is \<open>BCCDataCheck (Cmd, 0, CmdLen, 0)\<close>.
\<close>

definition checked ::
  "byte list \<Rightarrow> int \<Rightarrow> (unit \<Rightarrow> (int \<times> byte list \<times> 'm) res) \<Rightarrow> byte list \<Rightarrow> 'm \<Rightarrow> (byte list \<times> 'm) res" where
  "checked Cmd CmdLen handler Oput m =
     bindE (BCCDataCheck Cmd 0 CmdLen 0) (\<lambda>bcc.
       if bcc \<noteq> 0 then bindE (handler ()) (\<lambda>(_, Oput, m). Inr (Oput, m)) else Inr (Oput, m))"

definition Analysis ::
  "('w, 'cd) platform \<Rightarrow> byte list \<Rightarrow> int \<Rightarrow> byte list \<Rightarrow> ('c, 'w) machine \<Rightarrow>
   (int \<times> byte list \<times> ('c, 'w) machine) res" where
  "Analysis P Cmd CmdLen Oput m =
     (let finish = (\<lambda>(Oput, m). Inr (4, Oput, m\<lparr>resetTimer := True\<rparr>))
      in if CmdLen < 1 then Inr (0, Oput, m)
      else bindE (rd Cmd 0) (\<lambda>c0.
           bindE (if c0 = 0xA0 then rd Cmd 1 else Inr 0) (\<lambda>c1.
           bindE (if c1 = 0xB0 then rd Cmd 2 else Inr 0) (\<lambda>c2.
           bindE (if c2 = 0xC0 then rd Cmd 3 else Inr 0) (\<lambda>c3.
           if c0 = 0xA0 \<and> c1 = 0xB0 \<and> c2 = 0xC0 \<and> c3 = 0xD0
           then bindE (rd Cmd 4) (\<lambda>c4.
                if c4 = 0x07
                then bindE (checked Cmd CmdLen (\<lambda>_. FlashLightControl P (drop 4 Cmd) 8 Oput m) Oput m) finish
                else if c4 = 0x53
                then bindE (checked Cmd CmdLen (\<lambda>_. DisplayVoice P (drop 4 Cmd) (CmdLen - 7) Oput m) Oput m) finish
                else if c4 = 0x44
                then bindE (checked Cmd CmdLen (\<lambda>_. DisplayControl (drop 4 Cmd) 42 Oput m) Oput m) finish
                else if c4 = 0x64
                then bindE (checked Cmd CmdLen (\<lambda>_. DisplayControl (drop 4 Cmd) 71 Oput m) Oput m) finish
                else Inr (0, Oput, m))
           else if c0 = 0xA3
           then bindE (BalusTrade P Cmd 2 Oput m) (\<lambda>(_, Oput, m). finish (Oput, m))
           else if c0 = 0xAE
           then bindE (TrafficControl P Cmd 2 Oput m) (\<lambda>(_, Oput, m). finish (Oput, m))
           else finish (Oput, m))))))"

text \<open>
  The bytes of a reply. \<open>SendData\<close> is not initialised: a length beyond what was copied makes the
  check byte depend on it.
\<close>

definition send_frame :: "byte \<Rightarrow> byte \<Rightarrow> byte list \<Rightarrow> nat \<Rightarrow> byte list res" where
  "send_frame TxSEQ Type Cmd CmdLen =
     bindE
       (if Type = 0xB0 then Inr [0xFF, 0xFF, 0x00, 0x09, 0x00, 0x00, 0x00, 0x01, 0xB0]
        else let head = [0xFF, 0xFF, 0x00, TxSEQ div 10, 0x00, 0x00,
                         word_of_nat (CmdLen div 256), word_of_nat (CmdLen mod 256)];
                 copied = (if Type = 0xDC then 3 else 2)
             in if length Cmd < copied then Inl OutOfBounds
                else if copied < CmdLen then Inl Uninitialised
                else Inr (head @ take CmdLen Cmd))
       (\<lambda>SendData.
        bindE (BCCDataCheck SendData 2 (int (length SendData) - 2) 2) (\<lambda>bcc.
        Inr (SendData @ [ucast bcc])))"

definition server_write ::
  "('w, 'cd) platform \<Rightarrow> byte list \<Rightarrow> tcp_server option \<Rightarrow> ('c, 'w) machine \<Rightarrow> ('c, 'w) machine res" where
  "server_write P SendData t m =
     (case t of
        None \<Rightarrow> Inl Uninitialised
      | Some t \<Rightarrow> bindE (WriteByte (kernel P) SendData t (machine_os m)) (\<lambda>(_, s).
                   Inr (m\<lparr>machine_os := s\<rparr>)))"

text \<open>
  The function returns a value on one path only; \<open>None\<close> is reaching its end without one. C++ leaves that undefined
  for a function that is not \<open>void\<close>; the program is built with -O0 (debug.mak), where the call returns with an
  arbitrary value, and no caller uses the value. So it is no fault here, and every property about a
  frame that is sent is about the program built in this way.
\<close>

definition CommunicationSend ::
  "('w, 'cd) platform \<Rightarrow> byte \<Rightarrow> byte \<Rightarrow> byte list \<Rightarrow> nat \<Rightarrow> int \<Rightarrow> string \<Rightarrow> ('c, 'w) machine \<Rightarrow>
   (bool option \<times> ('c, 'w) machine) res" where
  "CommunicationSend P TxSEQ Type Cmd CmdLen isCoil clientIP m =
     bindE (send_frame TxSEQ Type Cmd CmdLen) (\<lambda>SendData.
     if clientIP = Client1 m then bindE (server_write P SendData (Tcp1 m) m) (\<lambda>m. Inr (None, m))
     else if clientIP = Client2 m then bindE (server_write P SendData (Tcp2 m) m) (\<lambda>m. Inr (None, m))
     else if isCoil = 1 then Inr (Some False, m)
     else Inr (None, m))"

definition mode_matches :: "string \<Rightarrow> ('c, 'w) machine \<Rightarrow> bool" where
  "mode_matches clientIP m \<longleftrightarrow>
     clientIP = Client1 m \<and> IO4_manualSwitchStatus m = 0 \<or>
     clientIP = Client2 m \<and> IO4_manualSwitchStatus m = 1"

text \<open>Passing the local \<open>Type\<close> before it was assigned is a fault.\<close>

definition reply ::
  "('w, 'cd) platform \<Rightarrow> byte \<Rightarrow> byte option \<Rightarrow> byte list \<Rightarrow> string \<Rightarrow> ('c, 'w) machine \<Rightarrow>
   ('c, 'w) machine res" where
  "reply P TxSEQ Type Result clientIP m =
     (if clientIP = Client1 m \<or> clientIP = Client2 m
      then case Type of
             None \<Rightarrow> Inl Uninitialised
           | Some Type \<Rightarrow> bindE (CommunicationSend P TxSEQ Type Result 2 0 clientIP m) (\<lambda>(_, m). Inr m)
      else Inr m)"

definition CommunicationAnalysis ::
  "('w, 'cd) platform \<Rightarrow> byte list \<Rightarrow> int \<Rightarrow> string \<Rightarrow> ('c, 'w) machine \<Rightarrow> ('c, 'w) machine res" where
  "CommunicationAnalysis P Cmd CmdLen clientIP m =
     (let Result = replicate 512 0
      in bindE (rd Cmd 3) (\<lambda>TxSEQ.
         bindE (rd Cmd 8) (\<lambda>c8.
         if c8 = 0xA4
         then if mode_matches clientIP m
              then bindE (rd Cmd 13) (\<lambda>c13.
                   if c13 \<in> {0x44, 0x64, 0x53}
                   then bindE (Analysis P (drop 9 Cmd) (CmdLen - 10) Result m) (\<lambda>(_, Result, m).
                        reply P TxSEQ (Some 0xD4) Result clientIP m)
                   else if c13 = 0x07
                   then bindE (Analysis P (drop 9 Cmd) (CmdLen - 10) Result m) (\<lambda>(_, Result, m).
                        reply P TxSEQ (Some 0xDF) Result clientIP m)
                   else Inr m)
              else reply P TxSEQ None Result clientIP m
         else if c8 = 0xA3
         then bindE (if mode_matches clientIP m then Analysis P (drop 8 Cmd) CmdLen Result m
                     else Inr (0, Result, m)) (\<lambda>(_, Result, m).
              reply P TxSEQ (Some 0xD3) Result clientIP m)
         else if c8 = 0xAE
         then bindE (if mode_matches clientIP m then Analysis P (drop 8 Cmd) CmdLen Result m
                     else Inr (0, Result, m)) (\<lambda>(_, Result, m).
              reply P TxSEQ (Some 0xDE) Result clientIP m)
         else Inr m)))"

section \<open>Pins\<close>

definition pin_calls :: "gpio \<Rightarrow> bool \<Rightarrow> syscall list" where
  "pin_calls g on = (if isOpen g then [Write_fd (the (fd g)) (level_bytes on)] else [])"

definition pin_os :: "'w kernel \<Rightarrow> gpio \<Rightarrow> bool \<Rightarrow> 'w os \<Rightarrow> 'w os" where
  "pin_os K g on s = (if isOpen g then after K (Write_fd (the (fd g)) (level_bytes on)) s else s)"

lemma calls_pin_os [simp]: "calls (pin_os K g on s) = calls s @ pin_calls g on"
  by (simp add: pin_os_def pin_calls_def)

named_theorems pin_simps "driving pins that are in a sound state"

lemma run_pin_ok [pin_simps]:
  assumes "gpio_ok g"
  shows "run_pin SetOn P g m = Inr (m\<lparr>machine_os := pin_os (kernel P) g True (machine_os m)\<rparr>)"
    and "run_pin SetOff P g m = Inr (m\<lparr>machine_os := pin_os (kernel P) g False (machine_os m)\<rparr>)"
  using assms
  by (auto simp: run_pin_def SetOn_def SetOff_def pin_os_def gpio_ok_def level_bytes_def case_prod_beta Let_def)

definition pins_ok :: "('c, 'w) machine \<Rightarrow> bool" where
  "pins_ok m \<longleftrightarrow> gpio_ok (Balustrade_up m) \<and> gpio_ok (Balustrade_down m) \<and> gpio_ok (TrafficPin m) \<and>
     gpio_ok (FlashLight m) \<and> gpio_ok (VehicleDevice1 m) \<and> gpio_ok (VehicleDevice2 m) \<and>
     gpio_ok (VehicleDevice3 m) \<and> gpio_ok (ManualSwitch m)"

definition motor_calls :: "('c, 'w) machine \<Rightarrow> bool \<Rightarrow> bool \<Rightarrow> syscall list" where
  "motor_calls m up down = pin_calls (Balustrade_up m) up @ pin_calls (Balustrade_down m) down"

definition motor_os :: "'w kernel \<Rightarrow> ('c, 'w) machine \<Rightarrow> bool \<Rightarrow> bool \<Rightarrow> 'w os \<Rightarrow> 'w os" where
  "motor_os K m up down s = pin_os K (Balustrade_down m) down (pin_os K (Balustrade_up m) up s)"

lemma calls_motor_os [simp]: "calls (motor_os K m up down s) = calls s @ motor_calls m up down"
  by (simp add: motor_os_def motor_calls_def)

lemma Balustrade_Thread_ok:
  assumes "pins_ok m"
  shows "Balustrade_Thread P m =
    Inr (m\<lparr>machine_os := motor_os (kernel P) m False False (machine_os m), balustradeThread := Finished\<rparr>)"
  using assms by (simp add: Balustrade_Thread_def pins_ok_def pin_simps motor_os_def)

definition joined_os :: "'w kernel \<Rightarrow> ('c, 'w) machine \<Rightarrow> 'w os" where
  "joined_os K m = (if balustradeThread m = Running then motor_os K m False False (machine_os m) else machine_os m)"

lemma join_balustrade_ok:
  assumes "pins_ok m"
  shows "join_balustrade P m = Inr (m\<lparr>machine_os := joined_os (kernel P) m, balustradeThread := NotStarted\<rparr>)"
  by (cases "balustradeThread m")
    (simp_all add: join_balustrade_def joinable_def joined_os_def Balustrade_Thread_ok [OF assms])

text \<open>What a barrier command asks of the motor, what it answers and the thread it leaves.\<close>

definition requested_os :: "'w kernel \<Rightarrow> byte \<Rightarrow> ('c, 'w) machine \<Rightarrow> 'w os \<Rightarrow> 'w os" where
  "requested_os K c1 m s =
     (if c1 = 0 then motor_os K m False True s else if c1 = 1 then motor_os K m True False s else s)"

definition motor_answer :: "byte \<Rightarrow> byte list \<Rightarrow> byte list" where
  "motor_answer c1 Oput = (if c1 = 0 then Oput[1 := 3] else if c1 = 1 then Oput[1 := 2] else Oput)"

definition after_barrier :: "'w kernel \<Rightarrow> byte \<Rightarrow> ('c, 'w) machine \<Rightarrow> ('c, 'w) machine" where
  "after_barrier K c1 m = m\<lparr>machine_os := requested_os K c1 m (joined_os K m),
     balustradeThread := if c1 \<in> {0, 1} then Running else NotStarted\<rparr>"

lemma BalusTrade_ok:
  assumes "pins_ok m" and "1 < length Cmd"
  shows "BalusTrade P Cmd n Oput m =
    Inr (4, motor_answer (Cmd ! 1) (Oput[0 := Cmd ! 0]), after_barrier (kernel P) (Cmd ! 1) m)"
proof -
  have g: "gpio_ok (Balustrade_up m)" "gpio_ok (Balustrade_down m)"
    using assms(1) by (simp_all add: pins_ok_def)
  have l: "0 < length Cmd"
    using assms(2) by linarith
  consider "Cmd ! 1 = 0" | "Cmd ! 1 = 1" | "Cmd ! 1 \<notin> {0, 1}"
    by blast
  then show ?thesis
    using assms(2) l by cases (simp_all add: BalusTrade_def join_balustrade_ok [OF assms(1)]
        pin_simps g requested_os_def motor_answer_def motor_os_def after_barrier_def Let_def)
qed

lemma pins_after_barrier:
  "pins_ok (after_barrier K c1 m) = pins_ok m"
  "motor_calls (after_barrier K c1 m) = motor_calls m"
  "Balustrade_up (after_barrier K c1 m) = Balustrade_up m"
  "Balustrade_down (after_barrier K c1 m) = Balustrade_down m"
  "balustradeThread (after_barrier K c1 m) = (if c1 \<in> {0, 1} then Running else NotStarted)"
  by (simp_all add: after_barrier_def pins_ok_def motor_calls_def fun_eq_iff)

definition motor_request :: "byte \<Rightarrow> ('c, 'w) machine \<Rightarrow> syscall list" where
  "motor_request c1 m =
     (if c1 = 0 then motor_calls m False True else if c1 = 1 then motor_calls m True False else [])"

lemma calls_after_barrier:
  "calls (machine_os (after_barrier K c1 m)) = calls (machine_os m) @
     (if balustradeThread m = Running then motor_calls m False False else []) @ motor_request c1 m"
  by (simp add: after_barrier_def requested_os_def joined_os_def motor_request_def)

section \<open>The motor outputs are never both on\<close>

text \<open>The level last asked for on a descriptor.\<close>

fun set_level :: "int \<Rightarrow> syscall \<Rightarrow> bool \<Rightarrow> bool" where
  "set_level f (Write_fd g bs) b = (if g = f then bs = level_bytes True else b)"
| "set_level f c b = b"

definition level :: "int \<Rightarrow> syscall list \<Rightarrow> bool" where
  "level f tr = fold (set_level f) tr False"

definition never_both :: "int \<Rightarrow> int \<Rightarrow> syscall list \<Rightarrow> bool" where
  "never_both u d tr \<longleftrightarrow> (\<forall>n. \<not> (level u (take n tr) \<and> level d (take n tr)))"

lemma level_append: "level f (tr @ [c]) = set_level f c (level f tr)"
  by (simp add: level_def)

lemma never_both_snoc:
  "never_both u d (tr @ [c]) \<longleftrightarrow> never_both u d tr \<and> \<not> (level u (tr @ [c]) \<and> level d (tr @ [c]))"
proof
  assume a: "never_both u d (tr @ [c])"
  have "\<not> (level u (take n tr) \<and> level d (take n tr))" for n
    using a [unfolded never_both_def, rule_format, of "min n (length tr)"] by (simp add: min_def split: if_splits)
  then show "never_both u d tr \<and> \<not> (level u (tr @ [c]) \<and> level d (tr @ [c]))"
    using a [unfolded never_both_def, rule_format, of "Suc (length tr)"] by (auto simp: never_both_def)
next
  assume "never_both u d tr \<and> \<not> (level u (tr @ [c]) \<and> level d (tr @ [c]))"
  then show "never_both u d (tr @ [c])"
    by (auto simp: never_both_def take_Cons' not_le split: if_splits)
qed

text \<open>
  The controller's steps, as far as the motor goes: a barrier command, the end of the pulse by the
  thread, and anything else, which leaves the motor's pins and the thread alone and writes to
  neither descriptor.
\<close>

definition motor_silent :: "('c, 'w) machine \<Rightarrow> syscall list \<Rightarrow> bool" where
  "motor_silent m cs \<longleftrightarrow> (\<forall>bs. Write_fd (the (fd (Balustrade_up m))) bs \<notin> set cs \<and>
     Write_fd (the (fd (Balustrade_down m))) bs \<notin> set cs)"

inductive motor_step ::
  "('w, 'cd) platform \<Rightarrow> ('c, 'w) machine \<Rightarrow> ('c, 'w) machine \<Rightarrow> bool" for P where
  command: "1 < length Cmd \<Longrightarrow> BalusTrade P Cmd n Oput m = Inr (r, Oput', m') \<Longrightarrow> motor_step P m m'"
| pulse_end: "balustradeThread m = Running \<Longrightarrow> Balustrade_Thread P m = Inr m' \<Longrightarrow> motor_step P m m'"
| other: "calls (machine_os m') = calls (machine_os m) @ cs \<Longrightarrow> motor_silent m cs \<Longrightarrow> pins_ok m' \<Longrightarrow>
    Balustrade_up m' = Balustrade_up m \<Longrightarrow> Balustrade_down m' = Balustrade_down m \<Longrightarrow>
    balustradeThread m' = balustradeThread m \<Longrightarrow> motor_step P m m'"

text \<open>Only a running pulse has an output on.\<close>

definition motor_inv :: "int \<Rightarrow> int \<Rightarrow> ('c, 'w) machine \<Rightarrow> bool" where
  "motor_inv u d m \<longleftrightarrow> pins_ok m \<and> isOpen (Balustrade_up m) \<and> isOpen (Balustrade_down m) \<and>
     fd (Balustrade_up m) = Some u \<and> fd (Balustrade_down m) = Some d \<and>
     never_both u d (calls (machine_os m)) \<and>
     (balustradeThread m \<noteq> Running \<longrightarrow>
        \<not> level u (calls (machine_os m)) \<and> \<not> level d (calls (machine_os m)))"

lemma level_bytes_inj [simp]: "level_bytes a = level_bytes b \<longleftrightarrow> a = b"
  by (simp add: level_bytes_def bytes_of_def)

lemma level_write [simp]:
  "level f (tr @ [Write_fd g (level_bytes b)]) = (if g = f then b else level f tr)"
  by (simp add: level_append)

lemma level_two [simp]:
  "level f (tr @ [Write_fd g (level_bytes a), Write_fd h (level_bytes b)]) =
     (if h = f then b else if g = f then a else level f tr)"
  using level_write [of f "tr @ [Write_fd g (level_bytes a)]" h b] by simp

lemma never_both_two:
  assumes "u \<noteq> d" and "\<not> (a \<and> b)" and "a \<longrightarrow> \<not> level d tr"
  shows "never_both u d (tr @ [Write_fd u (level_bytes a), Write_fd d (level_bytes b)]) \<longleftrightarrow> never_both u d tr"
  using assms never_both_snoc [of u d "tr @ [Write_fd u (level_bytes a)]" "Write_fd d (level_bytes b)"]
  by (auto simp: never_both_snoc)

lemma level_silent: "(\<forall>bs. Write_fd f bs \<notin> set cs) \<Longrightarrow> level f (tr @ cs) = level f tr"
proof (induction cs arbitrary: tr)
  case (Cons c cs)
  have "level f (tr @ [c]) = level f tr"
    using Cons.prems by (cases c) (auto simp: level_append)
  then show ?case
    using Cons.IH [of "tr @ [c]"] Cons.prems by simp
qed simp

lemma never_both_silent:
  "(\<forall>bs. Write_fd u bs \<notin> set cs \<and> Write_fd d bs \<notin> set cs) \<Longrightarrow> never_both u d tr \<Longrightarrow> never_both u d (tr @ cs)"
proof (induction cs arbitrary: tr)
  case (Cons c cs)
  have "level u (tr @ [c]) = level u tr" "level d (tr @ [c]) = level d tr"
    using Cons.prems(1) level_silent [of _ "[c]" tr] by auto
  moreover have "\<not> (level u tr \<and> level d tr)"
    using Cons.prems(2) by (metis never_both_def take_all order_refl)
  ultimately have "never_both u d (tr @ [c])"
    using Cons.prems(2) by (simp add: never_both_snoc)
  then show ?case
    using Cons.IH [of "tr @ [c]"] Cons.prems(1) by simp
qed simp

lemma motor_calls_open:
  "isOpen (Balustrade_up m) \<Longrightarrow> isOpen (Balustrade_down m) \<Longrightarrow> fd (Balustrade_up m) = Some u \<Longrightarrow>
   fd (Balustrade_down m) = Some d \<Longrightarrow>
   motor_calls m a b = [Write_fd u (level_bytes a), Write_fd d (level_bytes b)]"
  by (simp add: motor_calls_def pin_calls_def)

lemma motor_step_inv:
  assumes "motor_step P m m'" and "motor_inv u d m" and "u \<noteq> d"
  shows "motor_inv u d m'"
  using assms(1)
proof (cases rule: motor_step.cases)
  case (command Cmd n Oput r Oput')
  let ?c1 = "Cmd ! 1"
  have m': "m' = after_barrier (kernel P) ?c1 m"
    using BalusTrade_ok [of m Cmd P n Oput] command assms(2) by (simp add: motor_inv_def)
  let ?tr = "calls (machine_os m) @ (if balustradeThread m = Running then motor_calls m False False else [])"
  have mc: "motor_calls m a b = [Write_fd u (level_bytes a), Write_fd d (level_bytes b)]" for a b
    using assms(2) by (intro motor_calls_open) (simp_all add: motor_inv_def)
  have tr: "never_both u d ?tr" "\<not> level u ?tr" "\<not> level d ?tr"
    using assms(2,3) by (auto simp: motor_inv_def mc never_both_two)
  have "never_both u d (?tr @ motor_request ?c1 m)"
    using tr assms(3) by (auto simp: motor_request_def mc never_both_two simp del: append_assoc)
  moreover have "?c1 \<notin> {0, 1} \<longrightarrow> motor_request ?c1 m = []"
    by (simp add: motor_request_def)
  moreover have "calls (machine_os m') = ?tr @ motor_request ?c1 m"
    by (simp add: m' calls_after_barrier)
  ultimately show ?thesis
    using assms(2) tr unfolding m' motor_inv_def pins_after_barrier
    by (simp del: append_assoc)
next
  case pulse_end
  have pk: "pins_ok m"
    using assms(2) by (simp add: motor_inv_def)
  have mc: "motor_calls m a b = [Write_fd u (level_bytes a), Write_fd d (level_bytes b)]" for a b
    using assms(2) by (intro motor_calls_open) (simp_all add: motor_inv_def)
  have "m' = m\<lparr>machine_os := motor_os (kernel P) m False False (machine_os m), balustradeThread := Finished\<rparr>"
    using pulse_end Balustrade_Thread_ok [OF pk, of P] by simp
  then show ?thesis
    using assms(2,3) by (simp add: motor_inv_def pins_ok_def mc never_both_two)
next
  case (other cs)
  then show ?thesis
    using assms(2) level_silent never_both_silent by (auto simp: motor_inv_def motor_silent_def)
qed

section \<open>Replies\<close>

definition reply_frame :: "byte \<Rightarrow> byte list \<Rightarrow> byte list" where
  "reply_frame TxSEQ data = bcc.seal 2 ([0xFF, 0xFF, 0x00, TxSEQ div 10, 0x00, 0x00,
     word_of_nat (length data div 256), word_of_nat (length data mod 256)] @ data)"

lemma seal_ucast:
  assumes "2 \<le> length body"
  shows "bindE (BCCDataCheck body 2 (int (length body) - 2) 2) (\<lambda>bcc. Inr (body @ [ucast bcc])) = Inr (bcc.seal 2 body)"
proof -
  have "int (length body) - 2 = int (length body - 2)"
    using assms by simp
  then show ?thesis
    using BCCDataCheck_compute [of 2 2 "length body - 2" body] assms
    by (simp add: bcc.seal_def bcc_compute_xors segment_def)
qed

lemma send_frame_ok:
  assumes "Type \<noteq> 0xB0" and "length data \<le> (if Type = 0xDC then 3 else 2)"
    and "(if Type = 0xDC then 3 else 2) \<le> length (data @ rest)"
  shows "send_frame TxSEQ Type (data @ rest) (length data) = Inr (reply_frame TxSEQ data)"
proof -
  let ?body = "[0xFF, 0xFF, 0x00, TxSEQ div 10, 0x00, 0x00,
     word_of_nat (length data div 256), word_of_nat (length data mod 256)] @ data"
  have "send_frame TxSEQ Type (data @ rest) (length data) =
      bindE (BCCDataCheck ?body 2 (int (length ?body) - 2) 2) (\<lambda>bcc. Inr (?body @ [ucast bcc]))"
    using assms by (auto simp: send_frame_def Let_def)
  then show ?thesis
    using seal_ucast [of ?body] by (simp add: reply_frame_def)
qed

definition heartbeat_frame :: "byte list" where
  "heartbeat_frame = [0xFF, 0xFF, 0x00, 0x09, 0x00, 0x00, 0x00, 0x01, 0xB0, 0xB8]"

lemma send_frame_heartbeat: "send_frame TxSEQ 0xB0 Cmd n = Inr heartbeat_frame"
  using seal_ucast [of "[0xFF, 0xFF, 0x00, 0x09, 0x00, 0x00, 0x00, 0x01, 0xB0]"]
  by (simp add: send_frame_def heartbeat_frame_def bcc.seal_def bcc_compute_xors)

definition send_os :: "'w kernel \<Rightarrow> byte list \<Rightarrow> tcp_server \<Rightarrow> 'w os \<Rightarrow> 'w os" where
  "send_os K fr t s = (if connected t then after K (Send_sock (the (newfd t)) fr) s else s)"

definition send_calls :: "tcp_server \<Rightarrow> byte list \<Rightarrow> syscall list" where
  "send_calls t fr = (if connected t then [Send_sock (the (newfd t)) fr] else [])"

lemma calls_send_os [simp]: "calls (send_os K fr t s) = calls s @ send_calls t fr"
  by (simp add: send_os_def send_calls_def)

lemma WriteByte_send_os: "server_ok t \<Longrightarrow> WriteByte K fr t s = Inr (connected t, send_os K fr t s)"
  by (auto simp: WriteByte_def send_os_def server_ok_def)

definition machine_ok :: "('c, 'w) machine \<Rightarrow> bool" where
  "machine_ok m \<longleftrightarrow> pins_ok m \<and> qled_ok (Led m) \<and>
     (case Tcp1 m of None \<Rightarrow> False | Some t \<Rightarrow> server_ok t) \<and>
     (case Tcp2 m of None \<Rightarrow> False | Some t \<Rightarrow> server_ok t)"

lemma machine_ok_updates:
  "machine_ok (m\<lparr>resetTimer := b\<rparr>) = machine_ok m"
  "machine_ok (m\<lparr>machine_os := s\<rparr>) = machine_ok m"
  "machine_ok (m\<lparr>Player := t\<rparr>) = machine_ok m"
  "machine_ok (m\<lparr>lastPlayTime := c\<rparr>) = machine_ok m"
  "machine_ok (m\<lparr>displayingDefaultContent := b\<rparr>) = machine_ok m"
  "qled_ok led \<Longrightarrow> machine_ok m \<Longrightarrow> machine_ok (m\<lparr>Led := led\<rparr>)"
  by (simp_all add: machine_ok_def pins_ok_def)

text \<open>The server a client address is answered on.\<close>

definition client_server :: "string \<Rightarrow> ('c, 'w) machine \<Rightarrow> tcp_server" where
  "client_server ip m = (if ip = Client1 m then the (Tcp1 m) else the (Tcp2 m))"

definition known_client :: "string \<Rightarrow> ('c, 'w) machine \<Rightarrow> bool" where
  "known_client ip m \<longleftrightarrow> ip = Client1 m \<or> ip = Client2 m"

lemma mode_matches_known: "mode_matches ip m \<Longrightarrow> known_client ip m"
  by (auto simp: mode_matches_def known_client_def)

lemma CommunicationSend_ok:
  assumes "machine_ok m" and "known_client ip m" and "send_frame TxSEQ Type Cmd n = Inr fr"
  shows "CommunicationSend P TxSEQ Type Cmd n coil ip m =
    Inr (None, m\<lparr>machine_os := send_os (kernel P) fr (client_server ip m) (machine_os m)\<rparr>)"
proof -
  obtain t1 t2 where t: "Tcp1 m = Some t1" "server_ok t1" "Tcp2 m = Some t2" "server_ok t2"
    using assms(1) by (auto simp: machine_ok_def split: option.splits)
  have w: "server_write P fr (Some t) m = Inr (m\<lparr>machine_os := send_os (kernel P) fr t (machine_os m)\<rparr>)"
    if "server_ok t" for t
    using that by (simp add: server_write_def WriteByte_send_os)
  show ?thesis
  proof (cases "ip = Client1 m")
    case True
    then show ?thesis
      using t w by (simp add: CommunicationSend_def assms(3) client_server_def)
  next
    case False
    then show ?thesis
      using t w assms(2) by (simp add: CommunicationSend_def assms(3) client_server_def known_client_def)
  qed
qed

lemma reply_ok:
  assumes "machine_ok m" and "known_client ip m" and "Type \<notin> {0xB0, 0xDC}" and "Result = a # b # rest"
  shows "reply P TxSEQ (Some Type) Result ip m =
    Inr (m\<lparr>machine_os := send_os (kernel P) (reply_frame TxSEQ [a, b]) (client_server ip m) (machine_os m)\<rparr>)"
proof -
  have "send_frame TxSEQ Type Result 2 = Inr (reply_frame TxSEQ [a, b])"
    using send_frame_ok [of Type "[a, b]" rest TxSEQ] assms(3,4) by (simp add: numeral_2_eq_2)
  from CommunicationSend_ok [OF assms(1,2) this, of P 0] show ?thesis
    using assms(2) by (auto simp: reply_def known_client_def)
qed

lemma replicate_512: "replicate 512 (x :: byte) = x # x # replicate 510 x"
  by (simp add: numeral_eq_Suc)

section \<open>Handling a frame\<close>

lemma Analysis_barrier:
  assumes "pins_ok m" and "1 < length Cmd" and "Cmd ! 0 = 0xA3" and "1 \<le> n"
  shows "Analysis P Cmd n Oput m = Inr (4, motor_answer (Cmd ! 1) (Oput[0 := 0xA3]),
    (after_barrier (kernel P) (Cmd ! 1) m)\<lparr>resetTimer := True\<rparr>)"
proof -
  have "0 < length Cmd"
    using assms(2) by linarith
  then show ?thesis
    using assms(3,4) BalusTrade_ok [OF assms(1,2), of P 2 Oput] by (simp add: Analysis_def Let_def)
qed

definition lamp_answer :: "byte \<Rightarrow> byte list \<Rightarrow> byte list" where
  "lamp_answer c1 Oput = (if c1 = 1 then Oput[1 := 1] else if c1 = 0 then Oput[1 := 0] else Oput)"

definition lamp_os :: "'w kernel \<Rightarrow> byte \<Rightarrow> ('c, 'w) machine \<Rightarrow> 'w os" where
  "lamp_os K c1 m = (if c1 = 1 then pin_os K (TrafficPin m) False (machine_os m)
     else if c1 = 0 then pin_os K (TrafficPin m) True (machine_os m) else machine_os m)"

definition lamp_request :: "byte \<Rightarrow> ('c, 'w) machine \<Rightarrow> syscall list" where
  "lamp_request c1 m = (if c1 = 1 then pin_calls (TrafficPin m) False
     else if c1 = 0 then pin_calls (TrafficPin m) True else [])"

lemma calls_lamp_os [simp]: "calls (lamp_os K c1 m) = calls (machine_os m) @ lamp_request c1 m"
  by (simp add: lamp_os_def lamp_request_def)

lemma Analysis_lamp:
  assumes "pins_ok m" and "1 < length Cmd" and "Cmd ! 0 = 0xAE" and "1 \<le> n"
  shows "Analysis P Cmd n Oput m = Inr (4, lamp_answer (Cmd ! 1) (Oput[0 := 0xDE]),
    m\<lparr>machine_os := lamp_os (kernel P) (Cmd ! 1) m, resetTimer := True\<rparr>)"
proof -
  have l: "0 < length Cmd"
    using assms(2) by linarith
  have g: "gpio_ok (TrafficPin m)"
    using assms(1) by (simp add: pins_ok_def)
  have t: "TrafficControl P Cmd 2 Oput m = Inr (4, lamp_answer (Cmd ! 1) (Oput[0 := 0xDE]),
      m\<lparr>machine_os := lamp_os (kernel P) (Cmd ! 1) m\<rparr>)"
    using assms(2) by (simp add: TrafficControl_def pin_simps g lamp_answer_def lamp_os_def Let_def)
  show ?thesis
    using assms(3,4) l by (simp add: Analysis_def t Let_def)
qed

text \<open>A command frame as the receiver hands it over, and the two kinds handled without the display.\<close>

lemma CommunicationAnalysis_simple:
  assumes "machine_ok m" and "known_client ip m" and "9 < length Cmd"
    and "Cmd ! 8 \<in> {0xA3, 0xAE}"
    and "mode_matches ip m \<longrightarrow>
      Analysis P (drop 8 Cmd) n (replicate 512 0) m = Inr (r, a # b # rest, m') \<and> machine_ok m' \<and>
      Tcp1 m' = Tcp1 m \<and> Tcp2 m' = Tcp2 m \<and> Client1 m' = Client1 m \<and> Client2 m' = Client2 m"
    and "\<not> mode_matches ip m \<longrightarrow> a = 0 \<and> b = 0 \<and> m' = m"
  shows "CommunicationAnalysis P Cmd n ip m =
    Inr (m'\<lparr>machine_os := send_os (kernel P) (reply_frame (Cmd ! 3) [a, b]) (client_server ip m) (machine_os m')\<rparr>)"
proof -
  define Type :: byte where "Type = (if Cmd ! 8 = 0xA3 then 0xD3 else 0xDE)"
  have T: "Type \<notin> {0xB0, 0xDC}"
    by (simp add: Type_def)
  have f: "machine_ok m' \<and> Tcp1 m' = Tcp1 m \<and> Tcp2 m' = Tcp2 m \<and> Client1 m' = Client1 m \<and> Client2 m' = Client2 m"
    using assms(1,5,6) by (cases "mode_matches ip m") blast+
  then have m': "machine_ok m'" "known_client ip m'" "client_server ip m' = client_server ip m"
    using assms(2) by (simp_all add: known_client_def client_server_def)
  obtain rest' where res: "(if mode_matches ip m then Analysis P (drop 8 Cmd) n (replicate 512 0) m
      else Inr (0, replicate 512 0, m)) = Inr (if mode_matches ip m then r else 0, a # b # rest', m')"
  proof (cases "mode_matches ip m")
    case True
    then show ?thesis
      using assms(5) that [of rest] by simp
  next
    case False
    then show ?thesis
      using assms(6) that [of "replicate 510 0"] replicate_512 [of 0] by simp
  qed
  have rds: "rd Cmd 3 = Inr (Cmd ! 3)" "rd Cmd 8 = Inr (Cmd ! 8)"
    using assms(3) by simp_all
  have "CommunicationAnalysis P Cmd n ip m = reply P (Cmd ! 3) (Some Type) (a # b # rest') ip m'"
  proof (cases "Cmd ! 8 = 0xA3")
    case True
    then show ?thesis
      by (simp add: CommunicationAnalysis_def rds res Type_def)
  next
    case False
    then have "Cmd ! 8 = 0xAE"
      using assms(4) by simp
    then show ?thesis
      by (simp add: CommunicationAnalysis_def rds res Type_def)
  qed
  then show ?thesis
    using reply_ok [OF m'(1,2) T, of "a # b # rest'" a b rest' P "Cmd ! 3"] m'(3) by simp
qed

lemma after_barrier_fields:
  "machine_ok (after_barrier K c1 m) = machine_ok m" "Tcp1 (after_barrier K c1 m) = Tcp1 m"
  "Tcp2 (after_barrier K c1 m) = Tcp2 m" "Client1 (after_barrier K c1 m) = Client1 m"
  "Client2 (after_barrier K c1 m) = Client2 m"
  by (simp_all add: after_barrier_def machine_ok_def pins_ok_def)

lemma barrier_command_lemma:
  assumes "machine_ok m" and "mode_matches ip m" and "9 < length Cmd" and "Cmd ! 8 = 0xA3" and "1 \<le> n"
  shows "CommunicationAnalysis P Cmd n ip m =
    (let m' = (after_barrier (kernel P) (Cmd ! 9) m)\<lparr>resetTimer := True\<rparr>;
         ans = (if Cmd ! 9 = 0 then 3 else if Cmd ! 9 = 1 then 2 else 0)
     in Inr (m'\<lparr>machine_os := send_os (kernel P) (reply_frame (Cmd ! 3) [0xA3, ans]) (client_server ip m)
          (machine_os m')\<rparr>))"
proof -
  let ?c1 = "Cmd ! 9"
  let ?ans = "if ?c1 = 0 then 3 else if ?c1 = 1 then 2 else 0 :: byte"
  let ?m' = "(after_barrier (kernel P) ?c1 m)\<lparr>resetTimer := True\<rparr>"
  have p: "pins_ok m"
    using assms(1) by (simp add: machine_ok_def)
  have d: "1 < length (drop 8 Cmd)" "drop 8 Cmd ! 0 = 0xA3" "drop 8 Cmd ! 1 = ?c1"
    using assms(3,4) by simp_all
  have "motor_answer ?c1 ((replicate 512 0)[0 := 0xA3]) = 0xA3 # ?ans # replicate 510 0"
    by (simp add: replicate_512 motor_answer_def)
  then have a: "Analysis P (drop 8 Cmd) n (replicate 512 0) m = Inr (4, 0xA3 # ?ans # replicate 510 0, ?m')"
    using Analysis_barrier [OF p d(1,2) assms(5), of P "replicate 512 0"] d(3) by simp
  have f: "machine_ok ?m'" "Tcp1 ?m' = Tcp1 m" "Tcp2 ?m' = Tcp2 m" "Client1 ?m' = Client1 m" "Client2 ?m' = Client2 m"
    using assms(1) after_barrier_fields [of "kernel P" ?c1 m] by (simp_all add: machine_ok_def pins_ok_def)
  have A: "Cmd ! 8 \<in> {0xA3, 0xAE}"
    using assms(4) by simp
  show ?thesis
    using CommunicationAnalysis_simple [OF assms(1) mode_matches_known [OF assms(2)] assms(3) A,
        where P = P and n = n and r = "4" and a = "0xA3" and b = ?ans and rest = "replicate 510 0" and m' = ?m'] a f assms(2) by (simp add: Let_def)
qed

lemma lamp_command_lemma:
  assumes "machine_ok m" and "mode_matches ip m" and "9 < length Cmd" and "Cmd ! 8 = 0xAE" and "1 \<le> n"
  shows "CommunicationAnalysis P Cmd n ip m =
    Inr (m\<lparr>machine_os := send_os (kernel P) (reply_frame (Cmd ! 3) [0xDE, if Cmd ! 9 = 1 then 1 else 0])
        (client_server ip m) (lamp_os (kernel P) (Cmd ! 9) m), resetTimer := True\<rparr>)"
proof -
  let ?c1 = "Cmd ! 9"
  let ?ans = "if ?c1 = 1 then 1 else 0 :: byte"
  let ?m' = "m\<lparr>machine_os := lamp_os (kernel P) ?c1 m, resetTimer := True\<rparr>"
  have p: "pins_ok m"
    using assms(1) by (simp add: machine_ok_def)
  have d: "1 < length (drop 8 Cmd)" "drop 8 Cmd ! 0 = 0xAE" "drop 8 Cmd ! 1 = ?c1"
    using assms(3,4) by simp_all
  have "lamp_answer ?c1 ((replicate 512 0)[0 := 0xDE]) = 0xDE # ?ans # replicate 510 0"
    by (simp add: replicate_512 lamp_answer_def)
  then have a: "Analysis P (drop 8 Cmd) n (replicate 512 0) m = Inr (4, 0xDE # ?ans # replicate 510 0, ?m')"
    using Analysis_lamp [OF p d(1,2) assms(5), of P "replicate 512 0"] d(3) by simp
  have f: "machine_ok ?m'" "Tcp1 ?m' = Tcp1 m" "Tcp2 ?m' = Tcp2 m" "Client1 ?m' = Client1 m" "Client2 ?m' = Client2 m"
    using assms(1) by (simp_all add: machine_ok_def pins_ok_def)
  have A: "Cmd ! 8 \<in> {0xA3, 0xAE}"
    using assms(4) by simp
  have h: "mode_matches ip m \<longrightarrow>
      Analysis P (drop 8 Cmd) n (replicate 512 0) m = Inr (4, 0xDE # ?ans # replicate 510 0, ?m') \<and> machine_ok ?m' \<and>
      Tcp1 ?m' = Tcp1 m \<and> Tcp2 ?m' = Tcp2 m \<and> Client1 ?m' = Client1 m \<and> Client2 ?m' = Client2 m"
    using a f by blast
  have "\<not> mode_matches ip m \<longrightarrow> (0xDE :: byte) = 0 \<and> ?ans = 0 \<and> ?m' = m"
    using assms(2) by blast
  from CommunicationAnalysis_simple [OF assms(1) mode_matches_known [OF assms(2)] assms(3) A h this]
  show ?thesis
    by simp
qed

lemma wrong_mode_lemma:
  assumes "machine_ok m" and "known_client ip m" and "\<not> mode_matches ip m" and "9 < length Cmd"
    and "Cmd ! 8 \<in> {0xA3, 0xAE}"
  shows "CommunicationAnalysis P Cmd n ip m =
    Inr (m\<lparr>machine_os := send_os (kernel P) (reply_frame (Cmd ! 3) [0, 0]) (client_server ip m) (machine_os m)\<rparr>)"
  using CommunicationAnalysis_simple [OF assms(1,2,4,5),
      where P = P and n = n and a = "0" and b = "0" and m' = m] assms(3) by blast

section \<open>The display handlers\<close>

lemma show_row:
  assumes "qled_ok led" and "DisplayMode led \<noteq> 0" and "i + n \<le> length Cmd" and "n \<le> 20"
  shows "\<exists>led'. DisplyShow row F c 9 (drop i Cmd) (int n) led = Inr (False, led') \<and> qled_ok led' \<and>
    DisplayMode led' \<noteq> 0 \<and> comm led' = comm led \<and> screen led' = (screen led)(row \<mapsto> (special_frame row F c 9 (segment i n Cmd), 450))"
proof -
  have "length (segment i n Cmd) = n"
    using assms(3) by simp
  moreover have "drop i Cmd = segment i n Cmd @ drop n (drop i Cmd)"
    by (simp only: segment_def append_take_drop_id)
  ultimately show ?thesis
    using DisplyShow_posts [OF assms(1,2), of "segment i n Cmd" row F c 9 "drop n (drop i Cmd)"] assms(2,4)
    by (auto simp: posts_def split: sum.splits)
qed

text \<open>One round of the loop, and the rows a command shows.\<close>

lemma display_lines_step:
  assumes "qled_ok led" and "DisplayMode led \<noteq> 0" and "i + nat (chars_per_line c0) \<le> length Cmd"
    and "int i < CmdLen - start_position c0" and "chars_per_line c0 \<le> CmdLen - int i"
    and "int row \<le> line_count c0" and "row < length Colours"
  shows "\<exists>led'. display_lines c0 F Colours Cmd CmdLen (int i) (int row) led =
      display_lines c0 F Colours Cmd CmdLen (int (i + nat (chars_per_line c0))) (int (Suc row)) led' \<and>
    qled_ok led' \<and> DisplayMode led' \<noteq> 0 \<and> comm led' = comm led \<and>
    screen led' = (screen led)(int row \<mapsto>
      (special_frame (int row) F (Colours ! row) 9 (segment i (nat (chars_per_line c0)) Cmd), 450))"
proof -
  have cpl: "0 < chars_per_line c0" "nat (chars_per_line c0) \<le> 20" "int (nat (chars_per_line c0)) = chars_per_line c0"
    by (simp_all add: chars_per_line_def)
  obtain led' where l: "DisplyShow (int row) F (Colours ! row) 9 (drop i Cmd) (int (nat (chars_per_line c0))) led = Inr (False, led')"
      "qled_ok led'" "DisplayMode led' \<noteq> 0" "comm led' = comm led"
      "screen led' = (screen led)(int row \<mapsto>
        (special_frame (int row) F (Colours ! row) 9 (segment i (nat (chars_per_line c0)) Cmd), 450))"
    using show_row [OF assms(1,2,3) cpl(2)] by blast
  have "(if chars_per_line c0 < CmdLen - int i then chars_per_line c0 else CmdLen - int i) = chars_per_line c0"
    using assms(5) by simp
  then have "display_lines c0 F Colours Cmd CmdLen (int i) (int row) led =
      display_lines c0 F Colours Cmd CmdLen (int (i + nat (chars_per_line c0))) (int (Suc row)) led'"
    using l(1) assms(4,6,7) cpl(3) by (subst display_lines.simps) (simp add: Let_def add.commute)
  with l(2-5) show ?thesis
    by blast
qed

text \<open>The length \<open>Analysis\<close> passes for each format, and where row \<open>r\<close> starts.\<close>

definition format_length :: "byte \<Rightarrow> int" where
  "format_length c0 = (if c0 = 0x44 then 42 else 71)"

definition row_start :: "byte \<Rightarrow> nat \<Rightarrow> nat" where
  "row_start c0 r = nat (start_position c0) + (r - 1) * nat (chars_per_line c0)"

definition rows_screen ::
  "byte \<Rightarrow> int \<Rightarrow> int list \<Rightarrow> byte list \<Rightarrow> nat \<Rightarrow> (int \<Rightarrow> (byte list \<times> nat) option) \<Rightarrow> int \<Rightarrow> (byte list \<times> nat) option" where
  "rows_screen c0 F Colours Cmd n w = (\<lambda>l. if 1 \<le> l \<and> l \<le> int n
     then Some (special_frame l F (Colours ! nat l) 9 (segment (row_start c0 (nat l)) (nat (chars_per_line c0)) Cmd), 450)
     else w l)"

lemma rows_screen_Suc:
  "rows_screen c0 F Colours Cmd (Suc n) w = (rows_screen c0 F Colours Cmd n w)(int (Suc n) \<mapsto>
     (special_frame (int (Suc n)) F (Colours ! Suc n) 9
        (segment (row_start c0 (Suc n)) (nat (chars_per_line c0)) Cmd), 450))"
proof -
  have "nat (1 + int n) = Suc n"
    by simp
  then show ?thesis
    by (intro ext) (auto simp: rows_screen_def not_le)
qed

lemma display_lines_rows:
  assumes "qled_ok led" and "DisplayMode led \<noteq> 0" and "format_length c0 \<le> int (length Cmd)"
    and "length Colours = 5" and "int n \<le> line_count c0"
  shows "\<exists>led'. display_lines c0 F Colours Cmd (format_length c0) (start_position c0) 1 led =
      display_lines c0 F Colours Cmd (format_length c0) (int (row_start c0 (Suc n))) (int (Suc n)) led' \<and>
    qled_ok led' \<and> DisplayMode led' \<noteq> 0 \<and> comm led' = comm led \<and>
    screen led' = rows_screen c0 F Colours Cmd n (screen led)"
  using assms(5)
proof (induction n)
  case 0
  have "int (row_start c0 (Suc 0)) = start_position c0"
    by (simp add: row_start_def start_position_def)
  moreover have "rows_screen c0 F Colours Cmd 0 (screen led) = screen led"
    by (rule ext) (auto simp: rows_screen_def)
  ultimately show ?case
    using assms(1,2) by auto
next
  case (Suc n)
  then obtain led1 where l1: "display_lines c0 F Colours Cmd (format_length c0) (start_position c0) 1 led =
      display_lines c0 F Colours Cmd (format_length c0) (int (row_start c0 (Suc n))) (int (Suc n)) led1"
      "qled_ok led1" "DisplayMode led1 \<noteq> 0" "comm led1 = comm led" "screen led1 = rows_screen c0 F Colours Cmd n (screen led)"
    by auto
  have n: "Suc n \<le> (if c0 = 0x44 then 3 else 4)"
    using Suc.prems by (simp add: line_count_def split: if_splits)
  have b: "row_start c0 (Suc n) + nat (chars_per_line c0) \<le> length Cmd"
      "int (row_start c0 (Suc n)) < format_length c0 - start_position c0"
      "chars_per_line c0 \<le> format_length c0 - int (row_start c0 (Suc n))"
    using n assms(3) by (auto simp: row_start_def format_length_def start_position_def chars_per_line_def split: if_splits)
  have r: "row_start c0 (Suc n) + nat (chars_per_line c0) = row_start c0 (Suc (Suc n))"
    by (simp add: row_start_def)
  have c: "Suc n < length Colours"
    using n assms(4) by (simp split: if_splits)
  show ?case
    using display_lines_step [OF l1(2,3) b(1,2,3) Suc.prems c, of F] l1(1,4,5) r rows_screen_Suc by auto
qed

lemma line_colours_ok:
  assumes "7 \<le> length Cmd"
  shows "\<exists>Cs. line_colours c0 Cmd = Inr Cs \<and> length Cs = 5 \<and>
    (\<forall>r. 1 \<le> r \<and> int r \<le> line_count c0 \<longrightarrow> Cs ! r = uint (Cmd ! (2 + r)))"
proof -
  have five: "replicate 5 0 = [0, 0, 0, 0, 0 :: int]"
    by (simp add: numeral_eq_Suc)
  have l: "line_colours c0 Cmd = Inr (if c0 = 0x44
      then [0, uint (Cmd ! 3), uint (Cmd ! 4), uint (Cmd ! 5), 0]
      else [0, uint (Cmd ! 3), uint (Cmd ! 4), uint (Cmd ! 5), uint (Cmd ! 6)])"
    using assms by (simp add: line_colours_def line_count_def upt_rec five numeral_2_eq_2 [symmetric])
  have "(if c0 = 0x44 then [0, uint (Cmd ! 3), uint (Cmd ! 4), uint (Cmd ! 5), 0]
      else [0, uint (Cmd ! 3), uint (Cmd ! 4), uint (Cmd ! 5), uint (Cmd ! 6)]) ! r = uint (Cmd ! (2 + r))"
    if "1 \<le> r" "int r \<le> line_count c0" for r
  proof -
    have "r = 1 \<or> r = 2 \<or> r = 3 \<or> (r = 4 \<and> c0 \<noteq> 0x44)"
      using that by (auto simp: line_count_def split: if_splits)
    then show ?thesis
      by (auto simp: eval_nat_numeral)
  qed
  with l show ?thesis
    by simp
qed

definition shown_rows :: "byte \<Rightarrow> byte list \<Rightarrow> (int \<Rightarrow> (byte list \<times> nat) option) \<Rightarrow> int \<Rightarrow> (byte list \<times> nat) option" where
  "shown_rows c0 Cmd w = (\<lambda>l. if l = 10 then Some (bright_frame 2 (uint (Cmd ! 1)), 150)
     else if 1 \<le> l \<and> l \<le> line_count c0
     then Some (special_frame l (if c0 = 0x44 then 1 else 0) (uint (Cmd ! (2 + nat l))) 9
            (segment (row_start c0 (nat l)) (nat (chars_per_line c0)) Cmd), 450)
     else w l)"

lemma DisplayControl_ok:
  assumes "qled_ok (Led m)" and "DisplayMode (Led m) \<noteq> 0" and "c0 \<in> {0x44, 0x64}" and "Cmd ! 0 = c0"
    and "format_length c0 \<le> int (length Cmd)"
  shows "\<exists>led'. DisplayControl Cmd (format_length c0) Oput m = Inr (4, Oput[0 := 0xD4, 1 := 3],
      m\<lparr>displayingDefaultContent := False, resetTimer := True, lastPlayTime := clock m, Led := led'\<rparr>) \<and>
    qled_ok led' \<and> DisplayMode led' \<noteq> 0 \<and> comm led' = comm (Led m) \<and> screen led' = shown_rows c0 Cmd (screen (Led m))"
proof -
  let ?F = "if c0 = 0x44 then 1 else 0 :: int"
  let ?n = "nat (line_count c0)"
  have len: "42 \<le> length Cmd"
    using assms(5) by (simp add: format_length_def split: if_splits)
  obtain Cs where Cs: "line_colours c0 Cmd = Inr Cs" "length Cs = 5"
      "\<forall>r. 1 \<le> r \<and> int r \<le> line_count c0 \<longrightarrow> Cs ! r = uint (Cmd ! (2 + r))"
    using line_colours_ok [of Cmd c0] len by auto
  have n: "int ?n = line_count c0"
    by (simp add: line_count_def)
  then have n': "int ?n \<le> line_count c0"
    by simp
  obtain led1 where l1: "display_lines c0 ?F Cs Cmd (format_length c0) (start_position c0) 1 (Led m) =
      display_lines c0 ?F Cs Cmd (format_length c0) (int (row_start c0 (Suc ?n))) (int (Suc ?n)) led1"
      "qled_ok led1" "DisplayMode led1 \<noteq> 0" "comm led1 = comm (Led m)" "screen led1 = rows_screen c0 ?F Cs Cmd ?n (screen (Led m))"
    using display_lines_rows [OF assms(1,2,5) Cs(2) n'] by blast
  have "\<not> int (row_start c0 (Suc ?n)) < format_length c0 - start_position c0"
    using assms(3) by (auto simp: row_start_def format_length_def start_position_def line_count_def chars_per_line_def)
  then have l2: "display_lines c0 ?F Cs Cmd (format_length c0) (start_position c0) 1 (Led m) = Inr led1"
    unfolding l1(1) by (subst display_lines.simps) simp
  have bf: "length (bright_frame 2 (uint (Cmd ! 1))) \<le> 128"
    by (simp add: length_const_frames)
  obtain led2 where l3: "DisplayBright 2 (uint (Cmd ! 1)) led1 = Inr (False, led2)" "qled_ok led2"
      "screen led2 = (screen led1)(10 \<mapsto> (bright_frame 2 (uint (Cmd ! 1)), 150))" "DisplayMode led2 \<noteq> 0" "comm led2 = comm led1"
    using put_frame_posts [OF l1(2) bf, of 10 150 False] l1(3)
    by (auto simp: DisplayBright_def posts_def length_const_frames split: sum.splits)
  have "screen led2 = shown_rows c0 Cmd (screen (Led m))"
    unfolding l3(3) l1(5) using Cs(3) n by (intro ext) (auto simp: rows_screen_def shown_rows_def)
  moreover have "DisplayControl Cmd (format_length c0) Oput m = Inr (4, Oput[0 := 0xD4, 1 := 3],
      m\<lparr>displayingDefaultContent := False, resetTimer := True, lastPlayTime := clock m, Led := led2\<rparr>)"
  proof -
    have rds: "rd Cmd 0 = Inr c0" "rd Cmd (Suc 0) = Inr (Cmd ! Suc 0)"
      using assms(4) len by (auto intro!: rd_ok [THEN trans])
    show ?thesis
      using assms(3) Cs(1) l2 l3(1) by (auto simp: DisplayControl_def rds Let_def)
  qed
  ultimately show ?thesis
    using l3(2,4,5) l1(4) by auto
qed

text \<open>An integrated frame, &Cmd[9] of the frame, as \<open>Analysis\<close> sees it.\<close>

definition integrated :: "byte \<Rightarrow> byte list \<Rightarrow> bool" where
  "integrated c4 Cmd \<longleftrightarrow> segment 0 5 Cmd = [0xA0, 0xB0, 0xC0, 0xD0, c4]"

lemma integrated_nth:
  assumes "integrated c4 Cmd"
  shows "4 < length Cmd" "Cmd ! 0 = 0xA0" "Cmd ! Suc 0 = 0xB0" "Cmd ! 2 = 0xC0" "Cmd ! 3 = 0xD0" "Cmd ! 4 = c4"
proof -
  have l: "length (take 5 Cmd) = 5"
    using assms by (simp add: integrated_def segment_def)
  then show "4 < length Cmd"
    by simp
  have "take 5 Cmd ! i = [0xA0, 0xB0, 0xC0, 0xD0, c4] ! i" for i
    using assms by (simp add: integrated_def segment_def)
  from this [of 0] this [of 1] this [of 2] this [of 3] this [of 4]
  show "Cmd ! 0 = 0xA0" "Cmd ! Suc 0 = 0xB0" "Cmd ! 2 = 0xC0" "Cmd ! 3 = 0xD0" "Cmd ! 4 = c4"
    by simp_all
qed

lemma checked_ok:
  assumes "0 < n" and "n \<le> length Cmd"
  shows "checked Cmd (int n) h Oput m = (if bcc_accepts (segment 0 n Cmd)
    then bindE (h ()) (\<lambda>(_, Oput, m). Inr (Oput, m)) else Inr (Oput, m))"
  using BCCDataCheck_accepts [of n 0 Cmd] assms by (simp add: checked_def)

text \<open>The handler of each integrated command.\<close>

definition integrated_handler ::
  "('w, 'cd) platform \<Rightarrow> byte \<Rightarrow> byte list \<Rightarrow> int \<Rightarrow> byte list \<Rightarrow> ('c, 'w) machine \<Rightarrow>
   (int \<times> byte list \<times> ('c, 'w) machine) res" where
  "integrated_handler P c4 Cmd n Oput m =
     (if c4 = 0x07 then FlashLightControl P Cmd 8 Oput m
      else if c4 = 0x53 then DisplayVoice P Cmd (n - 7) Oput m
      else DisplayControl Cmd (format_length c4) Oput m)"

lemma Analysis_integrated:
  assumes "integrated c4 Cmd" and "c4 \<in> {0x07, 0x53, 0x44, 0x64}" and "0 < n" and "n \<le> length Cmd"
  shows "Analysis P Cmd (int n) Oput m =
    (if bcc_accepts (segment 0 n Cmd)
     then bindE (integrated_handler P c4 (drop 4 Cmd) (int n) Oput m)
       (\<lambda>(_, Oput, m). Inr (4, Oput, m\<lparr>resetTimer := True\<rparr>))
     else Inr (4, Oput, m\<lparr>resetTimer := True\<rparr>))"
proof -
  note nth = integrated_nth [OF assms(1)]
  have l: "0 < length Cmd" "Suc 0 < length Cmd" "2 < length Cmd" "3 < length Cmd"
    using nth(1) by linarith+
  have n: "\<not> int n < 1"
    using assms(3) by simp
  note ev = Analysis_def Let_def rd_ok [OF l(1)] rd_ok [OF l(2)] rd_ok [OF l(3)] rd_ok [OF l(4)] rd_ok [OF nth(1)]
    nth(2-6) n checked_ok [OF assms(3,4)]
  have "Analysis P Cmd (int n) Oput m =
     bindE (checked Cmd (int n) (\<lambda>_. integrated_handler P c4 (drop 4 Cmd) (int n) Oput m) Oput m)
       (\<lambda>(Oput, m). Inr (4, Oput, m\<lparr>resetTimer := True\<rparr>))"
    using assms(2,3) by (auto simp: ev integrated_handler_def format_length_def)
  then show ?thesis
    unfolding checked_ok [OF assms(3,4)]
    by (cases "integrated_handler P c4 (drop 4 Cmd) (int n) Oput m") auto
qed

text \<open>
  The whole path of an integrated frame \<open>Cmd\<close> of \<open>n\<close> bytes (0xA4 at index 8, the integrated part
  from index 9, its own check byte last but one) from the selected client: the handler runs when
  the second check passes, and the reply goes out either way.
\<close>

definition second_check :: "byte list \<Rightarrow> nat \<Rightarrow> bool" where
  "second_check Cmd n \<longleftrightarrow> bcc_accepts (segment 9 (n - 10) Cmd)"

lemma CommunicationAnalysis_integrated:
  assumes "machine_ok m" and "mode_matches ip m" and "integrated c4 (drop 9 Cmd)" and "Cmd ! 8 = 0xA4"
    and "c4 \<in> {0x07, 0x53, 0x44, 0x64}" and "10 < n" and "n \<le> length Cmd"
    and "second_check Cmd n \<Longrightarrow>
      integrated_handler P c4 (drop 13 Cmd) (int n - 10) (replicate 512 0) m = Inr (r, a # b # rest, m') \<and>
      machine_ok m' \<and> Tcp1 m' = Tcp1 m \<and> Tcp2 m' = Tcp2 m \<and> Client1 m' = Client1 m \<and> Client2 m' = Client2 m"
    and "\<not> second_check Cmd n \<Longrightarrow> a = 0 \<and> b = 0 \<and> m' = m"
  shows "CommunicationAnalysis P Cmd (int n) ip m =
    Inr (m'\<lparr>machine_os := send_os (kernel P) (reply_frame (Cmd ! 3) [a, b]) (client_server ip m) (machine_os m'),
            resetTimer := True\<rparr>)"
proof -
  have f: "machine_ok m' \<and> Tcp1 m' = Tcp1 m \<and> Tcp2 m' = Tcp2 m \<and> Client1 m' = Client1 m \<and> Client2 m' = Client2 m"
    using assms(1,8,9) by (cases "second_check Cmd n") blast+
  let ?m1 = "m'\<lparr>resetTimer := True\<rparr>"
  have m1: "machine_ok ?m1" "known_client ip ?m1" "client_server ip ?m1 = client_server ip m"
    using f mode_matches_known [OF assms(2)]
    by (simp_all add: machine_ok_updates known_client_def client_server_def)
  have len: "0 < n - 10" "n - 10 \<le> length (drop 9 Cmd)" "int n - 10 = int (n - 10)"
    using assms(6,7) by simp_all
  have sc: "bcc_accepts (segment 0 (n - 10) (drop 9 Cmd)) = second_check Cmd n"
    by (simp add: second_check_def segment_def)
  obtain rest' where A: "Analysis P (drop 9 Cmd) (int n - 10) (replicate 512 0) m = Inr (4, a # b # rest', ?m1)"
  proof (cases "second_check Cmd n")
    case True
    have d: "drop 4 (drop 9 Cmd) = drop 13 Cmd"
      by simp
    have "integrated_handler P c4 (drop 13 Cmd) (int (n - 10)) (replicate 512 0) m = Inr (r, a # b # rest, m')"
      using assms(8) [OF True] unfolding len(3) by blast
    then have "Analysis P (drop 9 Cmd) (int n - 10) (replicate 512 0) m = Inr (4, a # b # rest, ?m1)"
      unfolding len(3) Analysis_integrated [OF assms(3,5) len(1,2)] d sc if_P [OF True] by simp
    then show ?thesis
      by (rule that)
  next
    case False
    then have z: "a = 0" "b = 0" "m' = m"
      using assms(9) by simp_all
    have "Analysis P (drop 9 Cmd) (int n - 10) (replicate 512 0) m = Inr (4, 0 # 0 # replicate 510 0, m\<lparr>resetTimer := True\<rparr>)"
      unfolding len(3) Analysis_integrated [OF assms(3,5) len(1,2)] sc if_not_P [OF False] replicate_512 by (rule refl)
    then show ?thesis
      using that [of "replicate 510 0"] by (simp only: z)
  qed
  define Type :: byte where "Type = (if c4 = 0x07 then 0xDF else 0xD4)"
  have T: "Type \<notin> {0xB0, 0xDC}"
    by (simp add: Type_def)
  have c13: "Cmd ! 13 = c4" "13 < length Cmd"
    using integrated_nth(1,6) [OF assms(3)] by simp_all
  have rds: "rd Cmd 3 = Inr (Cmd ! 3)" "rd Cmd 8 = Inr 0xA4" "rd Cmd 13 = Inr c4"
    using c13 assms(4) by (auto intro!: rd_ok [THEN trans])
  have "CommunicationAnalysis P Cmd (int n) ip m = reply P (Cmd ! 3) (Some Type) (a # b # rest') ip ?m1"
    using assms(2,5) by (auto simp: CommunicationAnalysis_def rds A Type_def Let_def)
  then show ?thesis
    using reply_ok [OF m1(1,2) T, of "a # b # rest'" a b rest' P "Cmd ! 3"] m1(3) by simp
qed

section \<open>An example machine\<close>

text \<open>A lane with two connected clients and open pins, on a kernel that answers 0 to every call.\<close>

definition example_pin :: "int \<Rightarrow> string \<Rightarrow> int \<Rightarrow> gpio" where
  "example_pin p m f = \<lparr>fd = Some f, Pin = p, PinName = the (pin_name p m), mode = m, isOpen = True\<rparr>"

definition example_junk :: Node_Data where
  "example_junk = \<lparr>status = False, Line = 0, QLED_Data_Len = 0, TimeOut = 0, QLED_Data = replicate 1024 0\<rparr>"

definition example_server :: "int \<Rightarrow> tcp_server" where
  "example_server f = \<lparr>connected = True, newfd = Some f, sockfd = Some 3, server_port = 5000\<rparr>"

definition example_platform :: "(unit, unit) platform" where
  "example_platform = \<lparr>kernel = (\<lambda>c w. ((0, []), w)), iconv_open_of = (\<lambda>_ _. None),
     iconv_of = (\<lambda>_ _ _. (False, [])), compound_of = (\<lambda>_ s. Inr s)\<rparr>"

definition example_machine :: "(unit, unit) machine" where
  "example_machine = \<lparr>Tcp1 = Some (example_server 21), Tcp2 = Some (example_server 22), Serial1 = None,
     VehicleDevice1 = example_pin 1 ''in'' 11, VehicleDevice2 = example_pin 2 ''in'' 12,
     VehicleDevice3 = example_pin 3 ''in'' 13, ManualSwitch = example_pin 4 ''in'' 14,
     Balustrade_up = example_pin 1 ''out'' 15, Balustrade_down = example_pin 2 ''out'' 16,
     TrafficPin = example_pin 3 ''out'' 17, FlashLight = example_pin 4 ''out'' 18,
     Led = QLED_new (Klist_new example_junk), Player = TTS_new (replicate 2048 0), communication = 2, LedMode = 2,
     Client1 = ''192.168.1.2'', Client2 = ''192.168.1.3'', IO4_manualSwitchStatus = 0,
     displayingDefaultContent = False, lastPlayTime = 0, resetTimer = False,
     balustradeThread = NotStarted, clock = 0, machine_os = \<lparr>world = (), calls = []\<rparr>\<rparr>"

lemma example_tasks: "tasks_ok (Klist_new example_junk)"
  by (simp add: tasks_ok_def Klist_new_ok contents_Klist_new example_junk_def)

lemma example_gpio: "1 \<le> p \<Longrightarrow> p \<le> 11 \<Longrightarrow> m \<in> {''out'', ''in''} \<Longrightarrow> 0 \<le> f \<Longrightarrow> gpio_ok (example_pin p m f)"
  by (auto simp: gpio_ok_def example_pin_def pin_name_def)

lemma example_ok: "machine_ok example_machine"
  by (simp add: machine_ok_def pins_ok_def example_machine_def example_gpio qled_ok_def QLED_new_def
      example_tasks example_server_def server_ok_def)

section \<open>Properties\<close>

text \<open>
  C1. A barrier command from the client that the mode switch selects: the controller first ends a
  pulse that is still running, then drives exactly the two motor outputs, lowering as (up off, down
  on) and raising as (up on, down off), leaves the thread that ends the pulse running, and answers
  that client, if connected, with one frame that carries 0xA3 and the state of the barrier. From
  the other client the command touches no output and is answered with two zero bytes.
\<close>

theorem barrier_command_effects:
  assumes "machine_ok m" and "known_client ip m" and "9 < length Cmd" and "Cmd ! 8 = 0xA3" and "1 \<le> n"
  shows "\<exists>m'. CommunicationAnalysis P Cmd n ip m = Inr m' \<and> machine_ok m' \<and>
    (mode_matches ip m \<longrightarrow>
       calls (machine_os m') = calls (machine_os m) @
         (if balustradeThread m = Running then motor_calls m False False else []) @
         (if Cmd ! 9 = 0 then motor_calls m False True
          else if Cmd ! 9 = 1 then motor_calls m True False else []) @
         send_calls (client_server ip m) (reply_frame (Cmd ! 3)
           [0xA3, if Cmd ! 9 = 0 then 3 else if Cmd ! 9 = 1 then 2 else 0]) \<and>
       balustradeThread m' = (if Cmd ! 9 \<in> {0, 1} then Running else NotStarted)) \<and>
    (\<not> mode_matches ip m \<longrightarrow>
       calls (machine_os m') = calls (machine_os m) @
         send_calls (client_server ip m) (reply_frame (Cmd ! 3) [0, 0]) \<and>
       balustradeThread m' = balustradeThread m)"
proof (cases "mode_matches ip m")
  case True
  let ?m' = "(after_barrier (kernel P) (Cmd ! 9) m)\<lparr>resetTimer := True\<rparr>"
  let ?fr = "reply_frame (Cmd ! 3) [0xA3, if Cmd ! 9 = 0 then 3 else if Cmd ! 9 = 1 then 2 else 0]"
  let ?m2 = "?m'\<lparr>machine_os := send_os (kernel P) ?fr (client_server ip m) (machine_os ?m')\<rparr>"
  have "machine_ok ?m2"
    using assms(1) after_barrier_fields(1) [of "kernel P" "Cmd ! 9" m] by (simp add: machine_ok_def pins_ok_def)
  then show ?thesis
    using True barrier_command_lemma [OF assms(1) True assms(3-5), of P]
      calls_after_barrier [of "kernel P" "Cmd ! 9" m] pins_after_barrier(5) [of "kernel P" "Cmd ! 9" m]
    by (intro exI [of _ ?m2]) (simp add: Let_def motor_request_def)
next
  case False
  have "Cmd ! 8 \<in> {0xA3, 0xAE}"
    using assms(4) by simp
  from wrong_mode_lemma [OF assms(1,2) False assms(3) this, of P n] False assms(1) show ?thesis
    by (simp add: machine_ok_def pins_ok_def)
qed

theorem barrier_command_effects_witness:
  "\<exists>m'. CommunicationAnalysis example_platform [0xFF, 0xFF, 0, 0x10, 0, 0, 0, 2, 0xA3, 1, 0xB0] 11 ''192.168.1.2''
      example_machine = Inr m' \<and>
    calls (machine_os m') = [Write_fd 15 (level_bytes True), Write_fd 16 (level_bytes False),
      Send_sock 21 (reply_frame 0x10 [0xA3, 2])]"
proof -
  let ?Cmd = "[0xFF, 0xFF, 0, 0x10, 0, 0, 0, 2, 0xA3, 1, 0xB0] :: byte list"
  have k: "known_client ''192.168.1.2'' example_machine" and m: "mode_matches ''192.168.1.2'' example_machine"
    by (simp_all add: known_client_def mode_matches_def example_machine_def)
  have "9 < length ?Cmd" and "?Cmd ! 8 = 0xA3" and "(1 :: int) \<le> 11"
    by simp_all
  from barrier_command_effects [OF example_ok k this, of example_platform] m show ?thesis
    by (auto simp: example_machine_def motor_calls_def pin_calls_def example_pin_def send_calls_def
        client_server_def example_server_def)
qed

text \<open>
  The two motor outputs are never asked to be on at the same time: at no moment of any
  sequence of barrier commands, pulse ends and other activity is the level last written to both
  outputs high, if both start low; and when no pulse is running both are low.
\<close>

theorem motor_outputs_exclusive:
  assumes "(motor_step P)\<^sup>*\<^sup>* m m'" and "motor_inv u d m" and "u \<noteq> d"
  shows "never_both u d (calls (machine_os m')) \<and>
    (balustradeThread m' \<noteq> Running \<longrightarrow>
       \<not> level u (calls (machine_os m')) \<and> \<not> level d (calls (machine_os m')))"
proof -
  have "motor_inv u d m'"
    using assms(1,2) by (induction rule: rtranclp_induct) (use motor_step_inv [OF _ _ assms(3)] in blast)+
  then show ?thesis
    by (simp add: motor_inv_def)
qed

theorem motor_outputs_exclusive_witness:
  "motor_inv 15 16 example_machine \<and>
   (\<exists>m'. (motor_step example_platform)\<^sup>*\<^sup>* example_machine m' \<and> balustradeThread m' = Running \<and>
      never_both 15 16 (calls (machine_os m')))"
proof -
  have i: "motor_inv 15 16 example_machine"
    using example_ok by (simp add: motor_inv_def machine_ok_def never_both_def level_def example_machine_def example_pin_def)
  let ?m' = "after_barrier (kernel example_platform) ([0xA3, 1] ! 1) example_machine"
  have "pins_ok example_machine"
    using example_ok by (simp add: machine_ok_def)
  then have "BalusTrade example_platform [0xA3, 1] 2 [0, 0] example_machine =
      Inr (4, motor_answer ([0xA3, 1] ! 1) ([0, 0] [0 := [0xA3, 1] ! 0]), ?m')"
    by (rule BalusTrade_ok) simp
  then have "motor_step example_platform example_machine ?m'"
    by (intro motor_step.command [of "[0xA3, 1]"]) simp_all
  then have r: "(motor_step example_platform)\<^sup>*\<^sup>* example_machine ?m'"
    by blast
  have "balustradeThread ?m' = Running"
    by (simp add: after_barrier_def)
  moreover have "(15 :: int) \<noteq> 16"
    by simp
  ultimately show ?thesis
    using i r motor_outputs_exclusive [OF r i] by blast
qed

text \<open>
  The traffic light follows the selected client's command, 1 for red (output off) and 0 for
  green (output on), and is answered with 0xDE and the state; the other client cannot switch it.
\<close>

theorem traffic_command_effects:
  assumes "machine_ok m" and "known_client ip m" and "9 < length Cmd" and "Cmd ! 8 = 0xAE" and "1 \<le> n"
  shows "\<exists>m'. CommunicationAnalysis P Cmd n ip m = Inr m' \<and> machine_ok m' \<and>
    calls (machine_os m') = calls (machine_os m) @
      (if mode_matches ip m then
         (if Cmd ! 9 = 1 then pin_calls (TrafficPin m) False
          else if Cmd ! 9 = 0 then pin_calls (TrafficPin m) True else []) @
         send_calls (client_server ip m) (reply_frame (Cmd ! 3) [0xDE, if Cmd ! 9 = 1 then 1 else 0])
       else send_calls (client_server ip m) (reply_frame (Cmd ! 3) [0, 0]))"
proof (cases "mode_matches ip m")
  case True
  show ?thesis
    using True lamp_command_lemma [OF assms(1) True assms(3-5), of P] assms(1)
    by (simp add: machine_ok_def pins_ok_def lamp_request_def)
next
  case False
  have "Cmd ! 8 \<in> {0xA3, 0xAE}"
    using assms(4) by simp
  from wrong_mode_lemma [OF assms(1,2) False assms(3) this, of P n] False assms(1) show ?thesis
    by (simp add: machine_ok_def pins_ok_def)
qed

theorem traffic_command_effects_witness:
  "\<exists>m'. CommunicationAnalysis example_platform [0xFF, 0xFF, 0, 0x20, 0, 0, 0, 2, 0xAE, 0, 0x8C] 11 ''192.168.1.3''
      example_machine = Inr m' \<and>
    calls (machine_os m') = [Send_sock 22 (reply_frame 0x20 [0, 0])]"
proof -
  let ?Cmd = "[0xFF, 0xFF, 0, 0x20, 0, 0, 0, 2, 0xAE, 0, 0x8C] :: byte list"
  have k: "known_client ''192.168.1.3'' example_machine" and m: "\<not> mode_matches ''192.168.1.3'' example_machine"
    by (simp_all add: known_client_def mode_matches_def example_machine_def)
  have "9 < length ?Cmd" and "?Cmd ! 8 = 0xAE" and "(1 :: int) \<le> 11"
    by simp_all
  from traffic_command_effects [OF example_ok k this, of example_platform] m show ?thesis
    by (auto simp: example_machine_def send_calls_def client_server_def example_server_def)
qed

lemma display_command_lemma:
  assumes "machine_ok m" and "mode_matches ip m" and "DisplayMode (Led m) \<noteq> 0"
    and "integrated c4 (drop 9 Cmd)" and "Cmd ! 8 = 0xA4" and "c4 = 0x44 \<and> n = 58 \<or> c4 = 0x64 \<and> n = 87"
    and "n \<le> length Cmd" and "second_check Cmd n"
  shows "\<exists>m'. CommunicationAnalysis P Cmd (int n) ip m = Inr m' \<and> machine_ok m' \<and>
    screen (Led m') = shown_rows c4 (drop 13 Cmd) (screen (Led m)) \<and> comm (Led m') = comm (Led m) \<and>
    displayingDefaultContent m' = False \<and> resetTimer m' \<and> lastPlayTime m' = clock m \<and>
    calls (machine_os m') = calls (machine_os m) @
      send_calls (client_server ip m) (reply_frame (Cmd ! 3) [0xD4, 0x03])"
proof -
  have c4: "c4 \<in> {0x44, 0x64}" and len: "format_length c4 \<le> int (length (drop 13 Cmd))" and n: "10 < n"
    using assms(6,7) by (auto simp: format_length_def)
  have c4': "c4 \<in> {0x07, 0x53, 0x44, 0x64}" and q: "qled_ok (Led m)"
    using c4 assms(1) by (auto simp: machine_ok_def)
  have d0: "drop 13 Cmd ! 0 = c4"
    using integrated_nth(1,6) [OF assms(4)] by simp
  obtain led' where led: "DisplayControl (drop 13 Cmd) (format_length c4) (replicate 512 0) m =
      Inr (4, (replicate 512 0)[0 := 0xD4, 1 := 3],
        m\<lparr>displayingDefaultContent := False, resetTimer := True, lastPlayTime := clock m, Led := led'\<rparr>)"
      "qled_ok led'" "comm led' = comm (Led m)" "screen led' = shown_rows c4 (drop 13 Cmd) (screen (Led m))"
    using DisplayControl_ok [OF q assms(3) c4 d0 len] by blast
  let ?m' = "m\<lparr>displayingDefaultContent := False, resetTimer := True, lastPlayTime := clock m, Led := led'\<rparr>"
  have m': "machine_ok ?m'"
    using assms(1) led(2) by (simp add: machine_ok_updates)
  have h: "integrated_handler P c4 (drop 13 Cmd) (int n - 10) (replicate 512 0) m =
      Inr (4, 0xD4 # 3 # replicate 510 0, ?m')"
    using c4 led(1) by (auto simp: integrated_handler_def replicate_512)
  have "CommunicationAnalysis P Cmd (int n) ip m =
    Inr (?m'\<lparr>machine_os := send_os (kernel P) (reply_frame (Cmd ! 3) [0xD4, 3]) (client_server ip m) (machine_os ?m'),
            resetTimer := True\<rparr>)"
    by (rule CommunicationAnalysis_integrated [OF assms(1,2,4,5) c4' n assms(7)]) (use h m' assms(8) in simp_all)
  then show ?thesis
    using assms(1) led(2-4) by (simp add: machine_ok_updates)
qed


text \<open>
  C12. A display command from the selected client, in either format, whose integrated part passes
  its own check, replaces exactly the rows of that format, each by the slice of the command that
  belongs to it in its colour, sets the brightness, stops the default content and restarts its
  timer; no pin is touched. The reply always says 0x03, display failed: the success flag that
  would answer 0x02 is never set.
\<close>

theorem display_command_effects:
  assumes "machine_ok m" and "mode_matches ip m" and "DisplayMode (Led m) \<noteq> 0"
    and "integrated c4 (drop 9 Cmd)" and "Cmd ! 8 = 0xA4" and "c4 = 0x44 \<and> n = 58 \<or> c4 = 0x64 \<and> n = 87"
    and "n \<le> length Cmd" and "second_check Cmd n"
  shows "\<exists>m'. CommunicationAnalysis P Cmd (int n) ip m = Inr m' \<and> machine_ok m' \<and>
    screen (Led m') = shown_rows c4 (drop 13 Cmd) (screen (Led m)) \<and>
    displayingDefaultContent m' = False \<and> resetTimer m' \<and> lastPlayTime m' = clock m \<and>
    calls (machine_os m') = calls (machine_os m) @
      send_calls (client_server ip m) (reply_frame (Cmd ! 3) [0xD4, 0x03])"
  using display_command_lemma [OF assms, of P] by blast

text \<open>
  The flash-light command can only silence the lamp: whatever its parameter byte, the handler
  compares the command code 0x07 with 0x01, so the lamp is switched off and the answer is 0x04.
\<close>

theorem flash_command_always_off:
  assumes "machine_ok m" and "mode_matches ip m" and "integrated 0x07 (drop 9 Cmd)" and "Cmd ! 8 = 0xA4"
    and "23 \<le> length Cmd" and "second_check Cmd 23"
  shows "\<exists>m'. CommunicationAnalysis P Cmd 23 ip m = Inr m' \<and> machine_ok m' \<and>
    calls (machine_os m') = calls (machine_os m) @ pin_calls (FlashLight m) False @
      send_calls (client_server ip m) (reply_frame (Cmd ! 3) [0xDF, 0x04])"
proof -
  let ?m' = "m\<lparr>machine_os := pin_os (kernel P) (FlashLight m) False (machine_os m)\<rparr>"
  have g: "gpio_ok (FlashLight m)"
    using assms(1) by (simp add: machine_ok_def pins_ok_def)
  have "13 < length Cmd" and "Cmd ! 13 = 0x07"
    using integrated_nth(1,6) [OF assms(3)] by simp_all
  then have h: "integrated_handler P 0x07 (drop 13 Cmd) (int 23 - 10) (replicate 512 0) m =
      Inr (4, 0xDF # 4 # replicate 510 0, ?m')"
    by (simp add: integrated_handler_def FlashLightControl_def pin_simps g replicate_512 Let_def)
  have "CommunicationAnalysis P Cmd (int 23) ip m =
    Inr (?m'\<lparr>machine_os := send_os (kernel P) (reply_frame (Cmd ! 3) [0xDF, 4]) (client_server ip m) (machine_os ?m'),
            resetTimer := True\<rparr>)"
    by (rule CommunicationAnalysis_integrated [OF assms(1-4)])
      (use h assms(1,5,6) in \<open>simp_all add: machine_ok_updates\<close>)
  then show ?thesis
    using assms(1) by (simp add: machine_ok_updates)
qed

text \<open>Integrated frames for the witnesses: header, integrated part with its check byte, final byte.\<close>

definition example_frame :: "byte list \<Rightarrow> byte list" where
  "example_frame part = [0xFF, 0xFF, 0, 0x30, 0, 0, 0, word_of_nat (length part + 1), 0xA4] @
     bcc.seal 0 part @ [0]"

lemma example_frame_simps:
  assumes "part = 0xA0 # 0xB0 # 0xC0 # 0xD0 # c4 # rest"
  shows "integrated c4 (drop 9 (example_frame part))" and "example_frame part ! 8 = 0xA4"
    and "length (example_frame part) = length part + 11"
    and "second_check (example_frame part) (length part + 11)"
    and "example_frame part ! 3 = 0x30"
proof -
  show "integrated c4 (drop 9 (example_frame part))" and "example_frame part ! 8 = 0xA4"
    and "length (example_frame part) = length part + 11" and "example_frame part ! 3 = 0x30"
    by (simp_all add: assms example_frame_def integrated_def segment_def bcc.seal_def)
  have "segment 9 (length part + 1) (example_frame part) = bcc.seal 0 part"
    by (simp add: example_frame_def segment_def bcc.seal_def)
  then show "second_check (example_frame part) (length part + 11)"
    using bcc.accepts_seal [of 0 part] by (simp add: second_check_def)
qed

lemma example_mode: "mode_matches ''192.168.1.2'' example_machine"
  by (simp add: mode_matches_def example_machine_def)

theorem display_command_effects_witness:
  "\<exists>m'. CommunicationAnalysis example_platform
      (example_frame ([0xA0, 0xB0, 0xC0, 0xD0, 0x44, 5, 0, 1, 1, 1] @ replicate 37 0x41)) (int 58)
      ''192.168.1.2'' example_machine = Inr m' \<and>
    calls (machine_os m') = [Send_sock 21 (reply_frame 0x30 [0xD4, 0x03])]"
proof -
  let ?part = "[0xA0, 0xB0, 0xC0, 0xD0, 0x44, 5, 0, 1, 1, 1] @ replicate 37 (0x41 :: byte)"
  let ?f = "example_frame ?part"
  have p: "?part = 0xA0 # 0xB0 # 0xC0 # 0xD0 # 0x44 # [5, 0, 1, 1, 1] @ replicate 37 0x41"
    by simp
  note e = example_frame_simps [OF p]
  have l: "58 \<le> length ?f" "second_check ?f 58"
    using e(3,4) by simp_all
  have d: "DisplayMode (Led example_machine) \<noteq> 0" and c: "(0x44 :: byte) = 0x44 \<and> (58 :: nat) = 58 \<or> (0x44 :: byte) = 0x64 \<and> (58 :: nat) = 87"
    by (simp_all add: example_machine_def QLED_new_def)
  obtain m' where m': "CommunicationAnalysis example_platform ?f (int 58) ''192.168.1.2'' example_machine = Inr m'"
      "calls (machine_os m') = calls (machine_os example_machine) @
        send_calls (client_server ''192.168.1.2'' example_machine) (reply_frame (?f ! 3) [0xD4, 0x03])"
    using display_command_effects [OF example_ok example_mode d e(1,2) c l, of example_platform] by blast
  have "calls (machine_os m') = [Send_sock 21 (reply_frame 0x30 [0xD4, 0x03])]"
    unfolding m'(2) e(5) by (simp add: example_machine_def send_calls_def client_server_def example_server_def)
  with m'(1) show ?thesis
    by blast
qed

theorem flash_command_always_off_witness:
  "\<exists>m'. CommunicationAnalysis example_platform (example_frame [0xA0, 0xB0, 0xC0, 0xD0, 0x07, 1, 0, 0, 0, 0, 0, 0]) 23
      ''192.168.1.2'' example_machine = Inr m' \<and>
    calls (machine_os m') = [Write_fd 18 (level_bytes False), Send_sock 21 (reply_frame 0x30 [0xDF, 0x04])]"
proof -
  let ?part = "[0xA0, 0xB0, 0xC0, 0xD0, 0x07, 1, 0, 0, 0, 0, 0, 0] :: byte list"
  let ?f = "example_frame ?part"
  note e = example_frame_simps [of ?part "0x07" "[1, 0, 0, 0, 0, 0, 0]", OF refl]
  have l: "23 \<le> length ?f" "second_check ?f 23"
    using e(3,4) by simp_all
  obtain m' where m': "CommunicationAnalysis example_platform ?f 23 ''192.168.1.2'' example_machine = Inr m'"
      "calls (machine_os m') = calls (machine_os example_machine) @ pin_calls (FlashLight example_machine) False @
        send_calls (client_server ''192.168.1.2'' example_machine) (reply_frame (?f ! 3) [0xDF, 0x04])"
    using flash_command_always_off [OF example_ok example_mode e(1,2) l, of example_platform] by blast
  have "calls (machine_os m') = [Write_fd 18 (level_bytes False), Send_sock 21 (reply_frame 0x30 [0xDF, 0x04])]"
    unfolding m'(2) e(5) by (simp add: example_machine_def send_calls_def client_server_def example_server_def
      pin_calls_def example_pin_def)
  with m'(1) show ?thesis
    by blast
qed

text \<open>
  C37. A voice command from the selected client, whose phrases come to fewer than 256 bytes (the array of the handler; five
  phrases always fit), becomes the text to play and is answered with 0x04. If the thread of the previous text is still running, the handler first waits
  for its end, so the command takes effect only when that synthesis ends (\<open>s1\<close> is the state it leaves; without such a thread,
  the state of the command). Then it asks for the player's process when a thread had been started before, kills the player when
  it is found, and sets the volume; the volume is not the command's: the handler reads it from the command code, so it always
  asks the mixer for 830.
\<close>

theorem voice_command_effects:
  assumes "machine_ok m" and "mode_matches ip m" and "integrated 0x53 (drop 9 Cmd)" and "Cmd ! 8 = 0xA4"
    and "19 \<le> n" and "n \<le> length Cmd" and "second_check Cmd n"
    and "length (concat (map voice_phrase (segment 15 (n - 19) Cmd))) < 256"
    and "join_player (compound_of P) (Player m) (machine_os m) = Inr s1"
  shows "\<exists>m'. CommunicationAnalysis P Cmd (int n) ip m = Inr m' \<and> machine_ok m' \<and>
    c_string (m_text (Player m')) = concat (map voice_phrase (segment 15 (n - 19) Cmd)) \<and>
    m_thread (Player m') = Running \<and>
    calls (machine_os m') = calls s1 @ stop_calls (kernel P) (Player m) s1 @ System (bytes_of ''amixer set Master 830'') #
      send_calls (client_server ip m) (reply_frame (Cmd ! 3) [0xD4, 0x04])"
proof -
  let ?txt = "concat (map voice_phrase (segment 15 (n - 19) Cmd))"
  have seg: "segment 2 (n - 19) (drop 13 Cmd) = segment 15 (n - 19) Cmd"
    by (simp add: segment_drop)
  have n17: "int n - 17 \<le> int (length (drop 13 Cmd))" "nat (int n - 17) - 2 = n - 19"
    using assms(5,6) by simp_all
  have vt: "voice_text (drop 13 Cmd) (int n - 17) = Inr ?txt"
    using voice_text_conv [OF n17(1)] assms(8) unfolding n17(2) seg by (simp add: Let_def)
  have z: "0 \<notin> set ?txt"
    using voice_text_nonzero [OF vt n17(1)] by blast
  have c0: "13 < length Cmd" "Cmd ! 13 = 0x53"
    using integrated_nth(1,6) [OF assms(3)] by simp_all
  have eight30: "''amixer set Master '' @ to_string (uint (0x53 :: byte)) @ ''0'' = ''amixer set Master 830''"
    by (simp add: to_string_def dec_nat.simps char_of_def bit_0)
  have "length ?txt < 2048"
    using assms(8) by simp
  from speech_playback_utf8 [OF z this assms(9), of "kernel P" "iconv_open_of P" "iconv_of P" "uint (0x53 :: byte)"
      "replicate (256 - length ?txt) 0", unfolded eight30]
  obtain t' s' where sp: "speech_playback (kernel P) (iconv_open_of P) (iconv_of P) (compound_of P) 1
        (uint (0x53 :: byte)) (?txt @ replicate (256 - length ?txt) 0) (int (length ?txt)) (Player m) (machine_os m) =
        Inr (t', s')" "c_string (m_text t') = ?txt" "m_thread t' = Running"
      "calls s' = calls s1 @ stop_calls (kernel P) (Player m) s1 @ [System (bytes_of ''amixer set Master 830'')]"
    by blast
  let ?m' = "m\<lparr>Player := t', machine_os := s'\<rparr>"
  have "rd (drop 13 Cmd) 0 = Inr 0x53"
    using c0 by (auto intro!: rd_ok [THEN trans])
  then have h: "integrated_handler P 0x53 (drop 13 Cmd) (int n - 10) (replicate 512 0) m =
      Inr (4, 0xD4 # 4 # replicate 510 0, ?m')"
    using sp(1) vt by (simp add: integrated_handler_def DisplayVoice_def replicate_512 Let_def)
  have "CommunicationAnalysis P Cmd (int n) ip m =
    Inr (?m'\<lparr>machine_os := send_os (kernel P) (reply_frame (Cmd ! 3) [0xD4, 4]) (client_server ip m) (machine_os ?m'),
            resetTimer := True\<rparr>)"
    by (rule CommunicationAnalysis_integrated [OF assms(1-4)])
      (use h assms(1,5,6,7) in \<open>simp_all add: machine_ok_updates\<close>)
  then show ?thesis
    using assms(1) sp(2-4) by (simp add: machine_ok_updates)
qed

theorem voice_command_effects_witness:
  "\<exists>m'. CommunicationAnalysis example_platform (example_frame [0xA0, 0xB0, 0xC0, 0xD0, 0x53, 8, 0x22, 0x25, 0, 0, 0])
      (int 22) ''192.168.1.2'' example_machine = Inr m' \<and>
    c_string (m_text (Player m')) = voice_phrase 0x22 @ voice_phrase 0x25 @ voice_phrase 0 \<and>
    calls (machine_os m') = [System (bytes_of ''amixer set Master 830''), Send_sock 21 (reply_frame 0x30 [0xD4, 4])]"
proof -
  let ?part = "[0xA0, 0xB0, 0xC0, 0xD0, 0x53, 8, 0x22, 0x25, 0, 0, 0] :: byte list"
  let ?f = "example_frame ?part"
  note e = example_frame_simps [of ?part "0x53" "[8, 0x22, 0x25, 0, 0, 0]", OF refl]
  have l: "(19 :: nat) \<le> 22" "22 \<le> length ?f" "second_check ?f 22"
    using e(3,4) by simp_all
  have seg: "segment 15 (22 - 19) ?f = [0x22, 0x25, 0]"
    by (simp add: example_frame_def segment_def bcc.seal_def)
  have "length (concat (map voice_phrase (segment 15 (22 - 19) ?f))) < 256"
    using length_concat_phrases [of "segment 15 (22 - 19) ?f"] unfolding seg by simp
  moreover have j: "join_player (compound_of example_platform) (Player example_machine) (machine_os example_machine) =
      Inr (machine_os example_machine)" "stop_calls (kernel example_platform) (Player example_machine) s = []" for s
    by (simp_all add: join_player_def stop_calls_def joinable_def example_machine_def TTS_new_def)
  moreover have "calls (machine_os example_machine) = []" and "send_calls (client_server ''192.168.1.2'' example_machine) fr = [Send_sock 21 fr]" for fr
    by (simp_all add: example_machine_def send_calls_def client_server_def example_server_def)
  ultimately show ?thesis
    using voice_command_effects [OF example_ok example_mode e(1,2) l _ j(1)] unfolding seg e(5) by auto
qed

text \<open>
  A display, voice or flash command from a client that the mode switch does not select is
  answered with a frame type that was never assigned: an uninitialised variable is passed on.
\<close>

theorem wrong_mode_display_uninitialised:
  assumes "known_client ip m" and "\<not> mode_matches ip m" and "8 < length Cmd" and "Cmd ! 8 = 0xA4"
  shows "CommunicationAnalysis P Cmd n ip m = Inl Uninitialised"
  using assms by (auto simp: CommunicationAnalysis_def reply_def known_client_def Let_def)

theorem wrong_mode_display_uninitialised_witness:
  "CommunicationAnalysis example_platform (example_frame [0xA0, 0xB0, 0xC0, 0xD0, 0x44]) 58 ''192.168.1.3''
     example_machine = Inl Uninitialised"
proof -
  have k: "known_client ''192.168.1.3'' example_machine" and m: "\<not> mode_matches ''192.168.1.3'' example_machine"
    by (simp_all add: known_client_def mode_matches_def example_machine_def)
  let ?f = "example_frame [0xA0, 0xB0, 0xC0, 0xD0, 0x44]"
  have "8 < length ?f" and "?f ! 8 = 0xA4"
    by (simp_all add: example_frame_def bcc.seal_def)
  from wrong_mode_display_uninitialised [OF k m this] show ?thesis .
qed

text \<open>
  C26. Every frame the controller sends passes the check its own receiver applies: a reply carries
  its data with their length and the sequence number divided by ten; a heartbeat is one constant
  frame, whatever the sequence number.
\<close>

theorem sent_frames_pass_check:
  assumes "Type \<noteq> 0xB0" and "length data \<le> (if Type = 0xDC then 3 else 2)"
    and "(if Type = 0xDC then 3 else 2) \<le> length (data @ rest)"
  shows "\<exists>fr. send_frame TxSEQ Type (data @ rest) (length data) = Inr fr \<and> length fr = length data + 9 \<and>
    take 3 fr = [0xFF, 0xFF, 0] \<and> fr ! 3 = TxSEQ div 10 \<and> unat (fr ! 7) = length data \<and>
    segment 8 (length data) fr = data \<and>
    BCCDataCheck fr 2 (int (length fr) - 2) 0 = Inr 1 \<and>
    send_frame TxSEQ 0xB0 data n = Inr heartbeat_frame \<and> BCCDataCheck heartbeat_frame 2 8 0 = Inr 1"
proof -
  let ?fr = "reply_frame TxSEQ data"
  have chk: "BCCDataCheck (bcc.seal 2 body) 2 (int (length (bcc.seal 2 body)) - 2) 0 = Inr 1" if "2 \<le> length body" for body
  proof -
    have "int (length (bcc.seal 2 body)) - 2 = int (length body - 1)"
      using that by simp
    then show ?thesis
      using BCCDataCheck_accepts [of "length body - 1" 2 "bcc.seal 2 body"] bcc.accepts_seal [OF that] that
      by (simp add: segment_def)
  qed
  have "length data < 256"
    using assms(2) by (simp split: if_splits)
  then have l7: "unat (word_of_nat (length data mod 256) :: byte) = length data"
    by (simp add: unat_of_nat take_bit_nat_eq_self)
  have hb: "heartbeat_frame = bcc.seal 2 [0xFF, 0xFF, 0x00, 0x09, 0x00, 0x00, 0x00, 0x01, 0xB0]"
    by (simp add: heartbeat_frame_def bcc.seal_def bcc_compute_xors)
  have "BCCDataCheck heartbeat_frame 2 8 0 = Inr 1"
    using chk [of "[0xFF, 0xFF, 0x00, 0x09, 0x00, 0x00, 0x00, 0x01, 0xB0]"] unfolding hb by simp
  moreover have "BCCDataCheck ?fr 2 (int (length ?fr) - 2) 0 = Inr 1"
    unfolding reply_frame_def by (rule chk) simp
  moreover have "length ?fr = length data + 9" "take 3 ?fr = [0xFF, 0xFF, 0]" "?fr ! 3 = TxSEQ div 10"
      "?fr ! 7 = word_of_nat (length data mod 256)" "segment 8 (length data) ?fr = data"
    by (simp_all add: reply_frame_def bcc.seal_def segment_def)
  ultimately show ?thesis
    using send_frame_ok [OF assms, of TxSEQ] send_frame_heartbeat l7 by auto
qed

theorem sent_frames_pass_check_witness:
  "\<exists>fr. send_frame 0x30 0xDC [0xDC, 0x00, 0x05] 3 = Inr fr \<and> BCCDataCheck fr 2 (int (length fr) - 2) 0 = Inr 1"
proof -
  let ?data = "[0xDC, 0x00, 0x05] :: byte list"
  have l: "length ?data = 3" and h: "(0xDC :: byte) \<noteq> 0xB0" "length ?data \<le> (if (0xDC :: byte) = 0xDC then 3 else 2)"
      "(if (0xDC :: byte) = 0xDC then 3 else 2) \<le> length (?data @ [])"
    by simp_all
  from sent_frames_pass_check [OF h, of "0x30" 0] show ?thesis
    unfolding l append_Nil2 by blast
qed

end
