(* ===== verification/Receive.thy ===== *)
theory Receive
  imports Machine Frame_Stream
begin

text \<open>
  \<open>ReceiveCmd1\<close> and \<open>ReceiveCmd2\<close> (src/IMachine.cpp) as a whole: read from the serial port or from the
  socket of the connection, parse (theory \<open>Framing\<close>), hand every frame to \<open>CommunicationAnalysis\<close> under
  the name of the connection's client, and close the connection when the read fails. The two functions
  are one definition, with the number of the connection as an argument.

  The loop ends only when the connection does, so it takes a number of turns as fuel; the answer
  False says that it is still running.
\<close>

section \<open>The code\<close>

definition server_of :: "nat \<Rightarrow> ('c, 'w) machine \<Rightarrow> tcp_server option" where
  "server_of k m = (if k = 1 then Tcp1 m else Tcp2 m)"

definition set_server :: "nat \<Rightarrow> tcp_server \<Rightarrow> ('c, 'w) machine \<Rightarrow> ('c, 'w) machine" where
  "set_server k t m = (if k = 1 then m\<lparr>Tcp1 := Some t\<rparr> else m\<lparr>Tcp2 := Some t\<rparr>)"

definition client_of :: "nat \<Rightarrow> ('c, 'w) machine \<Rightarrow> string" where
  "client_of k m = (if k = 1 then Client1 m else Client2 m)"

text \<open>The bytes of a read; bytes that the kernel claims to have stored but did not are not initialised.\<close>

definition read_bytes :: "int \<times> byte list \<Rightarrow> byte list res" where
  "read_bytes r = (if length (snd r) < nat (fst r) then Inl Uninitialised else Inr (take (nat (fst r)) (snd r)))"

text \<open>The head of the loop: \<open>None\<close> is \<open>return false\<close>.\<close>

definition receive_read ::
  "nat \<Rightarrow> ('w, 'cd) platform \<Rightarrow> ('c, 'w) machine \<Rightarrow> (byte list option \<times> ('c, 'w) machine) res" where
  "receive_read k P m =
     (if communication m = 0
      then case Serial1 m of
             None \<Rightarrow> Inl Uninitialised
           | Some t \<Rightarrow>
               bindE (SerialPort_Recv (kernel P) 2048 t (machine_os m)) (\<lambda>(ret, t, s).
               if fst ret \<le> 0
               then bindE (SerialPort_Close (kernel P) t s) (\<lambda>(_, t, s).
                    Inr (None, m\<lparr>Serial1 := Some t, machine_os := s\<rparr>))
               else bindE (read_bytes ret) (\<lambda>c. Inr (Some c, m\<lparr>Serial1 := Some t, machine_os := s\<rparr>)))
      else if communication m = 2
      then case server_of k m of
             None \<Rightarrow> Inl Uninitialised
           | Some t \<Rightarrow>
               bindE (RecvByte (kernel P) 2048 t (machine_os m)) (\<lambda>(ret, s).
               if fst ret \<le> 0
               then bindE (TcpServer_Close (kernel P) t s) (\<lambda>(_, t, s).
                    Inr (None, (set_server k t m)\<lparr>machine_os := s\<rparr>))
               else bindE (read_bytes ret) (\<lambda>c. Inr (Some c, m\<lparr>machine_os := s\<rparr>)))
      else Inr (None, m))"

definition handle_frame ::
  "nat \<Rightarrow> ('w, 'cd) platform \<Rightarrow> byte list \<Rightarrow> int \<Rightarrow> ('c, 'w) machine \<Rightarrow> ('c, 'w) machine res" where
  "handle_frame k P buf n m = CommunicationAnalysis P buf n (client_of k m) m"

fun receive_loop ::
  "nat \<Rightarrow> nat \<Rightarrow> ('w, 'cd) platform \<Rightarrow> rx \<times> ('c, 'w) machine \<Rightarrow> (bool \<times> rx \<times> ('c, 'w) machine) res" where
  "receive_loop 0 k P (r, m) = Inr (False, r, m)"
| "receive_loop (Suc fuel) k P (r, m) =
     bindE (receive_read k P m) (\<lambda>(c, m).
     case c of
       None \<Rightarrow> Inr (True, r, m)
     | Some chunk \<Rightarrow> bindE (recv_chunk (handle_frame k P) chunk r m) (receive_loop fuel k P))"

definition ReceiveCmd1 ::
  "('w, 'cd) platform \<Rightarrow> byte list \<Rightarrow> nat \<Rightarrow> ('c, 'w) machine \<Rightarrow> (bool \<times> rx \<times> ('c, 'w) machine) res" where
  "ReceiveCmd1 P junk fuel m = receive_loop fuel 1 P (rx_start junk, m)"

definition ReceiveCmd2 ::
  "('w, 'cd) platform \<Rightarrow> byte list \<Rightarrow> nat \<Rightarrow> ('c, 'w) machine \<Rightarrow> (bool \<times> rx \<times> ('c, 'w) machine) res" where
  "ReceiveCmd2 P junk fuel m = receive_loop fuel 2 P (rx_start junk, m)"

text \<open>One turn of \<open>TcpserverFunc1\<close> and \<open>TcpserverFunc2\<close>: nothing while the server has no client.\<close>

definition TcpserverFunc1_round ::
  "('w, 'cd) platform \<Rightarrow> byte list \<Rightarrow> nat \<Rightarrow> ('c, 'w) machine \<Rightarrow> ('c, 'w) machine res" where
  "TcpserverFunc1_round P junk fuel m =
     (case Tcp1 m of
        None \<Rightarrow> Inl Uninitialised
      | Some t \<Rightarrow> if \<not> connected t then Inr m
                  else bindE (ReceiveCmd1 P junk fuel m) (\<lambda>(_, _, m). Inr m))"

definition TcpserverFunc2_round ::
  "('w, 'cd) platform \<Rightarrow> byte list \<Rightarrow> nat \<Rightarrow> ('c, 'w) machine \<Rightarrow> ('c, 'w) machine res" where
  "TcpserverFunc2_round P junk fuel m =
     (case Tcp2 m of
        None \<Rightarrow> Inl Uninitialised
      | Some t \<Rightarrow> if \<not> connected t then Inr m
                  else bindE (ReceiveCmd2 P junk fuel m) (\<lambda>(_, _, m). Inr m))"

section \<open>Reading\<close>

definition recv_fd :: "nat \<Rightarrow> ('c, 'w) machine \<Rightarrow> int" where
  "recv_fd k m = the (newfd (the (server_of k m)))"

definition connection_ok :: "nat \<Rightarrow> ('c, 'w) machine \<Rightarrow> bool" where
  "connection_ok k m \<longleftrightarrow> machine_ok m \<and> communication m = 2 \<and> connected (the (server_of k m))"

lemma connection_server:
  assumes "connection_ok k m"
  shows "\<exists>t. server_of k m = Some t \<and> server_ok t \<and> connected t \<and> newfd t = Some (recv_fd k m)"
  using assms by (auto simp: connection_ok_def machine_ok_def server_of_def recv_fd_def server_ok_def split: option.splits)

text \<open>The two outcomes of a read, for a kernel that stores as many bytes as it says.\<close>

lemma receive_read_data:
  assumes "connection_ok k m"
    and "kernel P (Recv_sock (recv_fd k m) 2048) (world (machine_os m)) = ((int (length c), c), w)" and "c \<noteq> []"
  shows "receive_read k P m = Inr (Some c, m\<lparr>machine_os := after (kernel P) (Recv_sock (recv_fd k m) 2048) (machine_os m)\<rparr>)"
proof -
  obtain t where t: "server_of k m = Some t" "newfd t = Some (recv_fd k m)"
    using connection_server [OF assms(1)] by blast
  have "communication m = 2"
    using assms(1) by (simp add: connection_ok_def)
  then show ?thesis
    using t assms(2,3) by (simp add: receive_read_def RecvByte_def read_bytes_def do_sys_def after_def)
qed

definition closed_connection ::
  "nat \<Rightarrow> 'w kernel \<Rightarrow> ('c, 'w) machine \<Rightarrow> ('c, 'w) machine" where
  "closed_connection k K m = (set_server k ((the (server_of k m))\<lparr>connected := False\<rparr>) m)\<lparr>machine_os :=
     after K (Close_fd (recv_fd k m)) (after K (Shutdown (recv_fd k m)) (after K (Recv_sock (recv_fd k m) 2048) (machine_os m)))\<rparr>"

lemma receive_read_end:
  assumes "connection_ok k m" and "answer (kernel P) (Recv_sock (recv_fd k m) 2048) (machine_os m) \<le> 0"
  shows "receive_read k P m = Inr (None, closed_connection k (kernel P) m)"
proof -
  obtain t where t: "server_of k m = Some t" "newfd t = Some (recv_fd k m)"
    using connection_server [OF assms(1)] by blast
  have "communication m = 2"
    using assms(1) by (simp add: connection_ok_def)
  then show ?thesis
    using t assms(2) by (simp add: receive_read_def RecvByte_def TcpServer_Close_def closed_connection_def
        case_prod_beta Let_def)
qed

lemma closed_connection_state:
  assumes "connection_ok k m" and "k \<in> {1, 2}"
  shows "machine_ok (closed_connection k K m)" and "\<not> connected (the (server_of k (closed_connection k K m)))"
    and "server_of (3 - k) (closed_connection k K m) = server_of (3 - k) m"
    and "calls (machine_os (closed_connection k K m)) = calls (machine_os m) @
      [Recv_sock (recv_fd k m) 2048, Shutdown (recv_fd k m), Close_fd (recv_fd k m)]"
  using assms connection_server [OF assms(1)]
  by (auto simp: closed_connection_def set_server_def server_of_def machine_ok_def pins_ok_def connection_ok_def
      server_ok_def split: option.splits)

text \<open>One turn of the loop: the frames the read completes are executed in order, the rest is kept.\<close>

lemma receive_turn:
  fixes m :: "('c, 'w) machine" and P :: "('w, 'cd) platform"
  assumes "connection_ok k m"
    and "kernel P (Recv_sock (recv_fd k m) 2048) (world (machine_os m)) = ((int (length c), c), w)" and "c \<noteq> []"
    and "p @ c = concat fs @ q" and "\<forall>f\<in>set fs. wf_frame f" and "good_cut q" and "length (p @ c) \<le> 2043"
    and "stale z p"
  shows "\<exists>i' cl'. receive_loop (Suc n) k P (over z p i cl, m) =
    bindE (deliver_stream (handle_frame k P) (drop (length c) z) fs q
        (m\<lparr>machine_os := after (kernel P) (Recv_sock (recv_fd k m) 2048) (machine_os m)\<rparr>)) (\<lambda>m.
      receive_loop n k P (over (left_over (drop (length c) z) fs q) q i' cl', m))"
proof -
  obtain i' cl' where "\<forall>s :: ('c, 'w) machine. recv_chunk (handle_frame k P) c (over z p i cl) s =
      bindE (deliver_stream (handle_frame k P) (drop (length c) z) fs q s)
        (\<lambda>s. Inr (over (left_over (drop (length c) z) fs q) q i' cl', s))"
    using recv_chunk_stream [OF assms(4-8)] by blast
  then show ?thesis
    using receive_read_data [OF assms(1-3)] by (intro exI [of _ i'] exI [of _ cl']) (simp add: bindE_assoc)
qed

section \<open>Properties\<close>

text \<open>
  C7. A turn of the receiving loop executes exactly the frames that the read completes, each once and
  in the order they arrived, as commands of the connection's client, before it reads again; what is
  left of an unfinished frame is kept for the next read. This is for frames of the protocol that are well formed,
  a read that does not end between the 7th and the 13th byte of a frame, at most 2043 bytes
  held after it, and an array that holds none of the bytes 0x44, 0x64, 0x07 and 0x53 (the values of a 14th byte that decide the
  length of a frame) beyond the bytes received: it is never initialised, and cleared only after a good
  frame. Every frame is handed on with what the array holds behind it, the first frame of the turn with
  those older bytes, the others with zeros; afterwards the array is in such a state again.
\<close>

theorem receive_turn_executes_frames:
  assumes "connection_ok k m"
    and "kernel P (Recv_sock (recv_fd k m) 2048) (world (machine_os m)) = ((int (length c), c), w)" and "c \<noteq> []"
    and "p @ c = concat fs @ q" and "\<forall>f\<in>set fs. wf_frame f" and "good_cut q" and "length (p @ c) \<le> 2043"
    and "stale z p"
  shows "\<exists>i' cl' z'. stale z' q \<and> receive_loop (Suc n) k P (over z p i cl, m) =
    bindE (deliver_stream (\<lambda>buf n m. CommunicationAnalysis P buf n (client_of k m) m) (drop (length c) z) fs q
        (m\<lparr>machine_os := after (kernel P) (Recv_sock (recv_fd k m) 2048) (machine_os m)\<rparr>)) (\<lambda>m.
      receive_loop n k P (over z' q i' cl', m))"
  using receive_turn [OF assms, of n i cl, unfolded handle_frame_def [abs_def]] stale_left [OF assms(4,7,8)]
  by blast

text \<open>A kernel on which every read of a socket brings a heartbeat and the first four bytes of a barrier command.\<close>

definition stream_platform :: "byte list \<Rightarrow> (unit, unit) platform" where
  "stream_platform c = example_platform\<lparr>kernel := \<lambda>x w. case x of
     Recv_sock f n \<Rightarrow> ((int (length c), c), w) | _ \<Rightarrow> ((0, []), w)\<rparr>"

lemma example_connection: "connection_ok 1 example_machine" "recv_fd 1 example_machine = 21"
  using example_ok by (simp_all add: connection_ok_def recv_fd_def server_of_def example_machine_def example_server_def)

lemma stream_platform_recv:
  "kernel (stream_platform c) (Recv_sock f n) w = ((int (length c), c), w)"
  by (simp add: stream_platform_def)

lemma good_cut_barrier: "good_cut (take 4 barrier_up)"
  unfolding good_cut_def using wf_examples(2)
  by (intro disjI2 exI [of _ barrier_up]) (simp add: barrier_up_def)

theorem receive_turn_executes_frames_witness:
  "\<exists>i' cl' z'. stale z' (take 4 barrier_up) \<and>
    receive_loop (Suc 0) 1 (stream_platform (heartbeat @ take 4 barrier_up)) (over (replicate 2048 0xCC) [] (-1) None, example_machine) =
    bindE (deliver_stream (\<lambda>buf n m. CommunicationAnalysis (stream_platform (heartbeat @ take 4 barrier_up)) buf n
         (client_of 1 m) m) (drop (length (heartbeat @ take 4 barrier_up)) (replicate 2048 0xCC)) [heartbeat] (take 4 barrier_up)
        (example_machine\<lparr>machine_os := after (kernel (stream_platform (heartbeat @ take 4 barrier_up)))
           (Recv_sock (recv_fd 1 example_machine) 2048) (machine_os example_machine)\<rparr>)) (\<lambda>m.
      receive_loop 0 1 (stream_platform (heartbeat @ take 4 barrier_up)) (over z' (take 4 barrier_up) i' cl', m))"
proof (rule receive_turn_executes_frames [OF example_connection(1) stream_platform_recv])
  show "good_cut (take 4 barrier_up)"
    by (rule good_cut_barrier)
  show "\<forall>f\<in>set [heartbeat]. wf_frame f"
    using wf_examples by simp
  show "stale (replicate 2048 0xCC) []"
    by (simp add: stale_def unmarked_def length_marks_def)
qed (simp_all add: heartbeat_def barrier_up_def)

text \<open>
  From the bytes on the wire to the outputs: when a read brings one barrier frame from the client the
  mode switch selects, the turn that reads it ends a running pulse, drives the two motor outputs as
  asked, starts the new pulse, answers on the same connection, and leaves the receive buffer empty. The array
  may hold any bytes but the length marks of theory \<open>Framing\<close> beyond the frame.
\<close>

theorem barrier_frame_to_outputs:
  assumes "connection_ok k m" and "wf_frame f" and "f ! 8 = 0xA3" and "10 \<le> length f"
    and "kernel P (Recv_sock (recv_fd k m) 2048) (world (machine_os m)) = ((int (length f), f), w)"
    and "mode_matches (client_of k m) m" and "stale z []"
  shows "\<exists>i cl m'. receive_loop (Suc 0) k P (over z [] (-1) None, m) = Inr (False, holding [] i cl, m') \<and>
    calls (machine_os m') = calls (machine_os m) @ [Recv_sock (recv_fd k m) 2048] @
      (if balustradeThread m = Running then motor_calls m False False else []) @
      (if f ! 9 = 0 then motor_calls m False True else if f ! 9 = 1 then motor_calls m True False else []) @
      send_calls (client_server (client_of k m) m) (reply_frame (f ! 3)
        [0xA3, if f ! 9 = 0 then 3 else if f ! 9 = 1 then 2 else 0]) \<and>
    balustradeThread m' = (if f ! 9 \<in> {0, 1} then Running else NotStarted)"
proof -
  let ?m1 = "m\<lparr>machine_os := after (kernel P) (Recv_sock (recv_fd k m) 2048) (machine_os m)\<rparr>"
  let ?Cmd = "f @ drop (length f) z"
  have ok: "machine_ok ?m1" and mm: "mode_matches (client_of k ?m1) ?m1"
    using assms(1,6) by (auto simp: connection_ok_def machine_ok_updates mode_matches_def client_of_def split: if_splits)
  have C: "9 < length ?Cmd" "?Cmd ! 8 = 0xA3" "1 \<le> int (length f)" "?Cmd ! 9 = f ! 9" "?Cmd ! 3 = f ! 3"
    using assms(3,4) by (simp_all add: nth_append)
  let ?m2 = "(after_barrier (kernel P) (f ! 9) ?m1)\<lparr>resetTimer := True\<rparr>"
  let ?ans = "if f ! 9 = 0 then 3 else if f ! 9 = 1 then 2 else 0 :: byte"
  let ?m3 = "?m2\<lparr>machine_os := send_os (kernel P) (reply_frame (f ! 3) [0xA3, ?ans])
      (client_server (client_of k ?m1) ?m1) (machine_os ?m2)\<rparr>"
  have h: "handle_frame k P ?Cmd (int (length f)) ?m1 = Inr ?m3"
    using barrier_command_lemma [OF ok mm C(1-3), of P] C(4,5) by (simp add: handle_frame_def Let_def)
  have "f \<noteq> []" and "good_cut []" and "length ([] @ f) \<le> 2043"
    using assms(4) wf_frame_le [OF assms(2)] by (auto simp: good_cut_def)
  then obtain i cl where t: "receive_loop (Suc 0) k P (over z [] (-1) None, m) =
      bindE (deliver_stream (handle_frame k P) (drop (length f) z) [f] [] ?m1)
        (\<lambda>m. receive_loop 0 k P (over (left_over (drop (length f) z) [f] []) [] i cl, m))"
    using receive_turn [OF assms(1,5), of "[]" "[f]" "[]" z 0 "-1" None] assms(2,7) by auto
  have "receive_loop (Suc 0) k P (over z [] (-1) None, m) = Inr (False, holding [] i cl, ?m3)"
    unfolding t using h by (simp add: left_over_def holding_def)
  moreover have "client_server (client_of k ?m1) ?m1 = client_server (client_of k m) m"
    by (simp add: client_server_def client_of_def)
  moreover have "calls (machine_os ?m2) = calls (machine_os ?m1) @
      (if balustradeThread m = Running then motor_calls m False False else []) @ motor_request (f ! 9) m"
    using calls_after_barrier [of "kernel P" "f ! 9" ?m1] by (simp add: motor_request_def motor_calls_def)
  moreover have "balustradeThread ?m3 = (if f ! 9 \<in> {0, 1} then Running else NotStarted)"
    using pins_after_barrier(5) [of "kernel P" "f ! 9" ?m1] by simp
  ultimately show ?thesis
    by (intro exI [of _ i] exI [of _ cl] exI [of _ ?m3]) (simp add: motor_request_def)
qed

theorem barrier_frame_to_outputs_witness:
  "\<exists>i cl m'. receive_loop (Suc 0) 1 (stream_platform barrier_up) (over (replicate 2048 0xCC) [] (-1) None, example_machine) =
      Inr (False, holding [] i cl, m') \<and>
    calls (machine_os m') = [Recv_sock 21 2048, Write_fd 15 (level_bytes True), Write_fd 16 (level_bytes False),
      Send_sock 21 (reply_frame 0x64 [0xA3, 2])]"
proof -
  have f: "barrier_up ! 8 = 0xA3" "10 \<le> length barrier_up" and m: "mode_matches (client_of 1 example_machine) example_machine"
    by (simp_all add: barrier_up_def mode_matches_def client_of_def example_machine_def)
  have z: "stale (replicate 2048 0xCC) []"
    by (simp add: stale_def unmarked_def length_marks_def)
  from barrier_frame_to_outputs [OF example_connection(1) wf_examples(2) f stream_platform_recv m z]
  obtain i cl m' where r: "receive_loop (Suc 0) 1 (stream_platform barrier_up) (over (replicate 2048 0xCC) [] (-1) None, example_machine) =
      Inr (False, holding [] i cl, m')" and c: "calls (machine_os m') = calls (machine_os example_machine) @
        [Recv_sock (recv_fd 1 example_machine) 2048] @
        (if balustradeThread example_machine = Running then motor_calls example_machine False False else []) @
        (if barrier_up ! 9 = 0 then motor_calls example_machine False True
         else if barrier_up ! 9 = 1 then motor_calls example_machine True False else []) @
        send_calls (client_server (client_of 1 example_machine) example_machine) (reply_frame (barrier_up ! 3)
          [0xA3, if barrier_up ! 9 = 0 then 3 else if barrier_up ! 9 = 1 then 2 else 0])"
    by blast
  have "calls (machine_os m') = [Recv_sock 21 2048, Write_fd 15 (level_bytes True), Write_fd 16 (level_bytes False),
      Send_sock 21 (reply_frame 0x64 [0xA3, 2])]"
    unfolding c example_connection(2) by (simp add: barrier_up_def example_machine_def motor_calls_def pin_calls_def
        example_pin_def send_calls_def client_server_def client_of_def example_server_def)
  with r show ?thesis
    by blast
qed

text \<open>
  C30. When a read of the socket fails or finds it closed, the receiving function shuts the client's
  descriptor down and closes it, once, marks the server as without client and returns; the other
  connection, and the pins and the display, are left alone.
\<close>

theorem connection_end_closes_socket:
  assumes "connection_ok k m" and "k \<in> {1, 2}" and "answer (kernel P) (Recv_sock (recv_fd k m) 2048) (machine_os m) \<le> 0"
  shows "\<exists>m'. receive_loop (Suc n) k P (r, m) = Inr (True, r, m') \<and> machine_ok m' \<and>
    \<not> connected (the (server_of k m')) \<and> server_of (3 - k) m' = server_of (3 - k) m \<and> Led m' = Led m \<and>
    calls (machine_os m') = calls (machine_os m) @
      [Recv_sock (recv_fd k m) 2048, Shutdown (recv_fd k m), Close_fd (recv_fd k m)]"
proof -
  have "Led (closed_connection k (kernel P) m) = Led m"
    by (simp add: closed_connection_def set_server_def)
  then show ?thesis
    using receive_read_end [OF assms(1,3)] closed_connection_state [OF assms(1,2), of "kernel P"] by simp
qed

theorem connection_end_closes_socket_witness:
  "\<exists>m'. receive_loop (Suc 0) 1 example_platform (rx_start [], example_machine) = Inr (True, rx_start [], m') \<and>
     calls (machine_os m') = [Recv_sock 21 2048, Shutdown 21, Close_fd 21]"
proof -
  have "answer (kernel example_platform) (Recv_sock (recv_fd 1 example_machine) 2048) (machine_os example_machine) \<le> 0"
    by (simp add: answer_def example_platform_def)
  from connection_end_closes_socket [OF example_connection(1) _ this, of 0 "rx_start []"]
  obtain m' where "receive_loop (Suc 0) 1 example_platform (rx_start [], example_machine) = Inr (True, rx_start [], m')"
    and "calls (machine_os m') = calls (machine_os example_machine) @ [Recv_sock (recv_fd 1 example_machine) 2048,
      Shutdown (recv_fd 1 example_machine), Close_fd (recv_fd 1 example_machine)]"
    by blast
  then show ?thesis
    by (intro exI [of _ m']) (simp only: example_connection(2), simp add: example_machine_def)
qed

end
