(* ===== verification/Session.thy ===== *)
theory Session
  imports Receive
begin

text \<open>
  A whole session of a client, from the bytes of its stream to the outputs of the controller: the receiving
  function reads until the client closes the connection, and every control frame of the stream, however the
  network has cut it into reads, is executed and answered once and in order. The kernel is one that delivers
  the stream; the other threads are idle meanwhile.
\<close>

section \<open>A kernel that delivers a stream\<close>

text \<open>
  \<open>inbox\<close> is the part of the world that holds the reads still to come on the descriptor: a \<open>recv\<close> takes the
  first of them, at the end it answers 0 or an error, and no other call touches them.
\<close>

definition delivers_stream :: "('w \<Rightarrow> byte list list) \<Rightarrow> int \<Rightarrow> 'w kernel \<Rightarrow> bool" where
  "delivers_stream inbox f K \<longleftrightarrow>
     (\<forall>c w. c \<noteq> Recv_sock f 2048 \<longrightarrow> inbox (snd (K c w)) = inbox w) \<and>
     (\<forall>w. case inbox w of
        [] \<Rightarrow> fst (fst (K (Recv_sock f 2048) w)) \<le> 0
      | c # cs \<Rightarrow> fst (K (Recv_sock f 2048) w) = (int (length c), c) \<and> inbox (snd (K (Recv_sock f 2048) w)) = cs)"

definition waiting_reads :: "('w \<Rightarrow> byte list list) \<Rightarrow> ('c, 'w) machine \<Rightarrow> byte list list" where
  "waiting_reads inbox m = inbox (world (machine_os m))"

lemma inbox_after [simp]:
  "delivers_stream inbox f K \<Longrightarrow> c \<noteq> Recv_sock f 2048 \<Longrightarrow> inbox (world (after K c s)) = inbox (world s)"
  by (simp add: delivers_stream_def world_after)

lemma inbox_pin_os [simp]: "delivers_stream inbox f K \<Longrightarrow> inbox (world (pin_os K g b s)) = inbox (world s)"
  by (simp add: pin_os_def)

lemma inbox_send_os [simp]: "delivers_stream inbox f K \<Longrightarrow> inbox (world (send_os K fr t s)) = inbox (world s)"
  by (simp add: send_os_def)

section \<open>What a session does\<close>

text \<open>The calls of a session but for its reads.\<close>

definition outputs :: "syscall list \<Rightarrow> syscall list" where
  "outputs tr = filter (\<lambda>c. case c of Recv_sock f n \<Rightarrow> False | _ \<Rightarrow> True) tr"

text \<open>
  A control frame: a barrier command or a traffic-light command. The fields of the controller that the
  effect depends on (pins, connections, mode) are those of \<open>m\<close>; \<open>running\<close> says whether a pulse is running.
\<close>

definition control_frame :: "byte list \<Rightarrow> bool" where
  "control_frame f \<longleftrightarrow> wf_frame f \<and> 10 \<le> length f \<and> f ! 8 \<in> {0xA3, 0xAE}"

definition answer_of :: "bool \<Rightarrow> byte list \<Rightarrow> byte list" where
  "answer_of selected f =
     (if \<not> selected then [0, 0]
      else if f ! 8 = 0xA3 then [0xA3, if f ! 9 = 0 then 3 else if f ! 9 = 1 then 2 else 0]
      else [0xDE, if f ! 9 = 1 then 1 else 0])"

definition frame_outputs :: "string \<Rightarrow> ('c, 'w) machine \<Rightarrow> bool \<Rightarrow> byte list \<Rightarrow> syscall list" where
  "frame_outputs ip m running f =
     (if \<not> mode_matches ip m then []
      else if f ! 8 = 0xA3 then (if running then motor_calls m False False else []) @ motor_request (f ! 9) m
      else lamp_request (f ! 9) m) @
     send_calls (client_server ip m) (reply_frame (f ! 3) (answer_of (mode_matches ip m) f))"

definition pulse_after :: "string \<Rightarrow> ('c, 'w) machine \<Rightarrow> bool \<Rightarrow> byte list \<Rightarrow> bool" where
  "pulse_after ip m running f = (if mode_matches ip m \<and> f ! 8 = 0xA3 then f ! 9 \<in> {0, 1} else running)"

fun session_outputs :: "string \<Rightarrow> ('c, 'w) machine \<Rightarrow> bool \<Rightarrow> byte list list \<Rightarrow> syscall list" where
  "session_outputs ip m running [] = []"
| "session_outputs ip m running (f # fs) =
     frame_outputs ip m running f @ session_outputs ip m (pulse_after ip m running f) fs"

lemma session_outputs_append:
  "session_outputs ip m running (fs @ gs) =
     session_outputs ip m running fs @ session_outputs ip m (fold (\<lambda>f r. pulse_after ip m r f) fs running) gs"
  by (induction fs arbitrary: running) auto

lemma outputs_simps [simp]:
  "outputs (a @ b) = outputs a @ outputs b" "outputs (Recv_sock f n # tr) = outputs tr" "outputs [Shutdown f, Close_fd f] = [Shutdown f, Close_fd f]"
  "outputs (motor_calls m up down) = motor_calls m up down" "outputs (motor_request c m) = motor_request c m"
  "outputs (lamp_request c m) = lamp_request c m" "outputs (send_calls t fr) = send_calls t fr" "outputs [] = []"
  by (simp_all add: outputs_def motor_calls_def motor_request_def lamp_request_def pin_calls_def send_calls_def)

lemma outputs_frame [simp]: "outputs (frame_outputs ip m running f) = frame_outputs ip m running f"
  by (simp add: frame_outputs_def)

lemma outputs_session [simp]: "outputs (session_outputs ip m running fs) = session_outputs ip m running fs"
  by (induction fs arbitrary: running) auto

section \<open>One frame\<close>

text \<open>\<open>within m0 m\<close>: \<open>m\<close> differs from \<open>m0\<close> only in what control frames change.\<close>

definition within :: "('c, 'w) machine \<Rightarrow> ('c, 'w) machine \<Rightarrow> bool" where
  "within m0 m \<longleftrightarrow> (\<exists>s b t. m = m0\<lparr>machine_os := s, balustradeThread := b, resetTimer := t\<rparr>)"

lemma within_refl [simp]: "within m m"
  unfolding within_def by (intro exI [of _ "machine_os m"] exI [of _ "balustradeThread m"] exI [of _ "resetTimer m"]) simp

lemma within_os [simp]: "within m0 m \<Longrightarrow> within m0 (m\<lparr>machine_os := s\<rparr>)"
proof -
  assume "within m0 m"
  then obtain s' b t where "m = m0\<lparr>machine_os := s', balustradeThread := b, resetTimer := t\<rparr>"
    by (auto simp: within_def)
  then show ?thesis
    unfolding within_def by (intro exI [of _ s] exI [of _ b] exI [of _ t]) simp
qed

lemma within_thread [simp]: "within m0 m \<Longrightarrow> within m0 (m\<lparr>balustradeThread := b\<rparr>)"
proof -
  assume "within m0 m"
  then obtain s b' t where "m = m0\<lparr>machine_os := s, balustradeThread := b', resetTimer := t\<rparr>"
    by (auto simp: within_def)
  then show ?thesis
    unfolding within_def by (intro exI [of _ s] exI [of _ b] exI [of _ t]) simp
qed

lemma within_timer [simp]: "within m0 m \<Longrightarrow> within m0 (m\<lparr>resetTimer := t\<rparr>)"
proof -
  assume "within m0 m"
  then obtain s b t' where "m = m0\<lparr>machine_os := s, balustradeThread := b, resetTimer := t'\<rparr>"
    by (auto simp: within_def)
  then show ?thesis
    unfolding within_def by (intro exI [of _ s] exI [of _ b] exI [of _ t]) simp
qed

lemma within_same:
  assumes "within m0 m"
  shows "machine_ok m = machine_ok m0" "mode_matches ip m = mode_matches ip m0" "client_server ip m = client_server ip m0"
    "client_of k m = client_of k m0" "motor_calls m = motor_calls m0" "TrafficPin m = TrafficPin m0"
    "motor_request c m = motor_request c m0" "lamp_request c m = lamp_request c m0" "known_client ip m = known_client ip m0"
    "connection_ok k m = connection_ok k m0" "recv_fd k m = recv_fd k m0" "server_of k m = server_of k m0"
  using assms
  by (auto simp: within_def machine_ok_def pins_ok_def mode_matches_def client_server_def client_of_def motor_calls_def
      motor_request_def lamp_request_def known_client_def connection_ok_def recv_fd_def server_of_def fun_eq_iff)

text \<open>What a frame leaves: its outputs in the trace, the pulse it started or ended, and the reads untouched.\<close>

lemma handle_control:
  assumes "machine_ok m0" and "within m0 m" and "control_frame f" and "delivers_stream inbox fd1 (kernel P)" and "k \<in> {1, 2}"
  shows "\<exists>m'. handle_frame k P (f @ rest) (int (length f)) m = Inr m' \<and> within m0 m' \<and>
    calls (machine_os m') = calls (machine_os m) @ frame_outputs (client_of k m0) m0 (balustradeThread m = Running) f \<and>
    (balustradeThread m' = Running) = pulse_after (client_of k m0) m0 (balustradeThread m = Running) f \<and>
    waiting_reads inbox m' = waiting_reads inbox m"
proof -
  let ?ip = "client_of k m0" and ?Cmd = "f @ rest"
  note same = within_same [OF assms(2)]
  have ok: "machine_ok m" and ip: "client_of k m = ?ip" and known: "known_client ?ip m"
    using assms(1,5) same by (auto simp: known_client_def client_of_def)
  have f: "9 < length ?Cmd" "?Cmd ! 8 = f ! 8" "?Cmd ! 9 = f ! 9" "?Cmd ! 3 = f ! 3" "(1 :: int) \<le> int (length f)"
    using assms(3) by (auto simp: control_frame_def nth_append)
  have kind: "f ! 8 = 0xA3 \<or> f ! 8 = 0xAE"
    using assms(3) by (simp add: control_frame_def)
  show ?thesis
  proof (cases "mode_matches ?ip m0")
    case sel: True
    then have sel': "mode_matches ?ip m"
      by (simp add: same)
    consider "f ! 8 = 0xA3" | "f ! 8 = 0xAE"
      using kind by blast
    then show ?thesis
    proof cases
      case 1
      have c: "?Cmd ! 8 = 0xA3"
        using f(2) 1 by simp
      let ?m1 = "after_barrier (kernel P) (f ! 9) m"
      let ?m2 = "(?m1\<lparr>resetTimer := True\<rparr>)\<lparr>machine_os := send_os (kernel P) (reply_frame (f ! 3) (answer_of True f))
          (client_server ?ip m) (machine_os ?m1)\<rparr>"
      have h: "handle_frame k P ?Cmd (int (length f)) m = Inr ?m2"
        using barrier_command_lemma [OF ok sel' f(1) c f(5), of P, unfolded f(3,4)] 1
        by (simp add: handle_frame_def ip answer_of_def Let_def)
      have "within m0 ?m2"
        using assms(2) by (simp add: after_barrier_def)
      moreover have "calls (machine_os ?m2) = calls (machine_os m) @ frame_outputs ?ip m0 (balustradeThread m = Running) f"
        using sel 1 by (simp add: calls_after_barrier frame_outputs_def same)
      moreover have "(balustradeThread ?m2 = Running) = pulse_after ?ip m0 (balustradeThread m = Running) f"
        using sel 1 by (simp add: pins_after_barrier pulse_after_def)
      moreover have "waiting_reads inbox ?m2 = waiting_reads inbox m"
        using assms(4) by (simp add: waiting_reads_def after_barrier_def requested_os_def joined_os_def motor_os_def)
      ultimately show ?thesis
        using h by blast
    next
      case 2
      have c: "?Cmd ! 8 = 0xAE"
        using f(2) 2 by simp
      show ?thesis
        using lamp_command_lemma [OF ok sel' f(1) c f(5), of P, unfolded f(3,4)] sel 2 assms(2,4)
        by (simp add: handle_frame_def ip frame_outputs_def pulse_after_def answer_of_def waiting_reads_def same) (simp add: lamp_os_def)
    qed
  next
    case False
    then have n: "\<not> mode_matches ?ip m"
      by (simp add: same)
    have c: "?Cmd ! 8 \<in> {0xA3, 0xAE}"
      using f(2) kind by simp
    show ?thesis
      using wrong_mode_lemma [OF ok known n f(1) c, of P "int (length f)", unfolded f(4)] False assms(2,4)
      by (simp add: handle_frame_def ip frame_outputs_def pulse_after_def answer_of_def waiting_reads_def same)
  qed
qed

lemma deliver_control:
  assumes "machine_ok m0" and "delivers_stream inbox fd1 (kernel P)" and "k \<in> {1, 2}"
    and "within m0 m" and "\<forall>f\<in>set fs. control_frame f"
  shows "\<exists>m'. deliver_stream (handle_frame k P) z fs q m = Inr m' \<and> within m0 m' \<and>
    calls (machine_os m') = calls (machine_os m) @ session_outputs (client_of k m0) m0 (balustradeThread m = Running) fs \<and>
    (balustradeThread m' = Running) = fold (\<lambda>f r. pulse_after (client_of k m0) m0 r f) fs (balustradeThread m = Running) \<and>
    waiting_reads inbox m' = waiting_reads inbox m"
  using assms(4,5)
proof (induction fs arbitrary: z m)
  case (Cons f fs)
  have f: "control_frame f" and fs: "\<forall>f\<in>set fs. control_frame f"
    using Cons.prems(2) by simp_all
  from handle_control [OF assms(1) Cons.prems(1) f assms(2,3)]
  obtain m1 where m1: "handle_frame k P (f @ (concat fs @ q) @ z) (int (length f)) m = Inr m1"
      "within m0 m1" "calls (machine_os m1) = calls (machine_os m) @ frame_outputs (client_of k m0) m0 (balustradeThread m = Running) f"
      "(balustradeThread m1 = Running) = pulse_after (client_of k m0) m0 (balustradeThread m = Running) f"
      "waiting_reads inbox m1 = waiting_reads inbox m"
    by blast
  from Cons.IH [OF m1(2) fs] show ?case
    using m1 by (auto simp only: deliver_stream.simps bindE_simps session_outputs.simps fold_Cons comp_apply append_assoc)
qed auto

text \<open>The reads of a session, one turn each, and the end of the connection.\<close>

lemma session_reads:
  assumes "connection_ok k m0" and "k \<in> {1, 2}" and "delivers_stream inbox (recv_fd k m0) (kernel P)"
    and "segmented p xs" and "\<forall>x\<in>set xs. fst x \<noteq> [] \<and> (\<forall>f\<in>set (fst (snd x)). control_frame f)"
    and "within m0 m" and "waiting_reads inbox m = map fst xs" and "length xs < fuel" and "stale z p"
  shows "\<exists>r m'. receive_loop fuel k P (over z p i cl, m) = Inr (True, r, m') \<and>
    \<not> connected (the (server_of k m')) \<and>
    outputs (calls (machine_os m')) = outputs (calls (machine_os m)) @
      session_outputs (client_of k m0) m0 (balustradeThread m = Running) (concat (map (fst \<circ> snd) xs)) @
      [Shutdown (recv_fd k m0), Close_fd (recv_fd k m0)]"
  using assms(4-9)
proof (induction xs arbitrary: p z m fuel i cl)
  case Nil
  obtain n where n: "fuel = Suc n"
    using Nil.prems(5) by (cases fuel) auto
  have c: "connection_ok k m" and fd: "recv_fd k m = recv_fd k m0"
    using assms(1) within_same [OF Nil.prems(3)] by simp_all
  have "answer (kernel P) (Recv_sock (recv_fd k m) 2048) (machine_os m) \<le> 0"
    using assms(3) Nil.prems(4) unfolding fd delivers_stream_def waiting_reads_def answer_def by (auto split: list.splits)
  from receive_read_end [OF c this] closed_connection_state(2,4) [OF c assms(2), of "kernel P"] show ?case
    unfolding n by (simp add: fd)
next
  case (Cons x xs)
  obtain c fs q where x: "x = (c, fs, q)"
    by (cases x)
  obtain n where n: "fuel = Suc n" "length xs < n"
    using Cons.prems(5) by (cases fuel) auto
  have g: "p @ c = concat fs @ q" "\<forall>f\<in>set fs. wf_frame f" "good_cut q" "length (p @ c) \<le> 2043" "segmented q xs"
    using Cons.prems(1) unfolding x segmented.simps list_all_iff by blast+
  have ctl: "c \<noteq> []" "\<forall>f\<in>set fs. control_frame f" "\<forall>x\<in>set xs. fst x \<noteq> [] \<and> (\<forall>f\<in>set (fst (snd x)). control_frame f)"
    using Cons.prems(2) by (simp_all add: x)
  have ok: "connection_ok k m" and fd: "recv_fd k m = recv_fd k m0"
    using assms(1) within_same [OF Cons.prems(3)] by simp_all
  let ?R = "Recv_sock (recv_fd k m) 2048"
  let ?m1 = "m\<lparr>machine_os := after (kernel P) ?R (machine_os m)\<rparr>"
  have in_m: "inbox (world (machine_os m)) = c # map fst xs"
    using Cons.prems(4) by (simp add: waiting_reads_def x)
  then have rd: "fst (kernel P ?R (world (machine_os m))) = (int (length c), c)" "inbox (snd (kernel P ?R (world (machine_os m)))) = map fst xs"
    using assms(3) unfolding fd delivers_stream_def by (auto split: list.splits)
  obtain w where "kernel P ?R (world (machine_os m)) = ((int (length c), c), w)"
    using rd(1) by (cases "kernel P ?R (world (machine_os m))") auto
  let ?z = "left_over (drop (length c) z) fs q"
  from receive_turn [OF ok \<open>kernel P ?R (world (machine_os m)) = ((int (length c), c), w)\<close> ctl(1) g(1-4) Cons.prems(6)]
  obtain i' cl' where t: "receive_loop (Suc n) k P (over z p i cl, m) =
      bindE (deliver_stream (handle_frame k P) (drop (length c) z) fs q ?m1) (\<lambda>m. receive_loop n k P (over ?z q i' cl', m))"
    by blast
  have "machine_ok m0" and "within m0 ?m1"
    using assms(1) Cons.prems(3) by (simp_all add: connection_ok_def)
  from deliver_control [OF this(1) assms(3,2) this(2) ctl(2), of "drop (length c) z" q]
  obtain m2 where m2: "deliver_stream (handle_frame k P) (drop (length c) z) fs q ?m1 = Inr m2" "within m0 m2"
      "calls (machine_os m2) = calls (machine_os ?m1) @ session_outputs (client_of k m0) m0 (balustradeThread ?m1 = Running) fs"
      "(balustradeThread m2 = Running) = fold (\<lambda>f r. pulse_after (client_of k m0) m0 r f) fs (balustradeThread ?m1 = Running)"
      "waiting_reads inbox m2 = waiting_reads inbox ?m1"
    by blast
  have "waiting_reads inbox m2 = map fst xs"
    using m2(5) rd(2) by (simp add: waiting_reads_def world_after)
  from Cons.IH [OF g(5) ctl(3) m2(2) this n(2) stale_left [OF g(1,4) Cons.prems(6)], of i' cl'] m2(1,3,4) show ?case
    unfolding n(1) t by (auto simp: x session_outputs_append)
qed

section \<open>Properties\<close>

text \<open>
  C8. From a client's stream to the outputs: when the stream is a series of well-formed control frames (barrier and
  traffic-light commands), cut into reads of at most 1700 bytes in any way that leaves no read ending between the
  7th and the 13th byte of a frame, and then ends, the receiving function returns after one turn per read and one for the end.
  Up to then it has executed and answered every frame once and in order: each barrier command first ends the
  pulse a former one has left, commands of a client that the mode switch does not select are only answered, and
  at last the connection is shut down and closed. The receive array, which the code never initialises, may hold
  anything at first but the bytes 0x44, 0x64, 0x07 and 0x53: a frame of 11 bytes at the head of the connection is
  measured by the 14th byte of the array. The mode switch does not move and no other thread acts meanwhile.
\<close>

theorem session_executes_stream:
  assumes "connection_ok k m" and "k \<in> {1, 2}" and "delivers_stream inbox (recv_fd k m) (kernel P)"
    and "waiting_reads inbox m = cs" and "concat cs = concat fs" and "\<forall>f\<in>set fs. control_frame f"
    and "\<forall>c\<in>set cs. c \<noteq> [] \<and> length c \<le> 1700" and "safe_cuts fs cs" and "length cs < fuel"
    and "length junk = 2048" and "unmarked junk"
  shows "\<exists>r m'. receive_loop fuel k P (rx_start junk, m) = Inr (True, r, m') \<and>
    \<not> connected (the (server_of k m')) \<and>
    outputs (calls (machine_os m')) = outputs (calls (machine_os m)) @
      session_outputs (client_of k m) m (balustradeThread m = Running) fs @
      [Shutdown (recv_fd k m), Close_fd (recv_fd k m)]"
proof -
  have "\<forall>f\<in>set fs. wf_frame f"
    using assms(6) by (simp add: control_frame_def)
  then obtain xs where xs: "segmented [] xs" "map fst xs = cs" "concat (map (fst \<circ> snd) xs) = fs"
    using stream_segmented [of "[]" cs fs] assms(5,7,8) by (auto simp: safe_cuts_def)
  have "fst x \<noteq> [] \<and> (\<forall>f\<in>set (fst (snd x)). control_frame f)" if "x \<in> set xs" for x
  proof -
    have "fst x \<in> set cs" and "set (fst (snd x)) \<subseteq> set fs"
      using that xs(2,3) by auto
    then show ?thesis
      using assms(6,7) by blast
  qed
  then have x: "\<forall>x\<in>set xs. fst x \<noteq> [] \<and> (\<forall>f\<in>set (fst (snd x)). control_frame f)"
    by blast
  have w: "waiting_reads inbox m = map fst xs"
    using assms(4) by (simp add: xs(2))
  have l: "length xs < fuel"
    using assms(9) length_map [of fst xs] by (simp only: xs(2))
  show ?thesis
    using session_reads [OF assms(1-3) xs(1) x within_refl w l] assms(10,11) by (simp add: rx_start_over stale_def xs(3))
qed

text \<open>
  A session of the first client: a command to raise the barrier, cut in two, then one to lower it. The world is the
  list of reads to come.
\<close>

definition stream_kernel :: "byte list list kernel" where
  "stream_kernel c w = (case c of
     Recv_sock f n \<Rightarrow> (if f \<noteq> 21 \<or> n \<noteq> 2048 then ((0, []), w)
       else case w of [] \<Rightarrow> ((0, []), []) | b # bs \<Rightarrow> ((int (length b), b), bs))
   | _ \<Rightarrow> ((0, []), w))"

definition session_platform :: "(byte list list, unit) platform" where
  "session_platform = \<lparr>kernel = stream_kernel, iconv_open_of = (\<lambda>_ _. None), iconv_of = (\<lambda>_ _ _. (False, [])),
     compound_of = (\<lambda>_ s. Inr s)\<rparr>"

definition barrier_down :: "byte list" where
  "barrier_down = barrier_up[9 := 0, 10 := (barrier_up ! 10) XOR 1]"

definition lane_machine :: "'c qled \<Rightarrow> 'w \<Rightarrow> ('c, 'w) machine" where
  "lane_machine led w = \<lparr>Tcp1 = Some (example_server 21), Tcp2 = Some (example_server 22), Serial1 = None,
     VehicleDevice1 = example_pin 1 ''in'' 11, VehicleDevice2 = example_pin 2 ''in'' 12,
     VehicleDevice3 = example_pin 3 ''in'' 13, ManualSwitch = example_pin 4 ''in'' 14,
     Balustrade_up = example_pin 1 ''out'' 15, Balustrade_down = example_pin 2 ''out'' 16,
     TrafficPin = example_pin 3 ''out'' 17, FlashLight = example_pin 4 ''out'' 18,
     Led = led, Player = TTS_new (replicate 2048 0), communication = 2, LedMode = 2,
     Client1 = ''192.168.1.2'', Client2 = ''192.168.1.3'', IO4_manualSwitchStatus = 0,
     displayingDefaultContent = False, lastPlayTime = 0, resetTimer = False, balustradeThread = NotStarted, clock = 0,
     machine_os = \<lparr>world = w, calls = []\<rparr>\<rparr>"

lemma lane_machine_ok: "qled_ok led \<Longrightarrow> machine_ok (lane_machine led w)"
  by (simp add: machine_ok_def pins_ok_def lane_machine_def example_gpio example_server_def server_ok_def)

lemma example_led: "qled_ok (QLED_new (Klist_new example_junk))" "screen (QLED_new (Klist_new example_junk)) = Map.empty"
  by (simp_all add: qled_ok_def QLED_new_def example_tasks screen_def waiting_def contents_Klist_new fun_eq_iff)

definition session_machine :: "(unit, byte list list) machine" where
  "session_machine = lane_machine (QLED_new (Klist_new example_junk)) [take 5 barrier_up, drop 5 barrier_up @ barrier_down]"

lemma session_ok: "connection_ok 1 session_machine" "recv_fd 1 session_machine = 21"
  using lane_machine_ok [OF example_led(1)]
  by (simp_all add: connection_ok_def session_machine_def) (simp_all add: recv_fd_def server_of_def lane_machine_def example_server_def)

lemma session_kernel: "delivers_stream (\<lambda>w. w) 21 (kernel session_platform)"
  by (auto simp: delivers_stream_def session_platform_def stream_kernel_def split: syscall.split list.split)

lemma session_frames: "control_frame barrier_up" "control_frame barrier_down"
  by code_simp+

theorem session_executes_stream_witness:
  "\<exists>r m'. receive_loop 3 1 session_platform (rx_start (replicate 2048 0xCC), session_machine) = Inr (True, r, m') \<and>
    outputs (calls (machine_os m')) =
      [Write_fd 15 (level_bytes True), Write_fd 16 (level_bytes False), Send_sock 21 (reply_frame 0x64 [0xA3, 2]),
       Write_fd 15 (level_bytes False), Write_fd 16 (level_bytes False),
       Write_fd 15 (level_bytes False), Write_fd 16 (level_bytes True), Send_sock 21 (reply_frame 0x64 [0xA3, 3]),
       Shutdown 21, Close_fd 21]"
proof -
  let ?cs = "[take 5 barrier_up, drop 5 barrier_up @ barrier_down]" and ?fs = "[barrier_up, barrier_down]"
  have k: "(1 :: nat) \<in> {1, 2}" and w: "waiting_reads (\<lambda>w. w) session_machine = ?cs"
    by (simp_all add: waiting_reads_def session_machine_def lane_machine_def)
  have f: "concat ?cs = concat ?fs" "\<forall>f\<in>set ?fs. control_frame f" "\<forall>c\<in>set ?cs. c \<noteq> [] \<and> length c \<le> 1700" "length ?cs < (3 :: nat)"
    using session_frames by (simp_all add: barrier_up_def barrier_down_def)
  have cuts: "safe_cuts ?fs ?cs"
    by (simp add: safe_cuts_def barrier_up_def barrier_down_def le_Suc_eq all_conj_distrib imp_conjL)
  have "length (replicate 2048 0xCC :: byte list) = 2048" and "unmarked (replicate 2048 0xCC)"
    by (simp_all add: unmarked_def length_marks_def)
  note j = this
  have d: "delivers_stream (\<lambda>w. w) (recv_fd 1 session_machine) (kernel session_platform)"
    using session_kernel by (simp only: session_ok(2))
  from session_executes_stream [OF session_ok(1) k d w f(1-3) cuts f(4) j]
  obtain r m' where r: "receive_loop 3 1 session_platform (rx_start (replicate 2048 0xCC), session_machine) = Inr (True, r, m')"
    and o: "outputs (calls (machine_os m')) = outputs (calls (machine_os session_machine)) @
      session_outputs (client_of 1 session_machine) session_machine (balustradeThread session_machine = Running) ?fs @
      [Shutdown (recv_fd 1 session_machine), Close_fd (recv_fd 1 session_machine)]"
    by blast
  have "outputs (calls (machine_os m')) =
      [Write_fd 15 (level_bytes True), Write_fd 16 (level_bytes False), Send_sock 21 (reply_frame 0x64 [0xA3, 2]),
       Write_fd 15 (level_bytes False), Write_fd 16 (level_bytes False),
       Write_fd 15 (level_bytes False), Write_fd 16 (level_bytes True), Send_sock 21 (reply_frame 0x64 [0xA3, 3]),
       Shutdown 21, Close_fd 21]"
    unfolding o session_ok(2)
    by (simp add: session_machine_def lane_machine_def outputs_def frame_outputs_def pulse_after_def answer_of_def motor_request_def
        motor_calls_def pin_calls_def send_calls_def client_server_def client_of_def mode_matches_def barrier_up_def
        barrier_down_def example_pin_def example_server_def)
  with r show ?thesis
    by blast
qed

text \<open>
  C9. From a display command to the line of the display: after the command of the selected client, as many rounds
  of the display thread as lines are waiting send, over an open device, the frame of every row of the format
  with the command's text and colour, the brightness, and whatever was waiting for other rows before, each line's
  frame twice and none of the frames that the command replaced; then nothing is waiting any more.
\<close>

theorem command_reaches_display:
  assumes "machine_ok m" and "mode_matches ip m" and "DisplayMode (Led m) \<noteq> 0"
    and "integrated c4 (drop 9 Cmd)" and "Cmd ! 8 = 0xA4" and "c4 = 0x44 \<and> n = 58 \<or> c4 = 0x64 \<and> n = 87"
    and "n \<le> length Cmd" and "second_check Cmd n"
    and "comm (Led m) = Some c" and "GetStatus c" and "\<forall>c fr. GetStatus c \<longrightarrow> GetStatus (snd (Send fr c))"
    and "card (dom (shown_rows c4 (drop 13 Cmd) (screen (Led m)))) \<le> rounds"
  shows "\<exists>m' led' ls. CommunicationAnalysis P Cmd (int n) ip m = Inr m' \<and>
    foldE (\<lambda>_. DisplayThread_round GetStatus Send) [0..<rounds] (Led m') = Inr led' \<and>
    distinct ls \<and> set ls = {1..line_count c4} \<union> {10} \<union> dom (screen (Led m)) \<and>
    comm led' = Some (fold (send_twice Send) (map (\<lambda>l. fst (the (shown_rows c4 (drop 13 Cmd) (screen (Led m)) l))) ls) c) \<and>
    screen led' = Map.empty"
proof -
  let ?rows = "shown_rows c4 (drop 13 Cmd) (screen (Led m))"
  obtain m' where m': "CommunicationAnalysis P Cmd (int n) ip m = Inr m'" "machine_ok m'" "screen (Led m') = ?rows" "comm (Led m') = Some c"
    using display_command_lemma [OF assms(1-8), of P] assms(9) by auto
  then obtain k where k: "ledList (Led m') = Some k" "tasks_ok k" "waiting k = ?rows"
    by (auto simp: machine_ok_def qled_ok_def screen_def split: option.splits)
  have "card (dom (waiting k)) \<le> rounds"
    using assms(12) by (simp add: k(3))
  from display_rounds_drain [OF k(1,2) m'(4) assms(10,11) this] obtain led' ls k' where
    d: "foldE (\<lambda>_. DisplayThread_round GetStatus Send) [0..<rounds] (Led m') = Inr led'" "distinct ls" "set ls = dom ?rows"
      "comm led' = Some (fold (send_twice Send) (map (\<lambda>l. fst (the (?rows l))) ls) c)" "ledList led' = Some k'" "waiting k' = Map.empty"
    unfolding k(3) by blast
  have "dom ?rows = {1..line_count c4} \<union> {10} \<union> dom (screen (Led m))"
    by (auto simp: shown_rows_def split: if_splits)
  with m'(1) d show ?thesis
    by (intro exI [of _ m'] exI [of _ led'] exI [of _ ls]) (simp add: screen_def)
qed

theorem command_reaches_display_witness:
  "\<exists>m' led' ls. CommunicationAnalysis example_platform
      (example_frame ([0xA0, 0xB0, 0xC0, 0xD0, 0x44, 5, 0, 1, 1, 1] @ replicate 37 0x41)) (int 58) ''192.168.1.2''
      (lane_machine ((QLED_new (Klist_new example_junk))\<lparr>comm := Some []\<rparr>) ()) = Inr m' \<and>
    foldE (\<lambda>_. DisplayThread_round (\<lambda>_. True) (\<lambda>fr c. (0, c @ [fr]))) [0..<4] (Led m') = Inr led' \<and>
    distinct ls \<and> set ls = {1, 2, 3, 10 :: int} \<and> screen led' = Map.empty"
proof -
  let ?part = "[0xA0, 0xB0, 0xC0, 0xD0, 0x44, 5, 0, 1, 1, 1] @ replicate 37 (0x41 :: byte)"
  let ?f = "example_frame ?part" and ?led = "(QLED_new (Klist_new example_junk))\<lparr>comm := Some ([] :: byte list list)\<rparr>"
  let ?m = "lane_machine ?led ()" and ?send = "\<lambda>fr c. (0 :: int, c @ [fr :: byte list])"
  have p: "?part = 0xA0 # 0xB0 # 0xC0 # 0xD0 # 0x44 # [5, 0, 1, 1, 1] @ replicate 37 0x41"
    by simp
  note e = example_frame_simps [OF p]
  have l: "58 \<le> length ?f" "second_check ?f 58"
    using e(3,4) by simp_all
  have ok: "machine_ok ?m" and m: "mode_matches ''192.168.1.2'' ?m" and d: "DisplayMode (Led ?m) \<noteq> 0" and c: "comm (Led ?m) = Some []"
    using lane_machine_ok [of ?led "()"] example_led(1)
    by (simp_all add: qled_ok_def mode_matches_def) (simp_all add: lane_machine_def QLED_new_def)
  have s: "screen (Led ?m) = Map.empty"
    using example_led(2) by (simp add: lane_machine_def screen_def QLED_new_def)
  have f: "(0x44 :: byte) = 0x44 \<and> (58 :: nat) = 58 \<or> (0x44 :: byte) = 0x64 \<and> (58 :: nat) = 87"
    by simp
  have lines: "{1..line_count 0x44} = {1, 2, 3}"
    by (auto simp: line_count_def)
  have "dom (shown_rows 0x44 X Map.empty) \<subseteq> {1, 2, 3, 10}" for X
    by (auto simp: shown_rows_def line_count_def split: if_splits)
  from card_mono [OF _ this] have "card (dom (shown_rows 0x44 X Map.empty)) \<le> 4" for X
    by (rule order_trans) simp_all
  then have "card (dom (shown_rows 0x44 (drop 13 ?f) (screen (Led ?m)))) \<le> 4"
    unfolding s .
  from command_reaches_display [OF ok m d e(1,2) f l c, of "\<lambda>_. True" ?send, OF TrueI _ this, of example_platform]
  obtain m' led' ls where "CommunicationAnalysis example_platform ?f (int 58) ''192.168.1.2'' ?m = Inr m'"
    "foldE (\<lambda>_. DisplayThread_round (\<lambda>_. True) ?send) [0..<4] (Led m') = Inr led'" "distinct ls"
    "set ls = {1..line_count 0x44} \<union> {10} \<union> dom (screen (Led ?m))" "screen led' = Map.empty"
    by blast
  moreover from this(4) have "set ls = {1, 2, 3, 10}"
    unfolding lines s by auto
  ultimately show ?thesis
    by blast
qed

end
