(* ===== verification/DisplayLine.thy ===== *)
theory DisplayLine
  imports Session Transport
begin

text \<open>
  The display thread over the transports of the program: what the frames of the display become on the serial
  port and on the TCP connection, system call by system call, and what a connection that breaks loses. The
  thread itself (\<open>DisplayThread_round\<close>) takes the device as a parameter; here it is a \<open>comm\<close> together with
  the state of the system.
\<close>

section \<open>The display's device\<close>

definition line_status :: "comm \<times> 'w os \<Rightarrow> bool" where
  "line_status c = comm_status (fst c)"

text \<open>\<open>Send\<close> through the pointer of the display; with an object that satisfies its class invariant no fault
  is ever left out (\<open>line_send_ok\<close>).\<close>

definition line_send :: "'w kernel \<Rightarrow> byte list \<Rightarrow> comm \<times> 'w os \<Rightarrow> int \<times> comm \<times> 'w os" where
  "line_send K fr c = (case comm_send K fr (fst c) (snd c) of Inr x \<Rightarrow> x | Inl _ \<Rightarrow> (0, c))"

lemma line_send_ok: "comm_valid t \<Longrightarrow> comm_send K fr t s = Inr (line_send K fr (t, s))"
  using comm.send_total [of t K fr s] by (auto simp: line_send_def)

abbreviation display_rounds :: "'w kernel \<Rightarrow> nat \<Rightarrow> (comm \<times> 'w os) qled \<Rightarrow> (comm \<times> 'w os) qled res" where
  "display_rounds K n \<equiv> foldE (\<lambda>_. DisplayThread_round line_status (line_send K)) [0..<n]"

section \<open>A serial line\<close>

text \<open>The serial port stays open whatever a write answers.\<close>

definition twice_to :: "int \<Rightarrow> byte list \<Rightarrow> syscall list" where
  "twice_to f fr = [Write_fd f fr, Write_fd f fr]"

lemma serial_twice:
  assumes "ser_open t" and "ser_fd t = Some f"
  shows "\<exists>s'. send_twice (line_send K) fr (Serial t, s) = (Serial t, s') \<and> calls s' = calls s @ twice_to f fr"
  using assms by (simp add: send_twice_def line_send_def SerialPort_Send_def wrap_def case_prod_beta Let_def twice_to_def)

lemma serial_fold:
  assumes "ser_open t" and "ser_fd t = Some f"
  shows "\<exists>s'. fold (send_twice (line_send K)) frs (Serial t, s) = (Serial t, s') \<and>
    calls s' = calls s @ concat (map (twice_to f) frs)"
proof (induction frs arbitrary: s)
  case (Cons fr frs)
  from serial_twice [OF assms, of K fr s] obtain s1 where
    "send_twice (line_send K) fr (Serial t, s) = (Serial t, s1)" "calls s1 = calls s @ twice_to f fr"
    by blast
  with Cons.IH [of s1] show ?case
    by auto
qed simp

lemma serial_drained:
  assumes "ledList q = Some k" and "tasks_ok k" and "comm q = Some (Serial t, s)" and "ser_open t" and "ser_fd t = Some f"
    and "card (dom (waiting k)) \<le> rounds"
  shows "\<exists>q' ls s'. display_rounds K rounds q = Inr q' \<and> distinct ls \<and> set ls = dom (waiting k) \<and>
    comm q' = Some (Serial t, s') \<and>
    calls s' = calls s @ concat (map (\<lambda>l. twice_to f (fst (the (waiting k l)))) ls) \<and> screen q' = Map.empty"
proof -
  let ?good = "\<lambda>c :: comm \<times> 'a os. fst c = Serial t"
  have good: "\<forall>c fr. ?good c \<longrightarrow> line_status c \<and> ?good (snd (line_send K fr c))"
    using assms(4,5) by (auto simp: line_status_def line_send_def SerialPort_Send_def wrap_def case_prod_beta Let_def)
  have g: "?good (Serial t, s)"
    by simp
  obtain q' ls k' where d: "display_rounds K rounds q = Inr q'" "distinct ls" "set ls = dom (waiting k)"
      "comm q' = Some (fold (send_twice (line_send K)) (map (\<lambda>l. fst (the (waiting k l))) ls) (Serial t, s))"
      "ledList q' = Some k'" "waiting k' = Map.empty"
    using display_good_drain [where good = ?good, OF assms(1-3) g good assms(6)] by blast
  obtain s' where s': "fold (send_twice (line_send K)) (map (\<lambda>l. fst (the (waiting k l))) ls) (Serial t, s) = (Serial t, s')"
      "calls s' = calls s @ concat (map (twice_to f) (map (\<lambda>l. fst (the (waiting k l))) ls))"
    using serial_fold [OF assms(4,5), where K = K] by blast
  show ?thesis
    using d s' by (intro exI [of _ q'] exI [of _ ls] exI [of _ s']) (simp add: screen_def comp_def)
qed

section \<open>A connection that breaks\<close>

lemma closed_rounds:
  assumes "ledList q = Some k" and "tasks_ok k" and "comm q = Some c" and "\<not> GetStatus c"
  shows "foldE (\<lambda>_. DisplayThread_round GetStatus Send) is q = Inr q"
proof (induction "is")
  case (Cons i "is")
  have "\<exists>n. FindNode True k = Inr n"
    using FindNode_ok [of k True] assms(2) by (auto simp: tasks_ok_def)
  then have "DisplayThread_round GetStatus Send q = Inr q"
    using assms(1,3,4) by (auto simp: DisplayThread_round_def split: option.split)
  with Cons show ?case
    by simp
qed simp

lemma broken_twice:
  assumes "cli_open t" and "answer K (Send_sock (cli_fd t) fr) s < 0"
  shows "\<exists>s'. send_twice (line_send K) fr (Client t, s) = (Client (t\<lparr>cli_open := False\<rparr>), s') \<and>
    calls s' = calls s @ [Send_sock (cli_fd t) fr, Close_fd (cli_fd t)]"
  using assms by (simp add: send_twice_def line_send_def TcpClient_Send_def client_disconnected_def wrap_def case_prod_beta Let_def)

section \<open>Properties\<close>

text \<open>
  C19. A display on a serial device: when \<open>CreatComm\<close> has opened the device of the display, as many rounds of the
  display thread as there are lines waiting write the frame of every line twice in a row to the descriptor that
  was opened, and nothing else; no frame is left waiting. This holds whatever the writes answer: their results are
  not looked at.
\<close>

theorem serial_display_writes_all:
  assumes "CreatComm K 0 Dev Port s0 = Inr (Some t, s)" and "ledList q = Some k" and "tasks_ok k" and "comm q = Some (t, s)"
    and "card (dom (waiting k)) \<le> rounds"
  shows "\<exists>f q' ls s'. 0 \<le> f \<and> (\<exists>u. t = Serial u \<and> ser_fd u = Some f) \<and>
    foldE (\<lambda>_. DisplayThread_round line_status (line_send K)) [0..<rounds] q = Inr q' \<and>
    distinct ls \<and> set ls = dom (waiting k) \<and> comm q' = Some (t, s') \<and> screen q' = Map.empty \<and>
    calls s' = calls s @ concat (map (\<lambda>l. twice_to f (fst (the (waiting k l)))) ls)"
proof -
  have "comm_valid t" "comm_status t" "is_serial t"
    using CreatComm_serial [of K Dev Port s0] assms(1) by auto
  then obtain u f where u: "t = Serial u" "ser_open u" "ser_fd u = Some f" "0 \<le> f"
    by (cases t) (auto simp: serial_valid_def)
  from serial_drained [OF assms(2,3) assms(4) [unfolded u(1)] u(2,3) assms(5), of K] show ?thesis
    using u by auto
qed

text \<open>A display with one frame waiting, on any device.\<close>

lemma waiting_display:
  "\<exists>k. tasks_ok k \<and> waiting k = Map.empty(9 \<mapsto> (switch_frame 1, 150)) \<and>
     ledList ((QLED_new k)\<lparr>comm := Some c\<rparr>) = Some k"
  using display_example by (auto simp: QLED_new_def)

definition tty_kernel :: "unit kernel" where
  "tty_kernel c w = ((case c of Open_tty p \<Rightarrow> 5 | Write_fd f b \<Rightarrow> -1 | _ \<Rightarrow> 0, []), w)"

definition refusing_kernel :: "unit kernel" where
  "refusing_kernel c w = ((-1, []), w)"

theorem serial_display_writes_all_witness:
  "\<exists>q q' s' t. foldE (\<lambda>_. DisplayThread_round line_status
      (line_send tty_kernel)) [0..<2] q = Inr q' \<and>
    comm q' = Some (t, s') \<and> calls s' = [Open_tty ''/dev/ttyS1'', Tcflush 5, Tcsetattr 5 9600,
      Write_fd 5 (switch_frame 1), Write_fd 5 (switch_frame 1)]"
proof -
  let ?t = "Serial \<lparr>ser_fd = Some 5, ser_open = True, ser_port = ''/dev/ttyS1'', ser_baud = 9600\<rparr>"
  let ?s = "\<lparr>world = (), calls = [Open_tty ''/dev/ttyS1'', Tcflush 5, Tcsetattr 5 9600]\<rparr>"
  have c: "CreatComm tty_kernel 0 ''/dev/ttyS1'' 9600 \<lparr>world = (), calls = []\<rparr> = Inr (Some ?t, ?s)"
    by code_simp
  obtain k where k: "tasks_ok k" "waiting k = Map.empty(9 \<mapsto> (switch_frame 1, 150))"
      "ledList ((QLED_new k)\<lparr>comm := Some (?t, ?s)\<rparr>) = Some k"
    using waiting_display [of "(?t, ?s)"] by (elim exE conjE) (rule that)
  have n: "card (dom (waiting k)) \<le> 2" and q: "comm ((QLED_new k)\<lparr>comm := Some (?t, ?s)\<rparr>) = Some (?t, ?s)"
    by (simp_all add: k(2))
  from serial_display_writes_all [OF c k(3,1) q n] obtain f q' ls s' where
    r: "foldE (\<lambda>_. DisplayThread_round line_status (line_send tty_kernel)) [0..<2] ((QLED_new k)\<lparr>comm := Some (?t, ?s)\<rparr>) = Inr q'"
      "f = 5" "comm q' = Some (?t, s')" "distinct ls" "set ls = {9}"
      "calls s' = calls ?s @ concat (map (\<lambda>l. twice_to f (fst (the (waiting k l)))) ls)"
    by (auto simp: k(2))
  have "ls = [9]"
    using r(4,5) by (cases ls; cases "tl ls") auto
  then have "calls s' = [Open_tty ''/dev/ttyS1'', Tcflush 5, Tcsetattr 5 9600,
      Write_fd 5 (switch_frame 1), Write_fd 5 (switch_frame 1)]"
    using r(2,6) by (simp add: k(2) twice_to_def)
  with r(1,3) show ?thesis
    by blast
qed

text \<open>
  C20. A display whose connection breaks: the thread has taken a frame off the list before it sends it, and does
  not look at the result. When the kernel refuses to send on the connection, the frame of one line is lost, the
  descriptor is closed once, and all frames of the other lines stay waiting however many rounds follow, until the
  connection is opened again.
\<close>

theorem broken_display_loses_one:
  assumes "ledList q = Some k" and "tasks_ok k" and "dom (waiting k) \<noteq> {}" and "comm q = Some (Client t, s)" and "cli_open t"
    and "\<forall>fr. answer K (Send_sock (cli_fd t) fr) s < 0" and "0 < rounds"
  shows "\<exists>q' l fr k' s'. foldE (\<lambda>_. DisplayThread_round line_status (line_send K)) [0..<rounds] q = Inr q' \<and>
    (\<exists>time. waiting k l = Some (fr, time)) \<and> ledList q' = Some k' \<and> waiting k' = (waiting k)(l := None) \<and>
    comm q' = Some (Client (t\<lparr>cli_open := False\<rparr>), s') \<and>
    calls s' = calls s @ [Send_sock (cli_fd t) fr, Close_fd (cli_fd t)]"
proof -
  obtain l x k' where x: "waiting k l = Some x" "task_fetch k = Inr (Some x, k')" "tasks_ok k'" "waiting k' = (waiting k)(l := None)"
    using tasks.fetch_slot [OF assms(2,3)] by blast
  obtain fr time where fr: "x = (fr, time)"
    by fastforce
  obtain s' where s': "send_twice (line_send K) fr (Client t, s) = (Client (t\<lparr>cli_open := False\<rparr>), s')"
      "calls s' = calls s @ [Send_sock (cli_fd t) fr, Close_fd (cli_fd t)]"
    using broken_twice assms(5,6) by blast
  let ?q = "q\<lparr>ledList := Some k', comm := Some (Client (t\<lparr>cli_open := False\<rparr>), s')\<rparr>"
  have "line_status (Client t, s)"
    using assms(5) by (simp add: line_status_def)
  from round_fetch [where GetStatus = line_status and Send = "line_send K", OF assms(1,4) this x(2) [unfolded fr]]
  have r: "DisplayThread_round line_status (line_send K) q = Inr ?q"
    by (simp add: s'(1))
  have "foldE (\<lambda>_. DisplayThread_round line_status (line_send K)) [1..<rounds] ?q = Inr ?q"
    by (rule closed_rounds [where c = "(Client (t\<lparr>cli_open := False\<rparr>), s')", OF _ x(3)]) (simp_all add: line_status_def)
  then have "foldE (\<lambda>_. DisplayThread_round line_status (line_send K)) [0..<rounds] q = Inr ?q"
    using assms(7) r by (simp add: upt_conv_Cons)
  then show ?thesis
    using x s'(2) by (intro exI [of _ ?q] exI [of _ l] exI [of _ fr] exI [of _ k'] exI [of _ s']) (simp add: fr)
qed

theorem broken_display_loses_one_witness:
  "\<exists>q q' k' s' t. foldE (\<lambda>_. DisplayThread_round line_status (line_send refusing_kernel)) [0..<5] q = Inr q' \<and>
    screen q 9 = Some (switch_frame 1, 150) \<and> ledList q' = Some k' \<and> waiting k' = Map.empty \<and>
    comm q' = Some (t, s') \<and> calls s' = [Send_sock 7 (switch_frame 1), Close_fd 7]"
proof -
  let ?t = "\<lparr>cli_open = True, cli_fd = 7, cli_ip = ''10.0.0.9'', cli_port = 5000, ConnectLen = 0\<rparr>"
  let ?s = "\<lparr>world = (), calls = []\<rparr>"
  let ?q = "\<lambda>k. (QLED_new k)\<lparr>comm := Some (Client ?t, ?s)\<rparr>"
  obtain k where k: "tasks_ok k" "waiting k = Map.empty(9 \<mapsto> (switch_frame 1, 150))" "ledList (?q k) = Some k"
    using waiting_display [of "(Client ?t, ?s)"] by (elim exE conjE) (rule that)
  have q: "comm (?q k) = Some (Client ?t, ?s)" "cli_open ?t" "dom (waiting k) \<noteq> {}" "0 < (5 :: nat)"
    and a: "\<forall>fr. answer refusing_kernel (Send_sock (cli_fd ?t) fr) ?s < 0"
    by (simp_all add: k(2) answer_def refusing_kernel_def)
  from broken_display_loses_one [OF k(3,1) q(3,1,2) a q(4)] obtain q' l fr k' s' where
    r: "foldE (\<lambda>_. DisplayThread_round line_status (line_send refusing_kernel)) [0..<5] (?q k) = Inr q'"
      "\<exists>time. waiting k l = Some (fr, time)" "ledList q' = Some k'" "waiting k' = (waiting k)(l := None)"
      "comm q' = Some (Client (?t\<lparr>cli_open := False\<rparr>), s')"
      "calls s' = calls ?s @ [Send_sock (cli_fd ?t) fr, Close_fd (cli_fd ?t)]"
    by (elim exE conjE) (rule that, assumption, rule exI, assumption+)
  have "l = 9" and "fr = switch_frame 1"
    using r(2) by (auto simp: k(2) split: if_splits)
  then have "waiting k' = Map.empty" and "calls s' = [Send_sock 7 (switch_frame 1), Close_fd 7]"
    using r(4,6) by (simp_all add: k(2))
  moreover have "screen (?q k) 9 = Some (switch_frame 1, 150)"
    using k(3) by (simp add: screen_def k(2))
  ultimately show ?thesis
    using r(1,3,5) by blast
qed

end
