(* ===== verification/Threads.thy ===== *)
theory Threads
  imports Machine
begin

text \<open>
  The endless threads of the controller (src/IMachine.cpp), one turn of each: \<open>VehicleThread\<close>, which
  reports the loop detectors and the mode switch, \<open>HeartThread\<close>, and \<open>TimerThread\<close>, which shows the
  default text after ten idle seconds. The local variables of \<open>VehicleThread\<close> are the record
  \<open>vehicle\<close>. The clock is the count of \<open>steady_clock\<close>, in nanoseconds.
\<close>

section \<open>The code\<close>

record vehicle =
  newIOStatus :: "int list"
  oldIOStatus :: "int list"
  manualSwitchStatus :: int
  ManualSwitchStatusOld :: int
  coilOput :: "byte list"
  TxSEQ :: "32 word"

definition vehicle_start :: vehicle where
  "vehicle_start = \<lparr>newIOStatus = replicate 9 0, oldIOStatus = replicate 9 0, manualSwitchStatus = 0,
     ManualSwitchStatusOld = 0, coilOput = [0xDC, 0x00, 0], TxSEQ = 0\<rparr>"

definition is_open :: "tcp_server option \<Rightarrow> bool res" where
  "is_open t = (case t of None \<Rightarrow> Inl Uninitialised | Some t \<Rightarrow> Inr (connected t))"

definition read_pin ::
  "('w, 'cd) platform \<Rightarrow> gpio \<Rightarrow> ('c, 'w) machine \<Rightarrow> (int \<times> ('c, 'w) machine) res" where
  "read_pin P g m = bindE (GetIOValue (kernel P) g (machine_os m)) (\<lambda>(x, s). Inr (x, m\<lparr>machine_os := s\<rparr>))"

text \<open>The chain of comparisons that sets \<open>Oput[2]\<close>; other readings leave it as it was.\<close>

definition coil_status :: "int list \<Rightarrow> byte list \<Rightarrow> byte list" where
  "coil_status new Oput =
     (if new ! 3 = 0 \<and> new ! 2 = 0 \<and> new ! 1 = 0 then Oput[2 := 0x00]
      else if new ! 3 = 0 \<and> new ! 2 = 0 \<and> new ! 1 = 1 then Oput[2 := 0x01]
      else if new ! 3 = 0 \<and> new ! 2 = 1 \<and> new ! 1 = 0 then Oput[2 := 0x02]
      else if new ! 3 = 0 \<and> new ! 2 = 1 \<and> new ! 1 = 1 then Oput[2 := 0x03]
      else if new ! 3 = 1 \<and> new ! 2 = 0 \<and> new ! 1 = 0 then Oput[2 := 0x04]
      else if new ! 3 = 1 \<and> new ! 2 = 0 \<and> new ! 1 = 1 then Oput[2 := 0x05]
      else if new ! 3 = 1 \<and> new ! 2 = 1 \<and> new ! 1 = 0 then Oput[2 := 0x06]
      else if new ! 3 = 1 \<and> new ! 2 = 1 \<and> new ! 1 = 1 then Oput[2 := 0x07]
      else Oput)"

definition next_seq :: "32 word \<Rightarrow> 32 word" where
  "next_seq n = (if n div 10 = 0x08 then 0x10 else n + 10)"

definition send_coil ::
  "('w, 'cd) platform \<Rightarrow> vehicle \<Rightarrow> ('c, 'w) machine \<Rightarrow> (vehicle \<times> ('c, 'w) machine) res" where
  "send_coil P v m =
     (if manualSwitchStatus v = 0
      then bindE (CommunicationSend P (ucast (TxSEQ v)) 0xDC (coilOput v) 3 1 (Client1 m) m) (\<lambda>(_, m). Inr (v, m))
      else if manualSwitchStatus v = 1
      then bindE (CommunicationSend P (ucast (TxSEQ v)) 0xDC (coilOput v) 3 1 (Client2 m) m) (\<lambda>(_, m). Inr (v, m))
      else Inr (v, m))"

definition coil_step ::
  "('w, 'cd) platform \<Rightarrow> nat \<Rightarrow> vehicle \<times> ('c, 'w) machine \<Rightarrow> (vehicle \<times> ('c, 'w) machine) res" where
  "coil_step P i x =
     (let (v, m) = x
      in if newIOStatus v ! i \<noteq> -1 \<and> newIOStatus v ! i \<noteq> oldIOStatus v ! i
         then send_coil P (v\<lparr>coilOput := coil_status (newIOStatus v) (coilOput v),
                oldIOStatus := (oldIOStatus v)[i := newIOStatus v ! i], TxSEQ := next_seq (TxSEQ v)\<rparr>) m
         else if manualSwitchStatus v \<noteq> ManualSwitchStatusOld v
         then send_coil P (v\<lparr>ManualSwitchStatusOld := manualSwitchStatus v\<rparr>) m
         else Inr (v, m))"

definition read_inputs ::
  "('w, 'cd) platform \<Rightarrow> ('c, 'w) machine \<Rightarrow> (int \<times> int \<times> int \<times> int \<times> ('c, 'w) machine) res" where
  "read_inputs P m =
     bindE (read_pin P (VehicleDevice1 m) m) (\<lambda>(n1, m).
     bindE (read_pin P (VehicleDevice2 m) m) (\<lambda>(n2, m).
     bindE (read_pin P (VehicleDevice3 m) m) (\<lambda>(n3, m).
     bindE (read_pin P (ManualSwitch m) m) (\<lambda>(ms, m). Inr (n1, n2, n3, ms, m)))))"

definition vehicle_round ::
  "('w, 'cd) platform \<Rightarrow> vehicle \<times> ('c, 'w) machine \<Rightarrow> (vehicle \<times> ('c, 'w) machine) res" where
  "vehicle_round P x =
     (let (v, m) = x
      in bindE (is_open (Tcp1 m)) (\<lambda>o1.
         bindE (if o1 then Inr True else is_open (Tcp2 m)) (\<lambda>up.
         if up
         then bindE (read_inputs P m) (\<lambda>(n1, n2, n3, ms, m).
              foldE (coil_step P) [1, 2, 3]
                (v\<lparr>newIOStatus := (newIOStatus v)[1 := n1, 2 := n2, 3 := n3], manualSwitchStatus := ms\<rparr>,
                 m\<lparr>IO4_manualSwitchStatus := ms\<rparr>))
         else Inr (v\<lparr>oldIOStatus := replicate 8 (-1) @ drop 8 (oldIOStatus v)\<rparr>, m))))"

definition HeartThread_round ::
  "('w, 'cd) platform \<Rightarrow> ('c, 'w) machine \<Rightarrow> ('c, 'w) machine res" where
  "HeartThread_round P m =
     bindE (is_open (Tcp1 m)) (\<lambda>o1.
     bindE (if o1 then Inr True else is_open (Tcp2 m)) (\<lambda>up.
     if \<not> up then Inr m
     else bindE (CommunicationSend P 0x90 0xB0 [] 0 0 (Client1 m) m) (\<lambda>(_, m).
          bindE (CommunicationSend P 0x90 0xB0 [] 0 0 (Client2 m) m) (\<lambda>(_, m). Inr m))))"

definition UpdateTimer :: "('c, 'w) machine \<Rightarrow> ('c, 'w) machine" where
  "UpdateTimer m = m\<lparr>lastPlayTime := clock m, resetTimer := True\<rparr>"

text \<open>\<open>TimerThread\<close> decides outside the lock (\<open>default_due\<close>) and shows inside it.\<close>

definition default_due :: "('c, 'w) machine \<Rightarrow> bool" where
  "default_due m \<longleftrightarrow> 10 \<le> (clock m - lastPlayTime m) div 1000000000"

definition defaultContent :: "byte list list" where
  "defaultContent =
     [[0x20, 0x45, 0x54, 0x43, 0x2F, 0xC8, 0xCB, 0xB9, 0xA4],
      [0x20, 0xBB, 0xEC, 0xBA, 0xCF, 0xB3, 0xB5, 0xB5, 0xC0, 0x20],
      [0xD2, 0xBB, 0xB3, 0xB5, 0xD2, 0xBB, 0xC2, 0xE4, 0xB8, 0xCB],
      [0x20, 0x20, 0x20, 0x20, 0x20, 0x20, 0x20, 0x20, 0x20, 0x20]]"

definition show_default :: "('c, 'w) machine \<Rightarrow> ('c, 'w) machine res" where
  "show_default m =
     (if displayingDefaultContent m then Inr m
      else bindE (foldE (\<lambda>i led. bindE (DisplyShow (int i + 1) 0 0x01 0x09 (defaultContent ! i)
                    (int (length (defaultContent ! i))) led) (\<lambda>(_, led). Inr led)) [0, 1, 2, 3] (Led m)) (\<lambda>led.
           Inr (m\<lparr>Led := led, displayingDefaultContent := True\<rparr>)))"

definition TimerThread_round :: "('c, 'w) machine \<Rightarrow> ('c, 'w) machine res" where
  "TimerThread_round m = (if default_due m then show_default m else Inr m)"

section \<open>Reading the pins\<close>

lemma GetIOValue_total:
  assumes "gpio_ok g"
  shows "\<exists>x s'. GetIOValue K g s = Inr (x, s') \<and> x \<in> {-1, 0, 1} \<and>
    calls s' = calls s @ (if isOpen g then [Lseek (the (fd g)), Read_fd (the (fd g)) 1] else [])"
  using assms by (auto simp: GetIOValue_def gpio_ok_def case_prod_beta Let_def)

definition read_calls :: "gpio \<Rightarrow> syscall list" where
  "read_calls g = (if isOpen g then [Lseek (the (fd g)), Read_fd (the (fd g)) 1] else [])"

lemma read_pin_total:
  assumes "gpio_ok g"
  shows "\<exists>x s'. read_pin P g m = Inr (x, m\<lparr>machine_os := s'\<rparr>) \<and> x \<in> {-1, 0, 1} \<and>
    calls s' = calls (machine_os m) @ read_calls g"
  using GetIOValue_total [OF assms, of "kernel P" "machine_os m"] by (auto simp: read_pin_def read_calls_def)

definition input_calls :: "('c, 'w) machine \<Rightarrow> syscall list" where
  "input_calls m = read_calls (VehicleDevice1 m) @ read_calls (VehicleDevice2 m) @ read_calls (VehicleDevice3 m) @
     read_calls (ManualSwitch m)"

text \<open>Whatever the kernel answers, the inputs are read, and only read.\<close>

lemma read_inputs_total:
  assumes "pins_ok m"
  shows "\<exists>n1 n2 n3 ms s'. read_inputs P m = Inr (n1, n2, n3, ms, m\<lparr>machine_os := s'\<rparr>) \<and>
    {n1, n2, n3, ms} \<subseteq> {-1, 0, 1} \<and> calls s' = calls (machine_os m) @ input_calls m"
proof -
  have g: "gpio_ok (VehicleDevice1 m)" "gpio_ok (VehicleDevice2 m)" "gpio_ok (VehicleDevice3 m)" "gpio_ok (ManualSwitch m)"
    using assms by (simp_all add: pins_ok_def)
  obtain n1 s1 where 1: "read_pin P (VehicleDevice1 m) m = Inr (n1, m\<lparr>machine_os := s1\<rparr>)" "n1 \<in> {-1, 0, 1}"
    "calls s1 = calls (machine_os m) @ read_calls (VehicleDevice1 m)"
    using read_pin_total [OF g(1)] by blast
  obtain n2 s2 where 2: "read_pin P (VehicleDevice2 m) (m\<lparr>machine_os := s1\<rparr>) = Inr (n2, m\<lparr>machine_os := s2\<rparr>)"
    "n2 \<in> {-1, 0, 1}" "calls s2 = calls s1 @ read_calls (VehicleDevice2 m)"
    using read_pin_total [OF g(2), of P "m\<lparr>machine_os := s1\<rparr>"] by auto
  obtain n3 s3 where 3: "read_pin P (VehicleDevice3 m) (m\<lparr>machine_os := s2\<rparr>) = Inr (n3, m\<lparr>machine_os := s3\<rparr>)"
    "n3 \<in> {-1, 0, 1}" "calls s3 = calls s2 @ read_calls (VehicleDevice3 m)"
    using read_pin_total [OF g(3), of P "m\<lparr>machine_os := s2\<rparr>"] by auto
  obtain n4 s4 where 4: "read_pin P (ManualSwitch m) (m\<lparr>machine_os := s3\<rparr>) = Inr (n4, m\<lparr>machine_os := s4\<rparr>)"
    "n4 \<in> {-1, 0, 1}" "calls s4 = calls s3 @ read_calls (ManualSwitch m)"
    using read_pin_total [OF g(4), of P "m\<lparr>machine_os := s3\<rparr>"] by auto
  show ?thesis
    using 1 2 3 4 by (intro exI [of _ n1] exI [of _ n2] exI [of _ n3] exI [of _ n4] exI [of _ s4])
      (simp add: read_inputs_def input_calls_def)
qed

section \<open>The sequence number\<close>

lemma next_seq_nat:
  assumes "unat n < 90"
  shows "unat (next_seq n) < 90" and "unat (next_seq n) div 10 = unat n div 10 mod 8 + 1"
proof -
  have d: "n div 10 = 8 \<longleftrightarrow> unat n div 10 = 8"
    by (simp add: word_unat_eq_iff unat_div)
  have a: "unat (n + 10) = unat n + 10"
    using assms by (simp add: unat_word_ariths)
  have e: "unat n div 10 = 8 \<or> unat n div 10 < 8"
    using assms by linarith
  show "unat (next_seq n) < 90" and "unat (next_seq n) div 10 = unat n div 10 mod 8 + 1"
    using e a assms by (auto simp: next_seq_def d)
qed

section \<open>Reporting the loop detectors\<close>

text \<open>The status byte: one bit per detector, detector 1 lowest.\<close>

definition status_bits :: "int \<Rightarrow> int \<Rightarrow> int \<Rightarrow> byte" where
  "status_bits a b c = word_of_int (a + 2 * b + 4 * c)"

lemma coil_status_bits:
  assumes "new ! 1 \<in> {0, 1}" and "new ! 2 \<in> {0, 1}" and "new ! 3 \<in> {0, 1}"
  shows "coil_status new Oput = Oput[2 := status_bits (new ! 1) (new ! 2) (new ! 3)]"
  using assms by (auto simp: coil_status_def status_bits_def)

lemma coil_status_unread:
  assumes "new ! 1 \<notin> {0, 1} \<or> new ! 2 \<notin> {0, 1} \<or> new ! 3 \<notin> {0, 1}"
  shows "coil_status new Oput = Oput"
  using assms by (auto simp: coil_status_def)

text \<open>Who is told, and with which frame.\<close>

definition in_charge :: "int \<Rightarrow> ('c, 'w) machine \<Rightarrow> tcp_server" where
  "in_charge ms m = client_server (if ms = 0 then Client1 m else Client2 m) m"

definition coil_frame :: "32 word \<Rightarrow> byte list \<Rightarrow> byte list" where
  "coil_frame n Oput = reply_frame (ucast n) Oput"

lemma send_coil_ok:
  assumes "machine_ok m" and "manualSwitchStatus v \<in> {0, 1}" and "length (coilOput v) = 3"
  shows "send_coil P v m = Inr (v, m\<lparr>machine_os :=
    send_os (kernel P) (coil_frame (TxSEQ v) (coilOput v)) (in_charge (manualSwitchStatus v) m) (machine_os m)\<rparr>)"
proof -
  have f: "send_frame (ucast (TxSEQ v)) 0xDC (coilOput v) 3 = Inr (coil_frame (TxSEQ v) (coilOput v))"
    using send_frame_ok [where Type = "0xDC" and data = "coilOput v" and rest = "[]"] assms(3) by (simp add: coil_frame_def)
  have "CommunicationSend P (ucast (TxSEQ v)) 0xDC (coilOput v) 3 1 ip m = Inr (None, m\<lparr>machine_os :=
      send_os (kernel P) (coil_frame (TxSEQ v) (coilOput v)) (client_server ip m) (machine_os m)\<rparr>)"
    if "ip \<in> {Client1 m, Client2 m}" for ip
    using that by (intro CommunicationSend_ok [OF assms(1) _ f]) (auto simp: known_client_def)
  then show ?thesis
    using assms(2) by (auto simp: send_coil_def in_charge_def)
qed

lemma in_charge_os [simp]: "in_charge ms (m\<lparr>machine_os := s\<rparr>) = in_charge ms m"
  by (simp add: in_charge_def client_server_def)

text \<open>The frames of a round in which \<open>k\<close> detectors changed: the same status, numbered on.\<close>

primrec coil_frames :: "nat \<Rightarrow> 32 word \<Rightarrow> byte \<Rightarrow> byte list list" where
  "coil_frames 0 n st = []"
| "coil_frames (Suc k) n st = coil_frame (next_seq n) [0xDC, 0, st] # coil_frames k (next_seq n) st"

definition changed_coils :: "vehicle \<Rightarrow> nat list \<Rightarrow> nat list" where
  "changed_coils v is = filter (\<lambda>i. newIOStatus v ! i \<noteq> oldIOStatus v ! i) is"

text \<open>All detectors read, and the mode switch as before.\<close>

definition steady :: "vehicle \<Rightarrow> bool" where
  "steady v \<longleftrightarrow> (\<forall>i\<in>{1, 2, 3}. newIOStatus v ! i \<in> {0, 1}) \<and> length (oldIOStatus v) = 9 \<and>
     manualSwitchStatus v \<in> {0, 1} \<and> ManualSwitchStatusOld v = manualSwitchStatus v"

definition current_status :: "vehicle \<Rightarrow> byte" where
  "current_status v = status_bits (newIOStatus v ! 1) (newIOStatus v ! 2) (newIOStatus v ! 3)"

lemma coil_step_steady:
  assumes "machine_ok m" and "steady v" and "coilOput v = [0xDC, 0, x]" and "i \<in> {1, 2, 3}"
  shows "coil_step P i (v, m) =
    (if newIOStatus v ! i = oldIOStatus v ! i then Inr (v, m)
     else Inr (v\<lparr>coilOput := [0xDC, 0, current_status v], oldIOStatus := (oldIOStatus v)[i := newIOStatus v ! i],
            TxSEQ := next_seq (TxSEQ v)\<rparr>,
          m\<lparr>machine_os := send_os (kernel P) (coil_frame (next_seq (TxSEQ v)) [0xDC, 0, current_status v])
            (in_charge (manualSwitchStatus v) m) (machine_os m)\<rparr>))"
proof -
  have n: "newIOStatus v ! i \<noteq> -1"
    using assms(2,4) by (auto simp: steady_def)
  have c: "coil_status (newIOStatus v) (coilOput v) = [0xDC, 0, current_status v]"
    using assms(2,3) by (simp add: coil_status_bits steady_def current_status_def)
  let ?v = "v\<lparr>coilOput := [0xDC, 0, current_status v], oldIOStatus := (oldIOStatus v)[i := newIOStatus v ! i],
      TxSEQ := next_seq (TxSEQ v)\<rparr>"
  have "send_coil P ?v m = Inr (?v, m\<lparr>machine_os := send_os (kernel P) (coil_frame (next_seq (TxSEQ v))
      [0xDC, 0, current_status v]) (in_charge (manualSwitchStatus v) m) (machine_os m)\<rparr>)"
    using send_coil_ok [of m ?v P] assms(1,2) by (simp add: steady_def)
  then show ?thesis
    using n c assms(2) by (simp add: coil_step_def steady_def)
qed

lemma coil_fold_steady:
  assumes "machine_ok m" and "steady v" and "coilOput v = [0xDC, 0, x]" and "set is \<subseteq> {1, 2, 3}" and "distinct is"
  shows "\<exists>v' s'. foldE (coil_step P) is (v, m) = Inr (v', m\<lparr>machine_os := s'\<rparr>) \<and>
    calls s' = calls (machine_os m) @ concat (map (send_calls (in_charge (manualSwitchStatus v) m))
      (coil_frames (length (changed_coils v is)) (TxSEQ v) (current_status v))) \<and>
    coilOput v' = [0xDC, 0, if changed_coils v is = [] then x else current_status v] \<and>
    TxSEQ v' = (next_seq ^^ length (changed_coils v is)) (TxSEQ v) \<and>
    (\<forall>i. oldIOStatus v' ! i = (if i \<in> set is then newIOStatus v ! i else oldIOStatus v ! i)) \<and>
    newIOStatus v' = newIOStatus v \<and> manualSwitchStatus v' = manualSwitchStatus v \<and>
    ManualSwitchStatusOld v' = ManualSwitchStatusOld v \<and> steady v'"
  using assms
proof (induction "is" arbitrary: v m x)
  case Nil
  then show ?case
    by (intro exI [of _ v] exI [of _ "machine_os m"]) (simp add: changed_coils_def)
next
  case (Cons i "is")
  show ?case
  proof (cases "newIOStatus v ! i = oldIOStatus v ! i")
    case True
    then have "coil_step P i (v, m) = Inr (v, m)"
      using coil_step_steady [OF Cons.prems(1-3), of i P] Cons.prems(4) by simp
    then show ?thesis
      using Cons.IH [OF Cons.prems(1-3)] Cons.prems(4,5) True by (fastforce simp: changed_coils_def)
  next
    case False
    let ?v = "v\<lparr>coilOput := [0xDC, 0, current_status v], oldIOStatus := (oldIOStatus v)[i := newIOStatus v ! i],
            TxSEQ := next_seq (TxSEQ v)\<rparr>"
    let ?s = "send_os (kernel P) (coil_frame (next_seq (TxSEQ v)) [0xDC, 0, current_status v])
            (in_charge (manualSwitchStatus v) m) (machine_os m)"
    have st: "coil_step P i (v, m) = Inr (?v, m\<lparr>machine_os := ?s\<rparr>)"
      using coil_step_steady [OF Cons.prems(1-3), of i P] Cons.prems(4) False by simp
    have v: "steady ?v" "current_status ?v = current_status v" "coilOput ?v = [0xDC, 0, current_status v]"
      using Cons.prems(2) by (simp_all add: steady_def current_status_def)
    have i: "i < length (oldIOStatus v)" "i \<notin> set is"
      using Cons.prems(2,4,5) by (auto simp: steady_def)
    have ch: "changed_coils ?v is = changed_coils v is"
      unfolding changed_coils_def using i by (intro filter_cong) (auto simp: nth_list_update)
    have mok: "machine_ok (m\<lparr>machine_os := ?s\<rparr>)"
      using Cons.prems(1) by (simp add: machine_ok_updates)
    have fl: "newIOStatus ?v = newIOStatus v" "oldIOStatus ?v = (oldIOStatus v)[i := newIOStatus v ! i]"
      "TxSEQ ?v = next_seq (TxSEQ v)" "manualSwitchStatus ?v = manualSwitchStatus v"
      "ManualSwitchStatusOld ?v = ManualSwitchStatusOld v" "machine_os (m\<lparr>machine_os := ?s\<rparr>) = ?s"
      "\<And>s. m\<lparr>machine_os := ?s\<rparr>\<lparr>machine_os := s\<rparr> = m\<lparr>machine_os := s\<rparr>"
      by simp_all
    have sub: "set is \<subseteq> {1, 2, 3}" "distinct is"
      using Cons.prems(4,5) by simp_all
    obtain v' s' where IH: "foldE (coil_step P) is (?v, m\<lparr>machine_os := ?s\<rparr>) = Inr (v', m\<lparr>machine_os := s'\<rparr>)"
      "calls s' = calls ?s @ concat (map (send_calls (in_charge (manualSwitchStatus v) m))
        (coil_frames (length (changed_coils v is)) (next_seq (TxSEQ v)) (current_status v)))"
      "coilOput v' = [0xDC, 0, current_status v]"
      "TxSEQ v' = (next_seq ^^ length (changed_coils v is)) (next_seq (TxSEQ v))"
      "\<forall>j. oldIOStatus v' ! j = (if j \<in> set is then newIOStatus v ! j else (oldIOStatus v)[i := newIOStatus v ! i] ! j)"
      "newIOStatus v' = newIOStatus v" "manualSwitchStatus v' = manualSwitchStatus v"
      "ManualSwitchStatusOld v' = ManualSwitchStatusOld v" "steady v'"
      using Cons.IH [OF mok v(1,3) sub] unfolding fl ch v(2) in_charge_os if_cancel by (elim exE conjE) (rule that)
    have "changed_coils v (i # is) = i # changed_coils v is"
      using False by (simp add: changed_coils_def)
    then have l: "length (changed_coils v (i # is)) = Suc (length (changed_coils v is))" "changed_coils v (i # is) \<noteq> []"
      by simp_all
    have old: "\<forall>j. oldIOStatus v' ! j = (if j \<in> set (i # is) then newIOStatus v ! j else oldIOStatus v ! j)"
      using IH(5) i by (auto simp: nth_list_update)
    have "foldE (coil_step P) (i # is) (v, m) = Inr (v', m\<lparr>machine_os := s'\<rparr>)"
      using st IH(1) by simp
    moreover have "TxSEQ v' = (next_seq ^^ Suc (length (changed_coils v is))) (TxSEQ v)"
      using IH(4) by (simp add: funpow_swap1)
    moreover have "calls s' = calls (machine_os m) @ concat (map (send_calls (in_charge (manualSwitchStatus v) m))
        (coil_frames (Suc (length (changed_coils v is))) (TxSEQ v) (current_status v)))"
      using IH(2) by simp
    ultimately show ?thesis
      using l old IH(3,6-9) by (intro exI [of _ v'] exI [of _ s']) (simp only: if_False simp_thms)
  qed
qed

definition any_open :: "('c, 'w) machine \<Rightarrow> bool" where
  "any_open m \<longleftrightarrow> connected (the (Tcp1 m)) \<or> connected (the (Tcp2 m))"

lemma any_open_test:
  assumes "machine_ok m"
  shows "bindE (is_open (Tcp1 m)) (\<lambda>o1. bindE (if o1 then Inr True else is_open (Tcp2 m)) f) = f (any_open m)"
proof -
  obtain t1 t2 where "Tcp1 m = Some t1" "Tcp2 m = Some t2"
    using assms by (auto simp: machine_ok_def split: option.splits)
  then show ?thesis
    by (simp add: is_open_def any_open_def)
qed

text \<open>What the thread keeps between turns: its arrays, and a reported status.\<close>

definition vehicle_ok :: "vehicle \<Rightarrow> bool" where
  "vehicle_ok v \<longleftrightarrow> length (newIOStatus v) = 9 \<and> length (oldIOStatus v) = 9 \<and> unat (TxSEQ v) < 90 \<and>
     (\<exists>x. coilOput v = [0xDC, 0, x])"

lemma vehicle_ok_start: "vehicle_ok vehicle_start"
  by (simp add: vehicle_ok_def vehicle_start_def)

lemma seq_iterate: "unat n < 90 \<Longrightarrow> unat ((next_seq ^^ k) n) < 90"
  by (induction k) (simp_all add: next_seq_nat)

definition loaded :: "vehicle \<Rightarrow> int \<Rightarrow> int \<Rightarrow> int \<Rightarrow> int \<Rightarrow> vehicle" where
  "loaded v n1 n2 n3 ms =
     v\<lparr>newIOStatus := (newIOStatus v)[1 := n1, 2 := n2, 3 := n3], manualSwitchStatus := ms\<rparr>"

lemma loaded_sel:
  assumes "length (newIOStatus v) = 9"
  shows "newIOStatus (loaded v n1 n2 n3 ms) ! 1 = n1" "newIOStatus (loaded v n1 n2 n3 ms) ! 2 = n2"
    "newIOStatus (loaded v n1 n2 n3 ms) ! 3 = n3"
  using assms by (simp_all add: loaded_def)

lemma vehicle_round_steady:
  assumes "machine_ok m" and "any_open m" and "vehicle_ok v"
    and "read_inputs P m = Inr (n1, n2, n3, ms, m\<lparr>machine_os := s1\<rparr>)"
    and "{n1, n2, n3, ms} \<subseteq> {0, 1}" and "ms = ManualSwitchStatusOld v"
  shows "\<exists>v' s'. vehicle_round P (v, m) = Inr (v', m\<lparr>machine_os := s', IO4_manualSwitchStatus := ms\<rparr>) \<and> vehicle_ok v' \<and>
    (let k = length (filter (\<lambda>(n, i). n \<noteq> oldIOStatus v ! i) [(n1, 1), (n2, 2), (n3, 3)])
     in calls s' = calls s1 @ concat (map (send_calls (in_charge ms m)) (coil_frames k (TxSEQ v) (status_bits n1 n2 n3))) \<and>
        TxSEQ v' = (next_seq ^^ k) (TxSEQ v) \<and>
        coilOput v' = (if k = 0 then coilOput v else [0xDC, 0, status_bits n1 n2 n3])) \<and>
    oldIOStatus v' ! 1 = n1 \<and> oldIOStatus v' ! 2 = n2 \<and> oldIOStatus v' ! 3 = n3 \<and>
    ManualSwitchStatusOld v' = ManualSwitchStatusOld v"
proof -
  let ?v = "loaded v n1 n2 n3 ms"
  let ?m = "m\<lparr>machine_os := s1, IO4_manualSwitchStatus := ms\<rparr>"
  have l: "length (newIOStatus v) = 9" "length (oldIOStatus v) = 9" "unat (TxSEQ v) < 90"
    using assms(3) by (simp_all add: vehicle_ok_def)
  obtain x where x: "coilOput v = [0xDC, 0, x]"
    using assms(3) by (auto simp: vehicle_ok_def)
  have fields: "oldIOStatus ?v = oldIOStatus v" "coilOput ?v = coilOput v" "TxSEQ ?v = TxSEQ v"
    "manualSwitchStatus ?v = ms" "ManualSwitchStatusOld ?v = ManualSwitchStatusOld v" "length (newIOStatus ?v) = 9"
    using l by (simp_all add: loaded_def)
  have st: "steady ?v"
    using assms(5,6) l fields loaded_sel [OF l(1)] by (simp add: steady_def)
  have cs: "current_status ?v = status_bits n1 n2 n3"
    using loaded_sel [OF l(1)] by (simp add: current_status_def)
  have ch: "length (changed_coils ?v [1, 2, 3]) =
      length (filter (\<lambda>(n, i). n \<noteq> oldIOStatus v ! i) [(n1, 1), (n2, 2), (n3, 3)])"
    using loaded_sel [OF l(1)] fields(1) by (simp add: changed_coils_def)
  have ok: "machine_ok ?m"
    using assms(1) by (simp add: machine_ok_def pins_ok_def)
  have ic: "in_charge ms ?m = in_charge ms m"
    by (simp add: in_charge_def client_server_def)
  have x': "coilOput ?v = [0xDC, 0, x]"
    using x fields(2) by simp
  have "set [1, 2, 3 :: nat] \<subseteq> {1, 2, 3}" and "distinct [1, 2, 3 :: nat]"
    by simp_all
  from coil_fold_steady [OF ok st x' this, of P] obtain v' s' where
    f: "foldE (coil_step P) [1, 2, 3] (?v, ?m) = Inr (v', ?m\<lparr>machine_os := s'\<rparr>)" and
    v': "calls s' = calls s1 @ concat (map (send_calls (in_charge ms m))
        (coil_frames (length (changed_coils ?v [1, 2, 3])) (TxSEQ v) (status_bits n1 n2 n3)))"
      "coilOput v' = [0xDC, 0, if changed_coils ?v [1, 2, 3] = [] then x else status_bits n1 n2 n3]"
      "TxSEQ v' = (next_seq ^^ length (changed_coils ?v [1, 2, 3])) (TxSEQ v)"
      "\<forall>i. oldIOStatus v' ! i = (if i \<in> set [1, 2, 3] then newIOStatus ?v ! i else oldIOStatus v ! i)"
      "newIOStatus v' = newIOStatus ?v" "ManualSwitchStatusOld v' = ManualSwitchStatusOld v" "steady v'"
    unfolding fields cs ic by auto
  have "vehicle_ok v'"
    using v' l(3) fields(6) seq_iterate by (simp add: vehicle_ok_def steady_def)
  moreover have "vehicle_round P (v, m) = Inr (v', m\<lparr>machine_os := s', IO4_manualSwitchStatus := ms\<rparr>)"
    using f assms(2) by (simp add: vehicle_round_def any_open_test [OF assms(1)] assms(4) loaded_def Let_def)
  moreover have "oldIOStatus v' ! 1 = n1" "oldIOStatus v' ! 2 = n2" "oldIOStatus v' ! 3 = n3"
    using v'(4) loaded_sel [OF l(1)] by simp_all
  ultimately show ?thesis
    using v'(1-3,6) x unfolding Let_def ch [symmetric]
    by (intro exI [of _ v'] exI [of _ s']) simp
qed

lemma coil_frames_nth:
  assumes "unat n < 90" and "j < k"
  shows "(coil_frames k n st ! j) ! 3 = word_of_nat ((unat n div 10 + j) mod 8 + 1)"
  using assms
proof (induction k arbitrary: n j)
  case (Suc k)
  have b: "(ucast x :: byte) div 10 = word_of_nat (unat x div 10)" if "unat x < 90" for x :: "32 word"
  proof -
    have "unat (ucast x :: byte) = unat x"
      using that by (simp add: unsigned_ucast_eq take_bit_nat_eq_self)
    then have "unat ((ucast x :: byte) div 10) = unat x div 10"
      by (simp add: unat_div)
    then show ?thesis
      by (metis of_nat_unat ucast_id)
  qed
  note ns = next_seq_nat [OF Suc.prems(1)]
  show ?case
  proof (cases j)
    case 0
    then show ?thesis
      using b [OF ns(1)] ns(2) by (simp add: coil_frame_def reply_frame_def bcc.seal_def)
  next
    case (Suc i)
    then have "(coil_frames k (next_seq n) st ! i) ! 3 = word_of_nat ((unat (next_seq n) div 10 + i) mod 8 + 1)"
      using Suc.prems by (intro Suc.IH ns(1)) simp
    moreover have "(unat n div 10 mod 8 + 1 + i) mod 8 = (unat n div 10 + Suc i) mod 8"
      using mod_add_left_eq [of "unat n div 10" 8 "Suc i"] by simp
    ultimately show ?thesis
      using Suc ns(2) by simp
  qed
qed simp

lemma length_coil_frames [simp]: "length (coil_frames k n st) = k"
  by (induction k arbitrary: n) simp_all

lemma vehicle_round_switch:
  assumes "machine_ok m" and "any_open m" and "vehicle_ok v"
    and "read_inputs P m = Inr (n1, n2, n3, ms, m\<lparr>machine_os := s1\<rparr>)"
    and "n1 = oldIOStatus v ! 1" and "n2 = oldIOStatus v ! 2" and "n3 = oldIOStatus v ! 3"
    and "ms \<in> {0, 1}" and "ms \<noteq> ManualSwitchStatusOld v"
  shows "vehicle_round P (v, m) = Inr ((loaded v n1 n2 n3 ms)\<lparr>ManualSwitchStatusOld := ms\<rparr>,
    m\<lparr>machine_os := send_os (kernel P) (coil_frame (TxSEQ v) (coilOput v)) (in_charge ms m) s1,
      IO4_manualSwitchStatus := ms\<rparr>)"
proof -
  let ?v = "loaded v n1 n2 n3 ms"
  let ?m = "m\<lparr>machine_os := s1, IO4_manualSwitchStatus := ms\<rparr>"
  have l: "length (newIOStatus v) = 9" "length (coilOput v) = 3"
    using assms(3) by (auto simp: vehicle_ok_def)
  have same: "newIOStatus ?v ! i = oldIOStatus ?v ! i" if "i \<in> {1, 2, 3}" for i
    using that l(1) assms(5-7) by (auto simp: loaded_def)
  have ok: "machine_ok ?m"
    using assms(1) by (simp add: machine_ok_def pins_ok_def)
  let ?v1 = "?v\<lparr>ManualSwitchStatusOld := ms\<rparr>"
  have f: "manualSwitchStatus ?v = ms" "manualSwitchStatus ?v1 = ms" "coilOput ?v1 = coilOput v" "TxSEQ ?v1 = TxSEQ v"
    "ManualSwitchStatusOld ?v = ManualSwitchStatusOld v"
    by (simp_all add: loaded_def)
  have ic: "in_charge ms ?m = in_charge ms m"
    by (simp add: in_charge_def client_server_def)
  have "send_coil P ?v1 ?m = Inr (?v1, ?m\<lparr>machine_os :=
      send_os (kernel P) (coil_frame (TxSEQ v) (coilOput v)) (in_charge ms m) s1\<rparr>)"
    using send_coil_ok [OF ok, of ?v1 P] assms(8) l(2) unfolding f ic by simp
  then have one: "coil_step P 1 (?v, ?m) = Inr (?v1, ?m\<lparr>machine_os :=
      send_os (kernel P) (coil_frame (TxSEQ v) (coilOput v)) (in_charge ms m) s1\<rparr>)"
    using same [of 1] assms(9) f by (simp add: coil_step_def)
  have rest: "coil_step P i (?v1, ?m\<lparr>machine_os := s\<rparr>) = Inr (?v1, ?m\<lparr>machine_os := s\<rparr>)"
    if "i \<in> {2, 3}" for i s
    using that same [of i] f by (auto simp: coil_step_def)
  have "foldE (coil_step P) [1, 2, 3] (?v, ?m) = Inr (?v1, ?m\<lparr>machine_os :=
      send_os (kernel P) (coil_frame (TxSEQ v) (coilOput v)) (in_charge ms m) s1\<rparr>)"
    using one rest by simp
  then show ?thesis
    using assms(2) by (simp add: vehicle_round_def any_open_test [OF assms(1)] assms(4) loaded_def Let_def)
qed

lemma vehicle_round_unread:
  assumes "machine_ok m" and "any_open m" and "vehicle_ok v"
    and "read_inputs P m = Inr (n1, n2, -1, ms, m\<lparr>machine_os := s1\<rparr>)"
    and "n1 \<noteq> oldIOStatus v ! 1" and "n1 \<noteq> -1" and "n2 = oldIOStatus v ! 2"
    and "ms \<in> {0, 1}" and "ms = ManualSwitchStatusOld v"
  shows "\<exists>v'. vehicle_round P (v, m) = Inr (v',
      m\<lparr>machine_os := send_os (kernel P) (coil_frame (next_seq (TxSEQ v)) (coilOput v)) (in_charge ms m) s1,
        IO4_manualSwitchStatus := ms\<rparr>) \<and>
    coilOput v' = coilOput v \<and> oldIOStatus v' ! 1 = n1"
proof -
  let ?v = "loaded v n1 n2 (-1) ms"
  let ?m = "m\<lparr>machine_os := s1, IO4_manualSwitchStatus := ms\<rparr>"
  have l: "length (newIOStatus v) = 9" "length (coilOput v) = 3" "length (oldIOStatus v) = 9"
    using assms(3) by (auto simp: vehicle_ok_def)
  note n = loaded_sel [OF l(1), of n1 n2 "-1" ms]
  have ok: "machine_ok ?m"
    using assms(1) by (simp add: machine_ok_def pins_ok_def)
  let ?v1 = "?v\<lparr>oldIOStatus := (oldIOStatus v)[1 := n1], TxSEQ := next_seq (TxSEQ v)\<rparr>"
  have cs: "coil_status (newIOStatus ?v) (coilOput v) = coilOput v"
    using n by (intro coil_status_unread) simp
  have f: "manualSwitchStatus ?v1 = ms" "coilOput ?v1 = coilOput v" "TxSEQ ?v1 = next_seq (TxSEQ v)"
    by (simp_all add: loaded_def)
  have ic: "in_charge ms ?m = in_charge ms m"
    by (simp add: in_charge_def client_server_def)
  have "send_coil P ?v1 ?m = Inr (?v1, ?m\<lparr>machine_os :=
      send_os (kernel P) (coil_frame (next_seq (TxSEQ v)) (coilOput v)) (in_charge ms m) s1\<rparr>)"
    using send_coil_ok [OF ok, of ?v1 P] assms(8) l(2) unfolding f ic by simp
  moreover have "coil_step P 1 (?v, ?m) = send_coil P ?v1 ?m"
    using n(1) assms(5,6) cs by (simp add: coil_step_def loaded_def)
  moreover have "coil_step P i (?v1, ?m\<lparr>machine_os := s\<rparr>) = Inr (?v1, ?m\<lparr>machine_os := s\<rparr>)"
    if "i \<in> {2, 3}" for i s
    using that n assms(7,9) l by (auto simp: coil_step_def loaded_def)
  ultimately have "foldE (coil_step P) [1, 2, 3] (?v, ?m) = Inr (?v1, ?m\<lparr>machine_os :=
      send_os (kernel P) (coil_frame (next_seq (TxSEQ v)) (coilOput v)) (in_charge ms m) s1\<rparr>)"
    by simp
  then show ?thesis
    using assms(2) l(3) by (simp add: vehicle_round_def any_open_test [OF assms(1)] assms(4) loaded_def Let_def)
qed

lemma vehicle_round_closed:
  assumes "machine_ok m" and "\<not> any_open m" and "vehicle_ok v"
  shows "\<exists>v'. vehicle_round P (v, m) = Inr (v', m) \<and> vehicle_ok v' \<and> (\<forall>i\<in>{1, 2, 3}. oldIOStatus v' ! i = -1) \<and>
    TxSEQ v' = TxSEQ v \<and> ManualSwitchStatusOld v' = ManualSwitchStatusOld v"
  using assms(2,3)
  by (auto simp: vehicle_round_def any_open_test [OF assms(1)] vehicle_ok_def nth_append Let_def)

lemma coil_frames_are: "j < k \<Longrightarrow> \<exists>n'. coil_frames k n st ! j = coil_frame n' [0xDC, 0, st]"
proof (induction k arbitrary: n j)
  case (Suc k)
  then show ?case
    by (cases j) auto
qed simp

section \<open>Heartbeats\<close>

lemma HeartThread_ok:
  assumes "machine_ok m" and "Client1 m \<noteq> Client2 m"
  shows "\<exists>m'. HeartThread_round P m = Inr m' \<and> machine_ok m' \<and> calls (machine_os m') = calls (machine_os m) @
    send_calls (the (Tcp1 m)) heartbeat_frame @ send_calls (the (Tcp2 m)) heartbeat_frame"
proof (cases "any_open m")
  case False
  then show ?thesis
    using assms(1) by (simp add: HeartThread_round_def any_open_test [OF assms(1)] any_open_def send_calls_def)
next
  case True
  have k1: "known_client (Client1 m) m"
    by (simp add: known_client_def)
  note 1 = CommunicationSend_ok [OF assms(1) k1 send_frame_heartbeat, of P "0x90" "[]" 0 0]
  let ?m1 = "m\<lparr>machine_os := send_os (kernel P) heartbeat_frame (client_server (Client1 m) m) (machine_os m)\<rparr>"
  have ok1: "machine_ok ?m1" and k2: "known_client (Client2 ?m1) ?m1"
    using assms(1) by (simp_all add: machine_ok_updates known_client_def)
  note 2 = CommunicationSend_ok [OF ok1 k2 send_frame_heartbeat, of P "0x90" "[]" 0 0]
  have cs: "client_server (Client1 m) m = the (Tcp1 m)" "\<And>s. client_server (Client2 m) (m\<lparr>machine_os := s\<rparr>) = the (Tcp2 m)"
    using assms(2) by (simp_all add: client_server_def)
  show ?thesis
    using True 1 2 ok1 by (simp add: HeartThread_round_def any_open_test [OF assms(1)] cs machine_ok_updates)
qed

section \<open>The default text\<close>

definition default_frame :: "nat \<Rightarrow> byte list" where
  "default_frame i = special_frame (int i + 1) 0 0x01 0x09 (defaultContent ! i)"

lemma default_step:
  assumes "qled_ok led" and "DisplayMode led \<noteq> 0" and "i < 4"
  shows "\<exists>led'. bindE (DisplyShow (int i + 1) 0 0x01 0x09 (defaultContent ! i) (int (length (defaultContent ! i))) led)
      (\<lambda>(_, led). Inr led) = Inr led' \<and> qled_ok led' \<and> DisplayMode led' = DisplayMode led \<and>
    screen led' = (screen led)(int i + 1 \<mapsto> (default_frame i, 450))"
proof -
  have l: "length (defaultContent ! i) \<le> 10"
    using assms(3) by (auto simp: defaultContent_def nth_Cons split: nat.splits)
  then have "length (defaultContent ! i) < 128"
    by simp
  from DisplyShow_posts [OF assms(1,2) this, of "int i + 1" 0 1 9 "[]"] l show ?thesis
    by (auto simp: posts_def default_frame_def split: sum.splits prod.splits)
qed

lemma show_default_ok:
  assumes "machine_ok m" and "DisplayMode (Led m) \<noteq> 0" and "\<not> displayingDefaultContent m"
  shows "\<exists>led. show_default m = Inr (m\<lparr>Led := led, displayingDefaultContent := True\<rparr>) \<and> qled_ok led \<and>
    DisplayMode led = DisplayMode (Led m) \<and>
    screen led = (screen (Led m))(1 \<mapsto> (default_frame 0, 450), 2 \<mapsto> (default_frame 1, 450),
      3 \<mapsto> (default_frame 2, 450), 4 \<mapsto> (default_frame 3, 450))"
proof -
  have q: "qled_ok (Led m)"
    using assms(1) by (simp add: machine_ok_def)
  obtain l0 where 0: "bindE (DisplyShow (int 0 + 1) 0 1 9 (defaultContent ! 0) (int (length (defaultContent ! 0))) (Led m))
      (\<lambda>(_, led). Inr led) = Inr l0" "qled_ok l0" "DisplayMode l0 = DisplayMode (Led m)"
      "screen l0 = (screen (Led m))(int 0 + 1 \<mapsto> (default_frame 0, 450))"
    using default_step [OF q assms(2), of 0] by auto
  obtain l1 where 1: "bindE (DisplyShow (int 1 + 1) 0 1 9 (defaultContent ! 1) (int (length (defaultContent ! 1))) l0)
      (\<lambda>(_, led). Inr led) = Inr l1" "qled_ok l1" "DisplayMode l1 = DisplayMode (Led m)"
      "screen l1 = (screen l0)(int 1 + 1 \<mapsto> (default_frame 1, 450))"
    using default_step [OF 0(2), of 1] 0(3) assms(2) by auto
  obtain l2 where 2: "bindE (DisplyShow (int 2 + 1) 0 1 9 (defaultContent ! 2) (int (length (defaultContent ! 2))) l1)
      (\<lambda>(_, led). Inr led) = Inr l2" "qled_ok l2" "DisplayMode l2 = DisplayMode (Led m)"
      "screen l2 = (screen l1)(int 2 + 1 \<mapsto> (default_frame 2, 450))"
    using default_step [OF 1(2), of 2] 1(3) assms(2) by auto
  obtain l3 where 3: "bindE (DisplyShow (int 3 + 1) 0 1 9 (defaultContent ! 3) (int (length (defaultContent ! 3))) l2)
      (\<lambda>(_, led). Inr led) = Inr l3" "qled_ok l3" "DisplayMode l3 = DisplayMode (Led m)"
      "screen l3 = (screen l2)(int 3 + 1 \<mapsto> (default_frame 3, 450))"
    using default_step [OF 2(2), of 3] 2(3) assms(2) by auto
  have "foldE (\<lambda>i led. bindE (DisplyShow (int i + 1) 0 0x01 0x09 (defaultContent ! i)
      (int (length (defaultContent ! i))) led) (\<lambda>(_, led). Inr led)) [0, 1, 2, 3] (Led m) = Inr l3"
    by (simp only: foldE.simps bindE_simps 0(1) 1(1) 2(1) 3(1))
  then have "show_default m = Inr (m\<lparr>Led := l3, displayingDefaultContent := True\<rparr>)"
    using assms(3) by (simp add: show_default_def)
  moreover have "screen l3 = (screen (Led m))(1 \<mapsto> (default_frame 0, 450), 2 \<mapsto> (default_frame 1, 450),
      3 \<mapsto> (default_frame 2, 450), 4 \<mapsto> (default_frame 3, 450))"
    using 0(4) 1(4) 2(4) 3(4) by simp
  ultimately show ?thesis
    using 3(2,3) by blast
qed

section \<open>Properties\<close>

text \<open>
  C11. With a client connected and all inputs read, a turn of the vehicle thread sends the client in
  charge one frame for every loop detector that changed since the last turn, and no frame if none did;
  every frame carries the state of all three detectors as the bits of one byte, and the sequence
  numbers in the frames go on from the last one, in the cycle 1 to 8.
\<close>

theorem vehicle_reports_changes:
  assumes "machine_ok m" and "any_open m" and "vehicle_ok v"
    and "read_inputs P m = Inr (n1, n2, n3, ms, m\<lparr>machine_os := s1\<rparr>)"
    and "{n1, n2, n3, ms} \<subseteq> {0, 1}" and "ms = ManualSwitchStatusOld v"
  shows "\<exists>v' s' frames. vehicle_round P (v, m) = Inr (v', m\<lparr>machine_os := s', IO4_manualSwitchStatus := ms\<rparr>) \<and>
    vehicle_ok v' \<and> calls s' = calls s1 @ concat (map (send_calls (in_charge ms m)) frames) \<and>
    length frames = length (filter (\<lambda>(n, i). n \<noteq> oldIOStatus v ! i) [(n1, 1), (n2, 2), (n3, 3)]) \<and>
    (\<forall>j < length frames. \<exists>n. frames ! j = coil_frame n [0xDC, 0, word_of_int (n1 + 2 * n2 + 4 * n3)] \<and>
       frames ! j ! 3 = word_of_nat ((unat (TxSEQ v) div 10 + j) mod 8 + 1)) \<and>
    oldIOStatus v' ! 1 = n1 \<and> oldIOStatus v' ! 2 = n2 \<and> oldIOStatus v' ! 3 = n3"
proof -
  let ?k = "length (filter (\<lambda>(n, i). n \<noteq> oldIOStatus v ! i) [(n1, 1), (n2, 2), (n3, 3)])"
  let ?fs = "coil_frames ?k (TxSEQ v) (status_bits n1 n2 n3)"
  have "unat (TxSEQ v) < 90"
    using assms(3) by (simp add: vehicle_ok_def)
  then have "\<forall>j < ?k. (\<exists>n. ?fs ! j = coil_frame n [0xDC, 0, status_bits n1 n2 n3]) \<and>
      ?fs ! j ! 3 = word_of_nat ((unat (TxSEQ v) div 10 + j) mod 8 + 1)"
    using coil_frames_nth coil_frames_are by blast
  moreover obtain v' s' where "vehicle_round P (v, m) = Inr (v', m\<lparr>machine_os := s', IO4_manualSwitchStatus := ms\<rparr>)"
    "vehicle_ok v'" "calls s' = calls s1 @ concat (map (send_calls (in_charge ms m)) ?fs)"
    "oldIOStatus v' ! 1 = n1" "oldIOStatus v' ! 2 = n2" "oldIOStatus v' ! 3 = n3"
    using vehicle_round_steady [OF assms] unfolding Let_def by blast
  ultimately show ?thesis
    unfolding status_bits_def
    by (intro exI [of _ v'] exI [of _ s'] exI [of _ "coil_frames ?k (TxSEQ v) (word_of_int (n1 + 2 * n2 + 4 * n3))"]) simp
qed

text \<open>A kernel on which detector 1 reads \<open>1\<close> and every other input \<open>0\<close>.\<close>

definition vehicle_platform :: "(unit, unit) platform" where
  "vehicle_platform = example_platform\<lparr>kernel := \<lambda>c w. case c of
     Read_fd f n \<Rightarrow> ((1, [if f = 11 then 0x31 else 0x30]), w) | _ \<Rightarrow> ((0, []), w)\<rparr>"

lemma vehicle_platform_inputs:
  "\<exists>s1. read_inputs vehicle_platform example_machine = Inr (1, 0, 0, 0, example_machine\<lparr>machine_os := s1\<rparr>) \<and>
     calls s1 = input_calls example_machine"
proof -
  have "atoi (string_of (c_string [0x31])) = 1" and "atoi (string_of (c_string [0x30])) = 0"
    by code_simp+
  then have "read_pin vehicle_platform (example_pin p ''in'' f) m = Inr (if f = 11 then 1 else 0,
      m\<lparr>machine_os := \<lparr>world = world (machine_os m), calls = calls (machine_os m) @ [Lseek f, Read_fd f 1]\<rparr>\<rparr>)"
    for p f and m :: "(unit, unit) machine"
    by (simp add: read_pin_def GetIOValue_def example_pin_def vehicle_platform_def do_sys_def)
  then show ?thesis
    by (simp add: read_inputs_def example_machine_def input_calls_def read_calls_def)
      (simp add: example_pin_def)
qed

lemma example_open: "any_open example_machine"
  by (simp add: any_open_def example_machine_def example_server_def)

theorem vehicle_reports_changes_witness:
  "\<exists>v' s' frames. vehicle_round vehicle_platform (vehicle_start, example_machine) =
      Inr (v', example_machine\<lparr>machine_os := s', IO4_manualSwitchStatus := 0\<rparr>) \<and>
    calls s' = input_calls example_machine @ concat (map (send_calls (in_charge 0 example_machine)) frames) \<and>
    length frames = 1 \<and> frames ! 0 ! 3 = 1"
proof -
  obtain s1 where s1: "read_inputs vehicle_platform example_machine = Inr (1, 0, 0, 0, example_machine\<lparr>machine_os := s1\<rparr>)"
    "calls s1 = input_calls example_machine"
    using vehicle_platform_inputs by blast
  have "{1, 0, 0, 0} \<subseteq> {0, 1 :: int}" and "0 = ManualSwitchStatusOld vehicle_start"
    by (simp_all add: vehicle_start_def)
  from vehicle_reports_changes [OF example_ok example_open vehicle_ok_start s1(1) this] obtain v' s' frames where
    "vehicle_round vehicle_platform (vehicle_start, example_machine) =
      Inr (v', example_machine\<lparr>machine_os := s', IO4_manualSwitchStatus := 0\<rparr>)"
    "calls s' = calls s1 @ concat (map (send_calls (in_charge 0 example_machine)) frames)"
    "length frames = length (filter (\<lambda>(n, i). n \<noteq> oldIOStatus vehicle_start ! i) [(1, 1), (0, 2), (0, 3)])"
    "\<forall>j < length frames. frames ! j ! 3 = word_of_nat ((unat (TxSEQ vehicle_start) div 10 + j) mod 8 + 1)"
    by blast
  then show ?thesis
    using s1(2) by (intro exI [of _ v'] exI [of _ s'] exI [of _ frames]) (simp add: vehicle_start_def)
qed

text \<open>
  When only the mode switch changed, the client that is now in charge gets exactly one frame: the
  last status that was reported, under the last sequence number; the next turn does not repeat it.
\<close>

theorem mode_switch_reported_once:
  assumes "machine_ok m" and "any_open m" and "vehicle_ok v"
    and "read_inputs P m = Inr (n1, n2, n3, ms, m\<lparr>machine_os := s1\<rparr>)"
    and "n1 = oldIOStatus v ! 1" and "n2 = oldIOStatus v ! 2" and "n3 = oldIOStatus v ! 3"
    and "ms \<in> {0, 1}" and "ms \<noteq> ManualSwitchStatusOld v"
  shows "\<exists>v' m'. vehicle_round P (v, m) = Inr (v', m') \<and>
    calls (machine_os m') = calls s1 @ send_calls (in_charge ms m) (coil_frame (TxSEQ v) (coilOput v)) \<and>
    IO4_manualSwitchStatus m' = ms \<and> ManualSwitchStatusOld v' = ms \<and> oldIOStatus v' = oldIOStatus v \<and>
    coilOput v' = coilOput v \<and> TxSEQ v' = TxSEQ v"
  using vehicle_round_switch [OF assms] by (simp add: loaded_def)

definition switched_vehicle :: vehicle where
  "switched_vehicle = vehicle_start\<lparr>oldIOStatus := [0, 1, 0, 0, 0, 0, 0, 0, 0], ManualSwitchStatusOld := 1\<rparr>"

lemma switched_vehicle_ok: "vehicle_ok switched_vehicle"
  by (simp add: vehicle_ok_def switched_vehicle_def vehicle_start_def)

theorem mode_switch_reported_once_witness:
  "\<exists>v' m'. vehicle_round vehicle_platform (switched_vehicle, example_machine) = Inr (v', m') \<and>
     calls (machine_os m') = input_calls example_machine @ send_calls (in_charge 0 example_machine) (coil_frame 0 [0xDC, 0, 0])"
proof -
  obtain s1 where s1: "read_inputs vehicle_platform example_machine = Inr (1, 0, 0, 0, example_machine\<lparr>machine_os := s1\<rparr>)"
    "calls s1 = input_calls example_machine"
    using vehicle_platform_inputs by blast
  have "1 = oldIOStatus switched_vehicle ! 1" "0 = oldIOStatus switched_vehicle ! 2" "0 = oldIOStatus switched_vehicle ! 3"
    "0 \<in> {0, 1 :: int}" "0 \<noteq> ManualSwitchStatusOld switched_vehicle"
    by (simp_all add: switched_vehicle_def vehicle_start_def)
  from mode_switch_reported_once [OF example_ok example_open switched_vehicle_ok s1(1) this] s1(2) show ?thesis
    by (auto simp: switched_vehicle_def vehicle_start_def)
qed

text \<open>
  A detector that cannot be read freezes the reported status: when detector 3 reads -1 and detector 1
  changed, the client is sent a frame under a new sequence number with the old status, and the change
  counts as reported.
\<close>

theorem unread_detector_freezes_status:
  assumes "machine_ok m" and "any_open m" and "vehicle_ok v"
    and "read_inputs P m = Inr (n1, n2, -1, ms, m\<lparr>machine_os := s1\<rparr>)"
    and "n1 \<noteq> oldIOStatus v ! 1" and "n1 \<noteq> -1" and "n2 = oldIOStatus v ! 2"
    and "ms \<in> {0, 1}" and "ms = ManualSwitchStatusOld v"
  shows "\<exists>v' m'. vehicle_round P (v, m) = Inr (v', m') \<and>
    calls (machine_os m') = calls s1 @ send_calls (in_charge ms m) (coil_frame (next_seq (TxSEQ v)) (coilOput v)) \<and>
    coilOput v' = coilOput v \<and> oldIOStatus v' ! 1 = n1"
  using vehicle_round_unread [OF assms] by auto

definition broken_machine :: "(unit, unit) machine" where
  "broken_machine = example_machine\<lparr>VehicleDevice3 :=
     \<lparr>fd = None, Pin = 3, PinName = [], mode = ''in'', isOpen = False\<rparr>\<rparr>"

lemma broken_ok: "machine_ok broken_machine"
  using example_ok by (simp add: broken_machine_def machine_ok_def pins_ok_def gpio_ok_def)

theorem unread_detector_freezes_status_witness:
  "\<exists>v' m'. vehicle_round vehicle_platform (vehicle_start, broken_machine) = Inr (v', m') \<and>
     coilOput v' = [0xDC, 0, 0] \<and> oldIOStatus v' ! 1 = 1"
proof -
  have "atoi (string_of (c_string [0x31])) = 1" and "atoi (string_of (c_string [0x30])) = 0"
    by code_simp+
  then have "read_pin vehicle_platform (example_pin p ''in'' f) m = Inr (if f = 11 then 1 else 0,
      m\<lparr>machine_os := \<lparr>world = world (machine_os m), calls = calls (machine_os m) @ [Lseek f, Read_fd f 1]\<rparr>\<rparr>)"
    for p f and m :: "(unit, unit) machine"
    by (simp add: read_pin_def GetIOValue_def example_pin_def vehicle_platform_def do_sys_def)
  moreover have "read_pin vehicle_platform \<lparr>fd = None, Pin = 3, PinName = [], mode = ''in'', isOpen = False\<rparr> m = Inr (-1, m)"
    for m :: "(unit, unit) machine"
    by (simp add: read_pin_def GetIOValue_def)
  ultimately obtain s1 where s1: "read_inputs vehicle_platform broken_machine =
      Inr (1, 0, -1, 0, broken_machine\<lparr>machine_os := s1\<rparr>)"
    by (simp add: read_inputs_def broken_machine_def example_machine_def)
  have "any_open broken_machine"
    by (simp add: any_open_def broken_machine_def example_machine_def example_server_def)
  from unread_detector_freezes_status [OF broken_ok this vehicle_ok_start s1] show ?thesis
    by (auto simp: vehicle_start_def)
qed

text \<open>
  C28. After a turn with no client connected, which forgets what was reported and asks nothing of the
  kernel, the first turn with a client and readable inputs reports all three detectors, whatever
  they read: three frames with the current status.
\<close>

theorem reconnect_reports_all:
  assumes "machine_ok m" and "\<not> any_open m" and "vehicle_ok v"
    and "machine_ok m2" and "any_open m2" and "read_inputs P m2 = Inr (n1, n2, n3, ms, m2\<lparr>machine_os := s1\<rparr>)"
    and "{n1, n2, n3, ms} \<subseteq> {0, 1}" and "ms = ManualSwitchStatusOld v"
  shows "\<exists>v1 v2 s2. vehicle_round P (v, m) = Inr (v1, m) \<and>
    vehicle_round P (v1, m2) = Inr (v2, m2\<lparr>machine_os := s2, IO4_manualSwitchStatus := ms\<rparr>) \<and>
    calls s2 = calls s1 @ concat (map (send_calls (in_charge ms m2))
      (coil_frames 3 (TxSEQ v) (word_of_int (n1 + 2 * n2 + 4 * n3))))"
proof -
  obtain v1 where v1: "vehicle_round P (v, m) = Inr (v1, m)" "vehicle_ok v1"
    "\<forall>i\<in>{1, 2, 3}. oldIOStatus v1 ! i = -1" "TxSEQ v1 = TxSEQ v" "ManualSwitchStatusOld v1 = ManualSwitchStatusOld v"
    using vehicle_round_closed [OF assms(1-3)] by blast
  have "filter (\<lambda>(n, i). n \<noteq> oldIOStatus v1 ! i) [(n1, 1), (n2, 2), (n3, 3)] = [(n1, 1), (n2, 2), (n3, 3)]"
    using v1(3) assms(7) by auto
  then have k: "length (filter (\<lambda>(n, i). n \<noteq> oldIOStatus v1 ! i) [(n1, 1), (n2, 2), (n3, 3)]) = 3"
    by simp
  have "ms = ManualSwitchStatusOld v1"
    using assms(8) v1(5) by simp
  from vehicle_round_steady [OF assms(4,5) v1(2) assms(6,7) this, unfolded k Let_def] v1(1,4) show ?thesis
    unfolding status_bits_def by fastforce
qed

definition idle_machine :: "(unit, unit) machine" where
  "idle_machine = example_machine\<lparr>Tcp1 := Some (TcpServer_new 5000), Tcp2 := Some (TcpServer_new 5001)\<rparr>"

lemma idle_ok: "machine_ok idle_machine" "\<not> any_open idle_machine"
  using example_ok by (simp_all add: idle_machine_def machine_ok_def pins_ok_def any_open_def)

theorem reconnect_reports_all_witness:
  "\<exists>v1 v2 m2. vehicle_round vehicle_platform (vehicle_start, idle_machine) = Inr (v1, idle_machine) \<and>
    vehicle_round vehicle_platform (v1, example_machine) = Inr (v2, m2) \<and>
    calls (machine_os m2) = input_calls example_machine @ concat (map (send_calls (in_charge 0 example_machine))
      (coil_frames 3 0 1))"
proof -
  obtain s1 where s1: "read_inputs vehicle_platform example_machine = Inr (1, 0, 0, 0, example_machine\<lparr>machine_os := s1\<rparr>)"
    "calls s1 = input_calls example_machine"
    using vehicle_platform_inputs by blast
  have "{1, 0, 0, 0} \<subseteq> {0, 1 :: int}" and "0 = ManualSwitchStatusOld vehicle_start"
    by (simp_all add: vehicle_start_def)
  from reconnect_reports_all [OF idle_ok vehicle_ok_start example_ok example_open s1(1) this] s1(2) show ?thesis
    by (auto simp: vehicle_start_def)
qed

text \<open>
  A turn of the heartbeat thread sends each connected client exactly one heartbeat frame on its own
  connection, and does nothing for a client that is not connected, as long as the two clients have
  different addresses.
\<close>

theorem heartbeat_to_each_client:
  assumes "machine_ok m" and "Client1 m \<noteq> Client2 m"
  shows "\<exists>m'. HeartThread_round P m = Inr m' \<and> machine_ok m' \<and> calls (machine_os m') = calls (machine_os m) @
    send_calls (the (Tcp1 m)) heartbeat_frame @ send_calls (the (Tcp2 m)) heartbeat_frame"
  using assms by (rule HeartThread_ok)

theorem heartbeat_to_each_client_witness:
  "\<exists>m'. HeartThread_round example_platform example_machine = Inr m' \<and>
     calls (machine_os m') = [Send_sock 21 heartbeat_frame, Send_sock 22 heartbeat_frame]"
proof -
  have "Client1 example_machine \<noteq> Client2 example_machine"
    by (simp add: example_machine_def)
  from heartbeat_to_each_client [OF example_ok this, of example_platform] show ?thesis
    by (auto simp: example_machine_def example_server_def send_calls_def)
qed

text \<open>
  C31. After ten idle seconds the timer thread puts the four lines of the default text on the screen, once:
  a turn before that, or one that finds them shown already, changes nothing.
\<close>

theorem default_text_shown_once:
  assumes "machine_ok m" and "DisplayMode (Led m) \<noteq> 0" and "\<not> displayingDefaultContent m"
  shows "(\<not> default_due m \<longrightarrow> TimerThread_round m = Inr m) \<and>
    (default_due m \<longrightarrow> (\<exists>m'. TimerThread_round m = Inr m' \<and> machine_ok m' \<and>
       screen (Led m') = (screen (Led m))(1 \<mapsto> (default_frame 0, 450), 2 \<mapsto> (default_frame 1, 450),
         3 \<mapsto> (default_frame 2, 450), 4 \<mapsto> (default_frame 3, 450)) \<and>
       TimerThread_round m' = Inr m'))"
proof -
  obtain led where led: "show_default m = Inr (m\<lparr>Led := led, displayingDefaultContent := True\<rparr>)" "qled_ok led"
    "screen led = (screen (Led m))(1 \<mapsto> (default_frame 0, 450), 2 \<mapsto> (default_frame 1, 450),
      3 \<mapsto> (default_frame 2, 450), 4 \<mapsto> (default_frame 3, 450))"
    using show_default_ok [OF assms] by blast
  let ?m' = "m\<lparr>Led := led, displayingDefaultContent := True\<rparr>"
  have "machine_ok ?m'"
    using assms(1) led(2) by (simp add: machine_ok_def pins_ok_def)
  moreover have "TimerThread_round ?m' = Inr ?m'"
    by (simp add: TimerThread_round_def show_default_def)
  moreover have "default_due m \<longrightarrow> TimerThread_round m = Inr ?m'"
    using led(1) by (simp add: TimerThread_round_def)
  ultimately show ?thesis
    using led(3) by (auto simp: TimerThread_round_def)
qed

definition late_machine :: "(unit, unit) machine" where
  "late_machine = example_machine\<lparr>clock := 10000000000\<rparr>"

lemma late_ok: "machine_ok late_machine" "DisplayMode (Led late_machine) \<noteq> 0" "default_due late_machine"
    "\<not> displayingDefaultContent late_machine"
  using example_ok by (simp_all add: late_machine_def machine_ok_def pins_ok_def default_due_def example_machine_def QLED_new_def)

theorem default_text_shown_once_witness:
  "\<exists>m'. TimerThread_round late_machine = Inr m' \<and> screen (Led m') 3 = Some (default_frame 2, 450) \<and>
     TimerThread_round m' = Inr m'"
  using default_text_shown_once [OF late_ok(1,2,4)] late_ok(3) by auto

text \<open>
  The timer thread measures the idle time before it takes the display lock. A display command that
  runs between the two is not noticed: its text is replaced by the default text at once, although
  the command has just restarted the ten seconds.
\<close>

theorem timer_overwrites_fresh_text:
  assumes "machine_ok m" and "DisplayMode (Led m) \<noteq> 0" and "default_due m"
    and "c0 \<in> {0x44, 0x64}" and "Cmd ! 0 = c0" and "format_length c0 \<le> int (length Cmd)"
  shows "\<exists>Oput' m1 m2. DisplayControl Cmd (format_length c0) Oput m = Inr (4, Oput', m1) \<and> \<not> default_due m1 \<and>
    show_default m1 = Inr m2 \<and> (\<forall>i<4. screen (Led m2) (int i + 1) = Some (default_frame i, 450))"
proof -
  have q: "qled_ok (Led m)"
    using assms(1) by (simp add: machine_ok_def)
  obtain led where led: "DisplayControl Cmd (format_length c0) Oput m = Inr (4, Oput[0 := 0xD4, 1 := 3],
      m\<lparr>displayingDefaultContent := False, resetTimer := True, lastPlayTime := clock m, Led := led\<rparr>)"
    "qled_ok led" "DisplayMode led \<noteq> 0"
    using DisplayControl_ok [OF q assms(2,4-6)] by blast
  let ?m1 = "m\<lparr>displayingDefaultContent := False, resetTimer := True, lastPlayTime := clock m, Led := led\<rparr>"
  have "machine_ok ?m1" and "DisplayMode (Led ?m1) \<noteq> 0" and "\<not> displayingDefaultContent ?m1"
    using assms(1) led(2,3) by (simp_all add: machine_ok_def pins_ok_def)
  from show_default_ok [OF this] obtain led2 where
    "show_default ?m1 = Inr (?m1\<lparr>Led := led2, displayingDefaultContent := True\<rparr>)"
    "screen led2 = (screen led)(1 \<mapsto> (default_frame 0, 450), 2 \<mapsto> (default_frame 1, 450),
      3 \<mapsto> (default_frame 2, 450), 4 \<mapsto> (default_frame 3, 450))"
    by auto
  moreover have "i \<in> {0, 1, 2, 3}" if "i < 4" for i :: nat
    using that by auto
  moreover have "\<not> default_due ?m1"
    by (simp add: default_due_def)
  ultimately show ?thesis
    using led(1) by fastforce
qed

theorem timer_overwrites_fresh_text_witness:
  "\<exists>Oput' m1 m2. DisplayControl (0x44 # replicate 41 0x41) 42 [0, 0] late_machine = Inr (4, Oput', m1) \<and>
     show_default m1 = Inr m2 \<and> screen (Led m2) 1 = Some (default_frame 0, 450)"
proof -
  have "(0x44 :: byte) \<in> {0x44, 0x64}" and "(0x44 # replicate 41 0x41 :: byte list) ! 0 = 0x44"
    and "format_length 0x44 \<le> int (length (0x44 # replicate 41 0x41 :: byte list))"
    by (simp_all add: format_length_def)
  from timer_overwrites_fresh_text [OF late_ok(1-3) this, of "[0, 0]"] show ?thesis
    by (fastforce simp: format_length_def)
qed

end
