(* ===== verification/Synthesis.thy ===== *)
theory Synthesis
  imports Tts
begin

text \<open>
  The body of the playback thread (src/tts.cpp): \<open>TTS::text_to_speech\<close>, which drives the speech
  library and writes the sound into a WAV file, \<open>TTS::compound\<close>, which wraps it in a login and starts
  the player, and \<open>tts_thread\<close>. The library is closed: it is a parameter that answers each call with a
  return code, the bytes of \<open>QTTSAudioGet\<close> (None for a NULL pointer), the synthesis status after the call
  and the name of the session, and a new state of the world. Every call is appended to the trace of
  system calls, so that the order of the calls and of the writes to the file can be stated.
\<close>

section \<open>The speech library\<close>

record msp_answer =
  msp_ret :: int
  msp_audio :: "byte list option"
  msp_status :: int
  msp_session :: string

type_synonym 'w engine = "msp_call \<Rightarrow> 'w \<Rightarrow> msp_answer \<times> 'w"

definition do_msp :: "'w engine \<Rightarrow> msp_call \<Rightarrow> 'w os \<Rightarrow> msp_answer \<times> 'w os" where
  "do_msp E c s = (case E c (world s) of (a, w) \<Rightarrow> (a, \<lparr>world = w, calls = calls s @ [Msp c]\<rparr>))"

definition MSP_SUCCESS :: int where "MSP_SUCCESS = 0"

definition MSP_TTS_FLAG_DATA_END :: int where "MSP_TTS_FLAG_DATA_END = 2"

definition said :: "'w engine \<Rightarrow> msp_call \<Rightarrow> 'w os \<Rightarrow> msp_answer" where
  "said E c s = fst (do_msp E c s)"

definition heard :: "'w engine \<Rightarrow> msp_call \<Rightarrow> 'w os \<Rightarrow> 'w os" where
  "heard E c s = snd (do_msp E c s)"

lemma do_msp_pair: "do_msp E c s = (said E c s, heard E c s)"
  by (simp add: said_def heard_def)

lemma calls_heard [simp]: "calls (heard E c s) = calls s @ [Msp c]"
  by (simp add: heard_def do_msp_def split: prod.splits)

lemma world_heard: "world (heard E c s) = snd (E c (world s))" "said E c s = fst (E c (world s))"
  by (simp_all add: heard_def said_def do_msp_def split: prod.splits)

section \<open>The header of the sound file\<close>

text \<open>
  The numbers of \<open>wave_pcm_hdr\<close>; the four tags are constants of \<open>default_wav_hdr\<close>. The structure has no
  padding, so its 44 bytes are the fields in order, little-endian.
\<close>

record wave_pcm_hdr =
  size_8 :: "32 word"
  fmt_size :: "32 word"
  format_tag :: "16 word"
  channels :: "16 word"
  samples_per_sec :: "32 word"
  avg_bytes_per_sec :: "32 word"
  block_align :: "16 word"
  bits_per_sample :: "16 word"
  data_size :: "32 word"

definition default_wav_hdr :: wave_pcm_hdr where
  "default_wav_hdr = \<lparr>size_8 = 0, fmt_size = 16, format_tag = 1, channels = 1, samples_per_sec = 16000,
     avg_bytes_per_sec = 32000, block_align = 2, bits_per_sample = 16, data_size = 0\<rparr>"

definition le16 :: "16 word \<Rightarrow> byte list" where
  "le16 w = [ucast w, ucast (drop_bit 8 w)]"

definition le32 :: "32 word \<Rightarrow> byte list" where
  "le32 w = [ucast w, ucast (drop_bit 8 w), ucast (drop_bit 16 w), ucast (drop_bit 24 w)]"

definition wav_bytes :: "wave_pcm_hdr \<Rightarrow> byte list" where
  "wav_bytes h = bytes_of ''RIFF'' @ le32 (size_8 h) @ bytes_of ''WAVE'' @ bytes_of ''fmt '' @ le32 (fmt_size h) @
     le16 (format_tag h) @ le16 (channels h) @ le32 (samples_per_sec h) @ le32 (avg_bytes_per_sec h) @
     le16 (block_align h) @ le16 (bits_per_sample h) @ bytes_of ''data'' @ le32 (data_size h)"

section \<open>Synthesis\<close>

text \<open>
  A negative answer to \<open>Fopen_wb\<close> stands for the NULL pointer, as for the files of the log.
  The loop over \<open>QTTSAudioGet\<close>. The flag \<open>is_playing\<close> is read at every turn; the only write to it in the
  sources besides the constructor sets it, before the loop, so it is constant here. The loop has no
  bound of its own: it is bounded by a fuel argument, and \<open>Diverges\<close> stands for running out of it.
\<close>

fun audio_loop ::
  "nat \<Rightarrow> 'w kernel \<Rightarrow> 'w engine \<Rightarrow> bool \<Rightarrow> string \<Rightarrow> int \<Rightarrow> int \<Rightarrow> wave_pcm_hdr \<Rightarrow> 'w os \<Rightarrow>
   (int \<times> wave_pcm_hdr \<times> 'w os) res" where
  "audio_loop 0 K E is_playing sessionID fp ret wav_hdr s = Inl Diverges"
| "audio_loop (Suc fuel) K E is_playing sessionID fp ret wav_hdr s =
     (if \<not> is_playing then Inr (ret, wav_hdr, s)
      else let (a, s) = do_msp E (Audio_get sessionID) s; ret = msp_ret a
      in if ret \<noteq> MSP_SUCCESS then Inr (ret, wav_hdr, s)
         else let (wav_hdr, s) = (case msp_audio a of
                    None \<Rightarrow> (wav_hdr, s)
                  | Some data \<Rightarrow> (wav_hdr\<lparr>data_size := data_size wav_hdr + word_of_nat (length data)\<rparr>,
                                   snd (do_sys K (Fwrite_block fp data) s)))
              in if msp_status a = MSP_TTS_FLAG_DATA_END then Inr (ret, wav_hdr, s)
                 else audio_loop fuel K E is_playing sessionID fp ret wav_hdr s)"

text \<open>The two writes that complete the header, and the end of the session.\<close>

definition finish_file ::
  "'w kernel \<Rightarrow> 'w engine \<Rightarrow> string \<Rightarrow> int \<Rightarrow> wave_pcm_hdr \<Rightarrow> 'w os \<Rightarrow> int \<times> 'w os" where
  "finish_file K E sessionID fp wav_hdr s =
     (let wav_hdr = wav_hdr\<lparr>size_8 := size_8 wav_hdr + (data_size wav_hdr + (44 - 8))\<rparr>;
          s = snd (do_sys K (Fseek fp 4) s);
          s = snd (do_sys K (Fwrite_block fp (le32 (size_8 wav_hdr))) s);
          s = snd (do_sys K (Fseek fp 40) s);
          s = snd (do_sys K (Fwrite_block fp (le32 (data_size wav_hdr))) s);
          s = snd (do_sys K (Fflush fp) s);
          s = snd (do_sys K (Fclose fp) s);
          (a, s) = do_msp E (Session_end sessionID ''Normal'') s
      in (msp_ret a, s))"

definition text_to_speech ::
  "nat \<Rightarrow> 'w kernel \<Rightarrow> 'w engine \<Rightarrow> bool \<Rightarrow> byte list option \<Rightarrow> string option \<Rightarrow> string \<Rightarrow> 'w os \<Rightarrow>
   (int \<times> 'w os) res" where
  "text_to_speech fuel K E is_playing src_text des_path params s =
     (case (src_text, des_path) of
        (Some txt, Some path) \<Rightarrow>
          (let (r, s) = do_sys K (Fopen_wb path) s; fp = fst r
           in if fp < 0 then Inr (-1, s)
              else let (a, s) = do_msp E (Session_begin params) s; sessionID = msp_session a
              in if msp_ret a \<noteq> MSP_SUCCESS then Inr (msp_ret a, snd (do_sys K (Fclose fp) s))
                 else let (a, s) = do_msp E (Text_put sessionID (c_string txt)) s; ret = msp_ret a
                 in if ret \<noteq> MSP_SUCCESS
                    then let (_, s) = do_msp E (Session_end sessionID ''TextPutError'') s
                         in Inr (ret, snd (do_sys K (Fclose fp) s))
                    else let s = snd (do_sys K (Fwrite_block fp (wav_bytes default_wav_hdr)) s)
                    in bindE (audio_loop fuel K E is_playing sessionID fp ret default_wav_hdr s) (\<lambda>(ret, wav_hdr, s).
                       if ret \<noteq> MSP_SUCCESS
                       then let (_, s) = do_msp E (Session_end sessionID ''AudioGetError'') s
                            in Inr (ret, snd (do_sys K (Fclose fp) s))
                       else Inr (finish_file K E sessionID fp wav_hdr s)))
      | _ \<Rightarrow> Inr (-1, s))"

definition login_params :: string where
  "login_params = ''appid = f6760c2e, work_dir = .''"

definition session_begin_params :: string where
  "session_begin_params = ''engine_type = local,voice_name=xiaoyan, text_encoding = UTF8, tts_res_path =fo|res/tts/xiaoyan.jet;fo|res/tts/common.jet , sample_rate = 16000, speed = 50, volume = 50, pitch = 50, rdn = 2''"

definition compound ::
  "nat \<Rightarrow> 'w kernel \<Rightarrow> 'w engine \<Rightarrow> bool \<Rightarrow> byte list \<Rightarrow> 'w os \<Rightarrow> (int \<times> 'w os) res" where
  "compound fuel K E is_playing txt s =
     (let (a, s) = do_msp E (Login login_params) s
      in if msp_ret a \<noteq> MSP_SUCCESS then Inr (0, snd (do_msp E Logout s))
         else bindE (text_to_speech fuel K E is_playing (Some txt) (Some ''tts_sample.wav'') session_begin_params s) (\<lambda>(ret, s).
           if ret \<noteq> MSP_SUCCESS then Inr (0, snd (do_msp E Logout s))
           else let s = snd (do_sys K (System (bytes_of ''aplay tts_sample.wav >/dev/null 2>&1 &'')) s)
                in Inr (0, snd (do_msp E Logout s))))"

definition tts_thread :: "nat \<Rightarrow> 'w kernel \<Rightarrow> 'w engine \<Rightarrow> tts \<Rightarrow> 'w os \<Rightarrow> 'w os res" where
  "tts_thread fuel K E t s = bindE (compound fuel K E True (m_text t) s) (\<lambda>(_, s). Inr s)"

section \<open>The sound file\<close>

text \<open>
  \<open>delivers K E fp sid ds w\<close>: from the world \<open>w\<close> on, the engine answers \<open>QTTSAudioGet\<close> with the blocks
  \<open>ds\<close> (None for a NULL block), reports the end with the last one and not before, and never an error.
\<close>

definition after_block :: "'w kernel \<Rightarrow> int \<Rightarrow> byte list option \<Rightarrow> 'w \<Rightarrow> 'w" where
  "after_block K fp d w = (case d of None \<Rightarrow> w | Some b \<Rightarrow> snd (K (Fwrite_block fp b) w))"

fun delivers :: "'w kernel \<Rightarrow> 'w engine \<Rightarrow> int \<Rightarrow> string \<Rightarrow> byte list option list \<Rightarrow> 'w \<Rightarrow> bool" where
  "delivers K E fp sid [] w = False"
| "delivers K E fp sid (d # ds) w = (case E (Audio_get sid) w of (a, w) \<Rightarrow>
     msp_ret a = 0 \<and> msp_audio a = d \<and> (msp_status a = 2 \<longleftrightarrow> ds = []) \<and>
     (ds = [] \<or> delivers K E fp sid ds (after_block K fp d w)))"

definition sound :: "byte list option list \<Rightarrow> byte list" where
  "sound ds = concat (map (case_option [] id) ds)"

definition block_calls :: "int \<Rightarrow> byte list option \<Rightarrow> syscall list" where
  "block_calls fp d = (case d of None \<Rightarrow> [] | Some b \<Rightarrow> [Fwrite_block fp b])"

definition audio_calls :: "string \<Rightarrow> int \<Rightarrow> byte list option list \<Rightarrow> syscall list" where
  "audio_calls sid fp ds = concat (map (\<lambda>d. Msp (Audio_get sid) # block_calls fp d) ds)"

lemma sound_simps [simp]:
  "sound [] = []" "sound (None # ds) = sound ds" "sound (Some b # ds) = b @ sound ds"
  by (simp_all add: sound_def)

lemma audio_calls_simps [simp]:
  "audio_calls sid fp [] = []"
  "audio_calls sid fp (d # ds) = Msp (Audio_get sid) # block_calls fp d @ audio_calls sid fp ds"
  by (simp_all add: audio_calls_def)

text \<open>One turn of the loop: the state after the block is written, and the header it leaves.\<close>

definition turn_os :: "'w kernel \<Rightarrow> 'w engine \<Rightarrow> string \<Rightarrow> int \<Rightarrow> 'w os \<Rightarrow> 'w os" where
  "turn_os K E sid fp s = (case msp_audio (said E (Audio_get sid) s) of
     None \<Rightarrow> heard E (Audio_get sid) s
   | Some b \<Rightarrow> after K (Fwrite_block fp b) (heard E (Audio_get sid) s))"

definition turn_hdr :: "byte list option \<Rightarrow> wave_pcm_hdr \<Rightarrow> wave_pcm_hdr" where
  "turn_hdr d h = (case d of None \<Rightarrow> h | Some b \<Rightarrow> h\<lparr>data_size := data_size h + word_of_nat (length b)\<rparr>)"

lemma audio_loop_Suc:
  "audio_loop (Suc fuel) K E True sid fp r h s =
     (let a = said E (Audio_get sid) s
      in if msp_ret a \<noteq> 0 then Inr (msp_ret a, h, heard E (Audio_get sid) s)
         else if msp_status a = 2 then Inr (0, turn_hdr (msp_audio a) h, turn_os K E sid fp s)
         else audio_loop fuel K E True sid fp 0 (turn_hdr (msp_audio a) h) (turn_os K E sid fp s))"
  by (simp add: do_msp_pair MSP_SUCCESS_def MSP_TTS_FLAG_DATA_END_def turn_hdr_def turn_os_def Let_def
      split: option.split)

declare audio_loop.simps(2) [simp del]

lemma calls_turn_os:
  "calls (turn_os K E sid fp s) = calls s @ Msp (Audio_get sid) # block_calls fp (msp_audio (said E (Audio_get sid) s))"
  by (simp add: turn_os_def block_calls_def split: option.split)

lemma world_turn_os:
  "world (turn_os K E sid fp s) =
     after_block K fp (msp_audio (said E (Audio_get sid) s)) (snd (E (Audio_get sid) (world s)))"
  by (simp add: turn_os_def after_block_def world_heard after_def do_sys_def split: option.split prod.split)

lemma audio_loop_delivers:
  assumes "delivers K E fp sid ds (world s)" and "length ds \<le> fuel"
  shows "\<exists>s'. audio_loop fuel K E True sid fp r h s =
      Inr (0, h\<lparr>data_size := data_size h + word_of_nat (length (sound ds))\<rparr>, s') \<and>
    calls s' = calls s @ audio_calls sid fp ds"
  using assms
proof (induction ds arbitrary: fuel r h s)
  case Nil
  then show ?case by simp
next
  case (Cons d ds)
  obtain f where f: "fuel = Suc f"
    using Cons.prems(2) by (cases fuel) auto
  let ?a = "said E (Audio_get sid) s" and ?t = "turn_os K E sid fp s"
  have a: "msp_ret ?a = 0" "msp_audio ?a = d" "msp_status ?a = 2 \<longleftrightarrow> ds = []"
    and ds: "ds = [] \<or> delivers K E fp sid ds (world ?t)"
    using Cons.prems(1) by (auto simp: world_heard world_turn_os split: prod.splits)
  have c: "calls ?t = calls s @ Msp (Audio_get sid) # block_calls fp d"
    by (simp add: calls_turn_os a)
  have h: "(turn_hdr d h)\<lparr>data_size := data_size (turn_hdr d h) + word_of_nat (length (sound ds))\<rparr> =
      h\<lparr>data_size := data_size h + word_of_nat (length (sound (d # ds)))\<rparr>"
    by (cases d) (simp_all add: turn_hdr_def)
  show ?case
  proof (cases "ds = []")
    case True
    then have "turn_hdr d h = h\<lparr>data_size := data_size h + word_of_nat (length (sound (d # ds)))\<rparr>"
      using h by simp
    with True a c f show ?thesis
      by (simp add: audio_loop_Suc Let_def)
  next
    case False
    with ds Cons.IH [of ?t f 0 "turn_hdr d h"] Cons.prems(2) f obtain s' where
      "audio_loop f K E True sid fp 0 (turn_hdr d h) ?t =
        Inr (0, h\<lparr>data_size := data_size h + word_of_nat (length (sound (d # ds)))\<rparr>, s')"
      "calls s' = calls ?t @ audio_calls sid fp ds"
      unfolding h by auto
    with False a c f show ?thesis
      by (simp add: audio_loop_Suc Let_def)
  qed
qed

text \<open>What the calls on one handle leave in the file: the writes at the position of the stream.\<close>

fun file_step :: "int \<Rightarrow> syscall \<Rightarrow> byte list \<times> nat \<Rightarrow> byte list \<times> nat" where
  "file_step fp (Fwrite_block f bs) (c, p) =
     (if f = fp then (take p c @ bs @ drop (p + length bs) c, p + length bs) else (c, p))"
| "file_step fp (Fseek f n) (c, p) = (if f = fp then (c, nat n) else (c, p))"
| "file_step fp x (c, p) = (c, p)"

definition file_bytes :: "int \<Rightarrow> syscall list \<Rightarrow> byte list" where
  "file_bytes fp cs = fst (fold (file_step fp) cs ([], 0))"

lemma fold_audio_calls:
  "fold (file_step fp) (audio_calls sid fp ds) (c, length c) = (c @ sound ds, length (c @ sound ds))"
proof (induction ds arbitrary: c)
  case Nil
  show ?case by simp
next
  case (Cons d ds)
  show ?case
  proof (cases d)
    case None
    then show ?thesis
      using Cons [of c] by (simp add: block_calls_def)
  next
    case (Some b)
    then show ?thesis
      using Cons [of "c @ b"] by (simp add: block_calls_def add.commute)
  qed
qed

section \<open>One text\<close>

lemma text_to_speech_eq:
  "text_to_speech fuel K E is_playing (Some txt) (Some path) params s =
     (let fp = answer K (Fopen_wb path) s; s1 = after K (Fopen_wb path) s;
          a = said E (Session_begin params) s1; s2 = heard E (Session_begin params) s1; sid = msp_session a;
          b = said E (Text_put sid (c_string txt)) s2; s3 = heard E (Text_put sid (c_string txt)) s2
      in if fp < 0 then Inr (-1, s1)
         else if msp_ret a \<noteq> 0 then Inr (msp_ret a, after K (Fclose fp) s2)
         else if msp_ret b \<noteq> 0
         then Inr (msp_ret b, after K (Fclose fp) (heard E (Session_end sid ''TextPutError'') s3))
         else bindE (audio_loop fuel K E is_playing sid fp (msp_ret b) default_wav_hdr
                      (after K (Fwrite_block fp (wav_bytes default_wav_hdr)) s3)) (\<lambda>(ret, h, s).
              if ret \<noteq> 0 then Inr (ret, after K (Fclose fp) (heard E (Session_end sid ''AudioGetError'') s))
              else Inr (finish_file K E sid fp h s)))"
  by (simp add: text_to_speech_def do_msp_pair MSP_SUCCESS_def Let_def split_beta)
    (auto intro!: arg_cong [of _ _ "bindE _"] simp: fun_eq_iff do_msp_pair)

definition finish_calls :: "string \<Rightarrow> int \<Rightarrow> wave_pcm_hdr \<Rightarrow> syscall list" where
  "finish_calls sid fp h =
     [Fseek fp 4, Fwrite_block fp (le32 (size_8 h + (data_size h + 36))), Fseek fp 40,
      Fwrite_block fp (le32 (data_size h)), Fflush fp, Fclose fp, Msp (Session_end sid ''Normal'')]"

lemma finish_file_calls: "calls (snd (finish_file K E sid fp h s)) = calls s @ finish_calls sid fp h"
  by (simp add: finish_file_def finish_calls_def do_msp_pair Let_def)

text \<open>The library and the file system let the text through: every step succeeds and the sound is \<open>ds\<close>.\<close>

definition engine_speaks ::
  "'w kernel \<Rightarrow> 'w engine \<Rightarrow> string \<Rightarrow> string \<Rightarrow> byte list \<Rightarrow> int \<Rightarrow> string \<Rightarrow> byte list option list \<Rightarrow> 'w \<Rightarrow> bool" where
  "engine_speaks K E path params txt fp sid ds w =
     (let w1 = snd (K (Fopen_wb path) w); (a, w2) = E (Session_begin params) w1;
          (b, w3) = E (Text_put sid (c_string txt)) w2
      in fst (fst (K (Fopen_wb path) w)) = fp \<and> 0 \<le> fp \<and> msp_ret a = 0 \<and> msp_session a = sid \<and> msp_ret b = 0 \<and>
         delivers K E fp sid ds (snd (K (Fwrite_block fp (wav_bytes default_wav_hdr)) w3)))"

definition speech_calls :: "string \<Rightarrow> string \<Rightarrow> byte list \<Rightarrow> int \<Rightarrow> string \<Rightarrow> byte list option list \<Rightarrow> syscall list" where
  "speech_calls path params txt fp sid ds =
     [Fopen_wb path, Msp (Session_begin params), Msp (Text_put sid (c_string txt)),
      Fwrite_block fp (wav_bytes default_wav_hdr)] @ audio_calls sid fp ds @
     finish_calls sid fp (default_wav_hdr\<lparr>data_size := word_of_nat (length (sound ds))\<rparr>)"

lemma text_to_speech_speaks:
  assumes "engine_speaks K E path params txt fp sid ds (world s)" and "length ds \<le> fuel"
  shows "\<exists>r s'. text_to_speech fuel K E True (Some txt) (Some path) params s = Inr (r, s') \<and>
    calls s' = calls s @ speech_calls path params txt fp sid ds"
proof -
  let ?s1 = "after K (Fopen_wb path) s"
  let ?s2 = "heard E (Session_begin params) ?s1"
  let ?s3 = "heard E (Text_put sid (c_string txt)) ?s2"
  let ?s4 = "after K (Fwrite_block fp (wav_bytes default_wav_hdr)) ?s3"
  let ?h = "default_wav_hdr\<lparr>data_size := word_of_nat (length (sound ds))\<rparr>"
  have e: "answer K (Fopen_wb path) s = fp" "\<not> fp < 0" "msp_ret (said E (Session_begin params) ?s1) = 0"
    "msp_session (said E (Session_begin params) ?s1) = sid"
    "msp_ret (said E (Text_put sid (c_string txt)) ?s2) = 0" "delivers K E fp sid ds (world ?s4)"
    using assms(1) by (auto simp: engine_speaks_def answer_def world_heard world_after Let_def split: prod.splits)
  have "\<And>h. data_size h = 0 \<Longrightarrow> data_size h + n = n" for n
    by simp
  then obtain s5 where l: "audio_loop fuel K E True sid fp 0 default_wav_hdr ?s4 = Inr (0, ?h, s5)"
    and c: "calls s5 = calls ?s4 @ audio_calls sid fp ds"
    using audio_loop_delivers [OF e(6) assms(2), of 0 default_wav_hdr] by (auto simp: default_wav_hdr_def)
  have "text_to_speech fuel K E True (Some txt) (Some path) params s = Inr (finish_file K E sid fp ?h s5)"
    using e l by (simp add: text_to_speech_eq Let_def)
  moreover have "calls (snd (finish_file K E sid fp ?h s5)) = calls s @ speech_calls path params txt fp sid ds"
    by (simp add: finish_file_calls c speech_calls_def)
  ultimately show ?thesis
    by (metis surjective_pairing)
qed

lemma length_wav_bytes [simp]: "length (wav_bytes h) = 44"
  by (simp add: wav_bytes_def bytes_of_def le32_def le16_def)

lemma overwrite_sizes:
  "take 40 (take 4 (wav_bytes h @ d) @ le32 a @ drop 8 (wav_bytes h @ d)) @ le32 b @
     drop 44 (take 4 (wav_bytes h @ d) @ le32 a @ drop 8 (wav_bytes h @ d)) =
   wav_bytes (h\<lparr>size_8 := a, data_size := b\<rparr>) @ d"
  by (simp add: wav_bytes_def bytes_of_def le32_def le16_def)

lemma file_speech_calls:
  "file_bytes fp (speech_calls path params txt fp sid ds) =
     wav_bytes (default_wav_hdr\<lparr>size_8 := word_of_nat (length (sound ds) + 36),
       data_size := word_of_nat (length (sound ds))\<rparr>) @ sound ds"
proof -
  let ?n = "word_of_nat (length (sound ds)) :: 32 word"
  have "fold (file_step fp) (audio_calls sid fp ds) (wav_bytes default_wav_hdr, 44) =
      (wav_bytes default_wav_hdr @ sound ds, 44 + length (sound ds))"
    using fold_audio_calls [of fp sid ds "wav_bytes default_wav_hdr"] by simp
  moreover have "length (le32 a) = 4" for a
    by (simp add: le32_def)
  ultimately show ?thesis
    using overwrite_sizes [of default_wav_hdr "sound ds" "?n + 36" ?n]
    by (simp add: file_bytes_def speech_calls_def finish_calls_def) (simp add: default_wav_hdr_def add.commute)
qed

text \<open>What a player reads: the tags, the format of the header, and as many bytes of sound as the header says.\<close>

definition from_le :: "byte list \<Rightarrow> nat" where
  "from_le bs = foldr (\<lambda>b n. unat b + 256 * n) bs 0"

definition read_wav :: "byte list \<Rightarrow> (nat \<times> nat \<times> nat \<times> byte list) option" where
  "read_wav f =
     (if 44 \<le> length f \<and> take 4 f = bytes_of ''RIFF'' \<and> take 8 (drop 8 f) = bytes_of ''WAVEfmt '' \<and>
         take 4 (drop 36 f) = bytes_of ''data'' \<and> from_le (take 4 (drop 4 f)) + 8 = length f \<and>
         from_le (take 2 (drop 20 f)) = 1 \<and> from_le (take 4 (drop 40 f)) + 44 = length f
      then Some (from_le (take 2 (drop 22 f)), from_le (take 4 (drop 24 f)), from_le (take 2 (drop 34 f)), drop 44 f)
      else None)"

lemma unat_shifted: "unat (drop_bit k w) = unat w div 2 ^ k"
  by (rule trans [OF unat_drop_bit_eq drop_bit_eq_div])

lemma unat_low_byte: "unat (ucast (w :: 'a::len word) :: byte) = unat w mod 256"
  by (simp add: unsigned_ucast_eq take_bit_eq_mod)

lemma four_digits:
  fixes n :: nat
  shows "n mod 256 + (256 * (n div 256 mod 256) + (65536 * (n div 65536 mod 256) + 16777216 * (n div 16777216))) = n"
proof -
  let ?a = "n div 256" and ?b = "n div 256 div 256" and ?c = "n div 256 div 256 div 256"
  have q: "n div 65536 = ?b" "n div 16777216 = ?c"
    by (simp_all add: div_mult2_eq [symmetric])
  have "n = 256 * ?a + n mod 256" "?a = 256 * ?b + ?a mod 256" "?b = 256 * ?c + ?b mod 256"
    by simp_all
  then show ?thesis
    unfolding q by linarith
qed

lemma from_le_le32 [simp]: "from_le (le32 w) = unat w"
proof -
  have "unat w < 2 ^ 32"
    using unsigned_less [of w] by simp
  then have "unat w div 2 ^ 24 < 256"
    by (simp add: less_mult_imp_div_less)
  then have "unat w div 2 ^ 24 mod 256 = unat w div 2 ^ 24"
    by (rule mod_less)
  then show ?thesis
    using four_digits [of "unat w"] by (simp add: from_le_def le32_def unat_low_byte unat_shifted)
qed

lemma from_le_le16 [simp]: "from_le (le16 w) = unat w"
proof -
  have "unat w < 256 * 256"
    using unsigned_less [of w] by simp
  then have "unat w div 256 mod 256 = unat w div 256"
    by (simp add: less_mult_imp_div_less)
  then show ?thesis
    by (simp add: from_le_def le16_def unat_low_byte unat_shifted)
qed

lemma wav_fields:
  fixes h :: wave_pcm_hdr and d :: "byte list"
  defines "f \<equiv> wav_bytes h @ d"
  shows "take 4 f = bytes_of ''RIFF''" "take 8 (drop 8 f) = bytes_of ''WAVEfmt ''"
    "take 4 (drop 36 f) = bytes_of ''data''" "take 4 (drop 4 f) = le32 (size_8 h)"
    "take 2 (drop 20 f) = le16 (format_tag h)" "take 4 (drop 40 f) = le32 (data_size h)"
    "take 2 (drop 22 f) = le16 (channels h)" "take 4 (drop 24 f) = le32 (samples_per_sec h)"
    "take 2 (drop 34 f) = le16 (bits_per_sample h)" "drop 44 f = d"
  unfolding f_def by (simp_all add: wav_bytes_def bytes_of_def le32_def le16_def)

lemma read_wav_bytes:
  assumes "unat (size_8 h) = length d + 36" and "unat (data_size h) = length d" and "format_tag h = 1"
  shows "read_wav (wav_bytes h @ d) = Some (unat (channels h), unat (samples_per_sec h), unat (bits_per_sample h), d)"
proof -
  define f where "f = wav_bytes h @ d"
  then have "length f = 44 + length d"
    by simp
  then show ?thesis
    using assms wav_fields [of h d] by (simp only: f_def [symmetric]) (simp add: read_wav_def)
qed

text \<open>
  C17. The sound file of a text is complete and consistent: when the speech library delivers the sound in
  any number of blocks and every step succeeds, \<open>text_to_speech\<close> returns, it asks for the calls in the order
  begin, text, header, blocks, sizes, close, end, and what these calls leave in the file is a WAV file
  (16 kHz, one channel, 16 bits) whose two size fields agree with its length and whose data is exactly
  the sound delivered, as long as the sound is shorter than 4 GB less the header.
\<close>

theorem wav_file_complete:
  assumes "engine_speaks K E path params txt fp sid ds (world s)" and "length ds \<le> fuel"
    and "length (sound ds) < 2 ^ 32 - 36"
  shows "\<exists>r s'. text_to_speech fuel K E True (Some txt) (Some path) params s = Inr (r, s') \<and>
    calls s' = calls s @ speech_calls path params txt fp sid ds \<and>
    read_wav (file_bytes fp (speech_calls path params txt fp sid ds)) = Some (1, 16000, 16, sound ds)"
proof -
  let ?h = "default_wav_hdr\<lparr>size_8 := word_of_nat (length (sound ds) + 36), data_size := word_of_nat (length (sound ds))\<rparr>"
  have "unat (size_8 ?h) = length (sound ds) + 36" "unat (data_size ?h) = length (sound ds)"
    using assms(3) by (simp_all del: of_nat_add add: unat_of_nat take_bit_nat_eq_self)
  then have "read_wav (wav_bytes ?h @ sound ds) = Some (1, 16000, 16, sound ds)"
    by (subst read_wav_bytes) (simp_all add: default_wav_hdr_def)
  then show ?thesis
    using text_to_speech_speaks [OF assms(1,2)] by (simp add: file_speech_calls)
qed

text \<open>An engine that says two bytes, then a NULL block, then three bytes; the world counts the calls of \<open>QTTSAudioGet\<close>.\<close>

definition example_engine :: "nat engine" where
  "example_engine c n = (case c of
     Audio_get x \<Rightarrow> (\<lparr>msp_ret = 0, msp_audio = (if n = 0 then Some [1, 2] else if n = 1 then None else Some [3, 4, 5]),
        msp_status = (if n < 2 then 1 else 2), msp_session = ''''\<rparr>, n + 1)
   | _ \<Rightarrow> (\<lparr>msp_ret = 0, msp_audio = None, msp_status = 0, msp_session = ''s''\<rparr>, n))"

definition quiet_kernel :: "nat kernel" where
  "quiet_kernel c n = ((5, []), n)"

lemma example_engine_speaks:
  "engine_speaks quiet_kernel example_engine path params txt 5 ''s'' [Some [1, 2], None, Some [3, 4, 5]] 0"
  by (simp add: engine_speaks_def quiet_kernel_def example_engine_def after_block_def)

theorem wav_file_complete_witness:
  "\<exists>r s'. text_to_speech 3 quiet_kernel example_engine True (Some [72, 105]) (Some ''a.wav'') '''' \<lparr>world = 0, calls = []\<rparr> = Inr (r, s') \<and>
    read_wav (file_bytes 5 (calls s')) = Some (1, 16000, 16, [1, 2, 3, 4, 5])"
proof -
  have "\<exists>r s'. text_to_speech 3 quiet_kernel example_engine True (Some [72, 105]) (Some ''a.wav'') '''' \<lparr>world = 0, calls = []\<rparr> = Inr (r, s') \<and>
      calls s' = [] @ speech_calls ''a.wav'' '''' [72, 105] 5 ''s'' [Some [1, 2], None, Some [3, 4, 5]] \<and>
      read_wav (file_bytes 5 (speech_calls ''a.wav'' '''' [72, 105] 5 ''s'' [Some [1, 2], None, Some [3, 4, 5]])) =
        Some (1, 16000, 16, sound [Some [1, 2], None, Some [3, 4, 5]])"
    using wav_file_complete [of quiet_kernel example_engine "''a.wav''" "''''" "[72, 105]" 5 "''s''"
        "[Some [1, 2], None, Some [3, 4, 5]]" "\<lparr>world = 0, calls = []\<rparr>" 3] example_engine_speaks by simp
  then show ?thesis
    by auto
qed

section \<open>Termination\<close>

text \<open>\<open>ends_within n w\<close>: one of the next \<open>n\<close> answers of \<open>QTTSAudioGet\<close> is an error or reports the end.\<close>

fun ends_within :: "'w kernel \<Rightarrow> 'w engine \<Rightarrow> int \<Rightarrow> string \<Rightarrow> nat \<Rightarrow> 'w \<Rightarrow> bool" where
  "ends_within K E fp sid 0 w = False"
| "ends_within K E fp sid (Suc n) w = (case E (Audio_get sid) w of (a, w) \<Rightarrow>
     msp_ret a \<noteq> 0 \<or> msp_status a = 2 \<or> ends_within K E fp sid n (after_block K fp (msp_audio a) w))"

lemma ends_within_Suc:
  "ends_within K E fp sid (Suc n) (world s) \<longleftrightarrow> msp_ret (said E (Audio_get sid) s) \<noteq> 0 \<or>
     msp_status (said E (Audio_get sid) s) = 2 \<or> ends_within K E fp sid n (world (turn_os K E sid fp s))"
  by (simp add: world_heard world_turn_os split_beta)

text \<open>With the flag set, the loop returns with fuel \<open>n\<close> exactly if the engine ends it within \<open>n\<close> answers.\<close>

lemma audio_loop_ends:
  "(\<exists>x. audio_loop n K E True sid fp r h s = Inr x) \<longleftrightarrow> ends_within K E fp sid n (world s)"
proof (induction n arbitrary: r h s)
  case 0
  show ?case by simp
next
  case (Suc n)
  then show ?case
    unfolding ends_within_Suc by (simp add: audio_loop_Suc Let_def)
qed

lemma bindE_returns:
  "(\<exists>x. bindE m (\<lambda>(r, h, t). if r \<noteq> 0 then Inr (f r h t) else Inr (g h t)) = Inr x) \<longleftrightarrow> (\<exists>x. m = Inr x)"
  by (cases m) auto

lemma text_to_speech_returns:
  "(\<exists>x. text_to_speech fuel K E p (Some txt) (Some path) params s = Inr x) \<longleftrightarrow>
    (let fp = answer K (Fopen_wb path) s; s1 = after K (Fopen_wb path) s;
         a = said E (Session_begin params) s1; s2 = heard E (Session_begin params) s1; sid = msp_session a;
         b = said E (Text_put sid (c_string txt)) s2; s3 = heard E (Text_put sid (c_string txt)) s2
     in fp < 0 \<or> msp_ret a \<noteq> 0 \<or> msp_ret b \<noteq> 0 \<or>
        (\<exists>x. audio_loop fuel K E p sid fp (msp_ret b) default_wav_hdr
               (after K (Fwrite_block fp (wav_bytes default_wav_hdr)) s3) = Inr x))"
  unfolding text_to_speech_eq Let_def by (simp add: bindE_returns del: split_paired_Ex)

lemma audio_loop_faults: "audio_loop n K E p sid fp r h s = Inl e \<Longrightarrow> e = Diverges"
proof (induction n arbitrary: r h s)
  case (Suc n)
  show ?case
  proof (cases p)
    case True
    then show ?thesis
      using Suc by (auto simp: audio_loop_Suc Let_def split: if_splits)
  qed (use Suc.prems in \<open>simp add: audio_loop.simps(2)\<close>)
qed simp

lemma text_to_speech_faults:
  "text_to_speech fuel K E p (Some txt) (Some path) params s = Inl e \<Longrightarrow> e = Diverges"
  by (auto simp: text_to_speech_eq Let_def res_conv dest: audio_loop_faults split: if_splits)

section \<open>The playback thread\<close>

definition play_command :: "byte list" where
  "play_command = bytes_of ''aplay tts_sample.wav >/dev/null 2>&1 &''"

lemma compound_eq:
  "compound fuel K E p txt s =
     (let s1 = heard E (Login login_params) s
      in if msp_ret (said E (Login login_params) s) \<noteq> 0 then Inr (0, heard E Logout s1)
         else bindE (text_to_speech fuel K E p (Some txt) (Some ''tts_sample.wav'') session_begin_params s1) (\<lambda>(ret, s).
           Inr (0, heard E Logout (if ret \<noteq> 0 then s else after K (System play_command) s))))"
  by (simp add: compound_def do_msp_pair MSP_SUCCESS_def play_command_def Let_def split_beta)
    (auto intro!: arg_cong [of _ _ "bindE _"] simp: fun_eq_iff do_msp_pair play_command_def)

text \<open>The body of the thread as the player's model takes it: the text is what \<open>m_text\<close> holds up to its end.\<close>

definition playback_body :: "nat \<Rightarrow> 'w kernel \<Rightarrow> 'w engine \<Rightarrow> byte list \<Rightarrow> 'w os \<Rightarrow> 'w os res" where
  "playback_body fuel K E txt s = tts_thread fuel K E \<lparr>m_text = txt, m_thread = Running\<rparr> s"

lemma playback_body_eq: "playback_body fuel K E txt s = bindE (compound fuel K E True txt s) (\<lambda>(_, s). Inr s)"
  by (simp add: playback_body_def tts_thread_def)

lemma playback_body_diverges:
  assumes "msp_ret (said E (Login login_params) s) = 0"
    and "\<not> (\<exists>x. text_to_speech fuel K E True (Some txt) (Some ''tts_sample.wav'') session_begin_params
      (heard E (Login login_params) s) = Inr x)"
  shows "playback_body fuel K E txt s = Inl Diverges"
proof -
  obtain e where "text_to_speech fuel K E True (Some txt) (Some ''tts_sample.wav'') session_begin_params
      (heard E (Login login_params) s) = Inl e"
    using assms(2) by (cases "text_to_speech fuel K E True (Some txt) (Some ''tts_sample.wav'') session_begin_params
      (heard E (Login login_params) s)") auto
  then show ?thesis
    using assms(1) text_to_speech_faults by (auto simp: playback_body_eq compound_eq Let_def)
qed

text \<open>
  C18. When synthesis ends: with the file open, the session begun and the text accepted,
  \<open>text_to_speech\<close> returns if and only if the speech library some time answers \<open>QTTSAudioGet\<close> with an error
  or with the end of the data. The flag \<open>is_playing\<close>, which the loop reads, is set before it and never cleared, so a library
  that keeps answering "more data" (an empty block included) makes the thread run for ever; and then, when the thread's
  login had succeeded, a voice command that comes while it runs and whose own text fits its buffers never returns, whatever
  the fuel, since \<open>speech_playback\<close> then joins the thread before it does anything else.
\<close>

theorem synthesis_ends_iff:
  "((\<exists>fuel x. text_to_speech fuel K E True (Some txt) (Some path) params s = Inr x) \<longleftrightarrow>
    (let fp = answer K (Fopen_wb path) s; s1 = after K (Fopen_wb path) s;
         a = said E (Session_begin params) s1; s2 = heard E (Session_begin params) s1; sid = msp_session a;
         b = said E (Text_put sid (c_string txt)) s2; s3 = heard E (Text_put sid (c_string txt)) s2
     in fp < 0 \<or> msp_ret a \<noteq> 0 \<or> msp_ret b \<noteq> 0 \<or>
        (\<exists>n. ends_within K E fp sid n (world (after K (Fwrite_block fp (wav_bytes default_wav_hdr)) s3))))) \<and>
   (m_thread t = Running \<and> msp_ret (said E (Login login_params) z) = 0 \<and>
    \<not> (\<exists>fuel x. text_to_speech fuel K E True (Some (c_string (m_text t))) (Some ''tts_sample.wav'') session_begin_params
         (heard E (Login login_params) z) = Inr x) \<and>
    speech_buffer io ic ty new len = Inr buf \<longrightarrow>
    (\<forall>fuel. speech_playback K io ic (playback_body fuel K E) ty v new len t z = Inl Diverges))"
proof (rule conjI)
  show "(\<exists>fuel x. text_to_speech fuel K E True (Some txt) (Some path) params s = Inr x) \<longleftrightarrow>
    (let fp = answer K (Fopen_wb path) s; s1 = after K (Fopen_wb path) s;
         a = said E (Session_begin params) s1; s2 = heard E (Session_begin params) s1; sid = msp_session a;
         b = said E (Text_put sid (c_string txt)) s2; s3 = heard E (Text_put sid (c_string txt)) s2
     in fp < 0 \<or> msp_ret a \<noteq> 0 \<or> msp_ret b \<noteq> 0 \<or>
        (\<exists>n. ends_within K E fp sid n (world (after K (Fwrite_block fp (wav_bytes default_wav_hdr)) s3))))"
    by (simp only: text_to_speech_returns Let_def ex_disj_distrib audio_loop_ends simp_thms)
qed (auto intro!: speech_playback_blocked simp: join_player_def playback_body_diverges simp del: split_paired_Ex)

text \<open>A library that always has more, and never any sound.\<close>

definition endless_engine :: "nat engine" where
  "endless_engine c n = (\<lparr>msp_ret = 0, msp_audio = None, msp_status = 1, msp_session = ''s''\<rparr>, n)"

lemma endless_never_ends: "\<not> ends_within quiet_kernel endless_engine fp sid n w"
  by (induction n arbitrary: w) (simp_all add: endless_engine_def after_block_def)

theorem synthesis_ends_iff_witness:
  "(\<exists>fuel x. text_to_speech fuel quiet_kernel example_engine True (Some [72, 105]) (Some ''a.wav'') [] \<lparr>world = 0, calls = []\<rparr> = Inr x) \<and>
   (\<forall>fuel. speech_playback quiet_kernel (\<lambda>_ _. None :: unit option) (\<lambda>_ _ _. (False, []))
      (playback_body fuel quiet_kernel endless_engine) 1 5 [66] 1 \<lparr>m_text = [65, 0], m_thread = Running\<rparr>
      \<lparr>world = 0, calls = []\<rparr> = Inl Diverges)"
proof
  note iff = synthesis_ends_iff [THEN conjunct1]
  have ends: "ends_within quiet_kernel example_engine fp sid 3 0" for fp sid
    by (simp add: numeral_3_eq_3 example_engine_def quiet_kernel_def after_block_def)
  have "\<exists>n. ends_within quiet_kernel example_engine fp sid n (world (after quiet_kernel c (heard example_engine (Text_put x y)
      (heard example_engine (Session_begin z) (after quiet_kernel d \<lparr>world = 0, calls = []\<rparr>)))))" for fp sid c x y z d
    using ends by (intro exI [of _ 3]) (simp add: after_def do_sys_def heard_def do_msp_def quiet_kernel_def example_engine_def)
  then show "\<exists>fuel x. text_to_speech fuel quiet_kernel example_engine True (Some [72, 105]) (Some ''a.wav'') [] \<lparr>world = 0, calls = []\<rparr> = Inr x"
    unfolding iff Let_def by blast
  let ?t = "\<lparr>m_text = [65, 0], m_thread = Running\<rparr>" and ?s = "\<lparr>world = 0 :: nat, calls = []\<rparr>"
  have a: "\<not> (\<exists>fuel x. text_to_speech fuel quiet_kernel endless_engine True (Some (c_string (m_text ?t))) (Some ''tts_sample.wav'')
      session_begin_params (heard endless_engine (Login login_params) ?s) = Inr x)"
    unfolding iff Let_def
    by (simp add: endless_never_ends answer_def quiet_kernel_def said_def do_msp_def endless_engine_def)
  have b: "msp_ret (said endless_engine (Login login_params) ?s) = 0"
    by (simp add: said_def do_msp_def endless_engine_def)
  have c: "speech_buffer (\<lambda>_ _. None :: unit option) (\<lambda>_ _ _. (False, [])) 1 [66] 1 = Inr ([66] @ replicate 5 0)"
    using speech_buffer_utf8 [of "\<lambda>_ _. None :: unit option" "\<lambda>_ _ _. (False, [])" "[66]" "[]"] by simp
  show "\<forall>fuel. speech_playback quiet_kernel (\<lambda>_ _. None :: unit option) (\<lambda>_ _ _. (False, []))
      (playback_body fuel quiet_kernel endless_engine) 1 5 [66] 1 ?t ?s = Inl Diverges"
    by (rule synthesis_ends_iff [THEN conjunct2, THEN mp, OF conjI [OF _ conjI [OF b conjI [OF a c]]]]) simp
qed

section \<open>Resources\<close>

definition is_close :: "syscall \<Rightarrow> bool" where
  "is_close c = (case c of Fclose f \<Rightarrow> True | _ \<Rightarrow> False)"

definition is_end :: "syscall \<Rightarrow> bool" where
  "is_end c = (case c of Msp (Session_end sid why) \<Rightarrow> True | _ \<Rightarrow> False)"

definition is_system :: "syscall \<Rightarrow> bool" where
  "is_system c = (case c of System cmd \<Rightarrow> True | _ \<Rightarrow> False)"

lemma is_system_simps [simp]:
  "is_system (System cmd)" "\<not> is_system (Msp c)" "\<not> is_system (Fclose fp)" "\<not> is_system (Fopen_wb path)"
  "\<not> is_system (Fwrite_block fp bs)" "\<not> is_system (Fseek fp n)" "\<not> is_system (Fflush fp)"
  "filter is_system (block_calls fp d) = []"
  by (simp_all add: is_system_def block_calls_def split: option.split)

lemma release_simps [simp]:
  "is_close (Fclose fp)" "is_end (Msp (Session_end sid why))" "\<not> is_close (Msp c)" "\<not> is_end (Fclose fp)"
  "\<not> is_close (Fopen_wb path)" "\<not> is_end (Fopen_wb path)" "\<not> is_end (Msp (Session_begin params))"
  "\<not> is_end (Msp (Text_put sid t))" "\<not> is_close (Fwrite_block fp bs)" "\<not> is_end (Fwrite_block fp bs)"
  "\<not> is_close (Fseek fp n)" "\<not> is_end (Fseek fp n)" "\<not> is_close (Fflush fp)" "\<not> is_end (Fflush fp)"
  "\<not> is_end (Msp (Audio_get sid))"
  "filter is_close (block_calls fp d) = []" "filter is_end (block_calls fp d) = []"
  by (simp_all add: is_close_def is_end_def block_calls_def split: option.split)

lemma audio_loop_calls:
  "audio_loop n K E p sid fp r h s = Inr (r', h', s') \<Longrightarrow>
   \<exists>tr. calls s' = calls s @ tr \<and> filter is_close tr = [] \<and> filter is_end tr = [] \<and> filter is_system tr = []"
proof (induction n arbitrary: r h s)
  case 0
  then show ?case by simp
next
  case (Suc n)
  show ?case
  proof (cases p)
    case False
    with Suc.prems show ?thesis
      by (simp add: audio_loop.simps(2))
  next
    case True
    let ?t = "turn_os K E sid fp s"
    let ?b = "Msp (Audio_get sid) # block_calls fp (msp_audio (said E (Audio_get sid) s))"
    consider "s' = heard E (Audio_get sid) s" | "s' = ?t"
      | r'' h'' where "audio_loop n K E p sid fp r'' h'' ?t = Inr (r', h', s')"
      using Suc.prems True by (auto simp: audio_loop_Suc Let_def split: if_splits)
    then show ?thesis
    proof cases
      case 1
      then show ?thesis by (intro exI [of _ "[Msp (Audio_get sid)]"]) simp
    next
      case 2
      then show ?thesis by (intro exI [of _ ?b]) (simp add: calls_turn_os)
    next
      case 3
      then obtain tr where "calls s' = calls ?t @ tr" "filter is_close tr = []" "filter is_end tr = []" "filter is_system tr = []"
        using Suc.IH by blast
      then show ?thesis by (intro exI [of _ "?b @ tr"]) (simp add: calls_turn_os)
    qed
  qed
qed

lemma text_to_speech_trace:
  assumes "text_to_speech fuel K E is_playing (Some txt) (Some path) params s = Inr (r, s')"
  shows "\<exists>tr. calls s' = calls s @ tr \<and> filter is_system tr = [] \<and>
    (let fp = answer K (Fopen_wb path) s; a = said E (Session_begin params) (after K (Fopen_wb path) s)
     in filter is_close tr = (if fp < 0 then [] else [Fclose fp]) \<and>
        (if fp < 0 \<or> msp_ret a \<noteq> 0 then filter is_end tr = []
         else \<exists>why. filter is_end tr = [Msp (Session_end (msp_session a) why)]))"
proof -
  define fp where d1: "fp = answer K (Fopen_wb path) s"
  define s1 where d2: "s1 = after K (Fopen_wb path) s"
  define a where d3: "a = said E (Session_begin params) s1"
  define s2 where d4: "s2 = heard E (Session_begin params) s1"
  define b where d5: "b = said E (Text_put (msp_session a) (c_string txt)) s2"
  define s3 where d6: "s3 = heard E (Text_put (msp_session a) (c_string txt)) s2"

  let ?s4 = "after K (Fwrite_block fp (wav_bytes default_wav_hdr)) s3"
  note run = assms [unfolded text_to_speech_eq Let_def, folded d1 d2, folded d3 d4, folded d5 d6]
  have c3: "calls s3 = calls s @ [Fopen_wb path, Msp (Session_begin params), Msp (Text_put (msp_session a) (c_string txt))]"
    and c2: "calls s2 = calls s @ [Fopen_wb path, Msp (Session_begin params)]" and c1: "calls s1 = calls s @ [Fopen_wb path]"
    by (simp_all add: d2 d4 d6)
  consider "fp < 0" "s' = s1" | "0 \<le> fp" "msp_ret a \<noteq> 0" "s' = after K (Fclose fp) s2"
    | "0 \<le> fp" "msp_ret a = 0" "s' = after K (Fclose fp) (heard E (Session_end (msp_session a) ''TextPutError'') s3)"
    | x h t where "0 \<le> fp" "msp_ret a = 0" "audio_loop fuel K E is_playing (msp_session a) fp (msp_ret b) default_wav_hdr ?s4 = Inr (x, h, t)"
      "s' = after K (Fclose fp) (heard E (Session_end (msp_session a) ''AudioGetError'') t) \<or>
       s' = snd (finish_file K E (msp_session a) fp h t)"
    using run by (auto simp: res_conv split: if_splits)
  then show ?thesis
  proof cases
    case 4
    from audio_loop_calls [OF 4(3)] obtain tr where "calls t = calls ?s4 @ tr" "filter is_close tr = []" "filter is_end tr = []" "filter is_system tr = []"
      by blast
    then show ?thesis
      using 4(1,2,4) by (auto simp: c3 finish_file_calls finish_calls_def d1 [symmetric] d2 [symmetric] d3 [symmetric])
  qed (auto simp: c1 c2 c3 d1 [symmetric] d2 [symmetric] d3 [symmetric])
qed

text \<open>
  C29. \<open>text_to_speech\<close> releases what it acquires: whatever the file system and the speech library
  answer, on every path on which it returns, a file that was opened is closed exactly once, a
  session that was begun is ended exactly once and under its own name, and nothing is closed or ended that was not.
\<close>

theorem synthesis_releases_resources:
  assumes "text_to_speech fuel K E is_playing (Some txt) (Some path) params s = Inr (r, s')"
  shows "\<exists>tr. calls s' = calls s @ tr \<and>
    (let fp = answer K (Fopen_wb path) s; a = said E (Session_begin params) (after K (Fopen_wb path) s)
     in filter is_close tr = (if fp < 0 then [] else [Fclose fp]) \<and>
        (if fp < 0 \<or> msp_ret a \<noteq> 0 then filter is_end tr = []
         else \<exists>why. filter is_end tr = [Msp (Session_end (msp_session a) why)]))"
  using text_to_speech_trace [OF assms] by blast

text \<open>An engine that accepts the text and then fails.\<close>

definition failing_engine :: "nat engine" where
  "failing_engine c n = (\<lparr>msp_ret = (case c of Audio_get x \<Rightarrow> 10107 | _ \<Rightarrow> 0), msp_audio = None, msp_status = 1,
     msp_session = ''s''\<rparr>, n)"

lemma failing_run:
  "text_to_speech 1 quiet_kernel failing_engine True (Some [72]) (Some ''a.wav'') '''' \<lparr>world = 0, calls = []\<rparr> =
    Inr (10107, \<lparr>world = 0, calls = [Fopen_wb ''a.wav'', Msp (Session_begin ''''), Msp (Text_put ''s'' [72]),
      Fwrite_block 5 (wav_bytes default_wav_hdr), Msp (Audio_get ''s''), Msp (Session_end ''s'' ''AudioGetError''), Fclose 5]\<rparr>)"
  by (simp add: text_to_speech_def audio_loop.simps(2) failing_engine_def do_msp_def do_sys_def after_def quiet_kernel_def
      MSP_SUCCESS_def c_string_def Let_def)

theorem synthesis_releases_resources_witness:
  "\<exists>tr. [Fopen_wb ''a.wav'', Msp (Session_begin ''''), Msp (Text_put ''s'' [72]),
      Fwrite_block 5 (wav_bytes default_wav_hdr), Msp (Audio_get ''s''), Msp (Session_end ''s'' ''AudioGetError''), Fclose 5] = tr \<and>
    filter is_close tr = [Fclose 5] \<and> (\<exists>why. filter is_end tr = [Msp (Session_end ''s'' why)])"
  using synthesis_releases_resources [OF failing_run]
  by (simp add: answer_def said_def do_msp_def quiet_kernel_def failing_engine_def Let_def)

section \<open>Errors and replaced texts\<close>

text \<open>
  Errors of synthesis are not reported: whenever \<open>compound\<close> returns it returns 0, after exactly one
  login at the start and one logout at the end; the player is started (as the only command run)
  exactly when the login succeeded and \<open>text_to_speech\<close> returned success.
\<close>

theorem compound_hides_errors:
  assumes "compound fuel K E p txt s = Inr (r, s')"
  shows "r = 0 \<and> (\<exists>tr. calls s' = calls s @ Msp (Login login_params) # tr @ [Msp Logout] \<and>
    filter is_system tr =
      (if msp_ret (said E (Login login_params) s) = 0 \<and>
          (\<exists>t. text_to_speech fuel K E p (Some txt) (Some ''tts_sample.wav'') session_begin_params
                 (heard E (Login login_params) s) = Inr (0, t))
       then [System play_command] else []))"
proof (cases "msp_ret (said E (Login login_params) s) = 0")
  case False
  with assms show ?thesis
    by (auto simp: compound_eq Let_def)
next
  case True
  with assms obtain q t where t: "text_to_speech fuel K E p (Some txt) (Some ''tts_sample.wav'') session_begin_params
      (heard E (Login login_params) s) = Inr (q, t)" and r: "r = 0"
    and s': "s' = heard E Logout (if q \<noteq> 0 then t else after K (System play_command) t)"
    by (auto simp: compound_eq Let_def res_conv)
  from text_to_speech_trace [OF t] obtain tr where tr: "calls t = calls s @ Msp (Login login_params) # tr" "filter is_system tr = []"
    by auto
  with True t r s' show ?thesis
    by (cases "q = 0") auto
qed

theorem compound_hides_errors_witness:
  "\<exists>s'. compound 1 quiet_kernel failing_engine True [72] \<lparr>world = 0, calls = []\<rparr> = Inr (0, s') \<and>
    System play_command \<notin> set (calls s')"
proof -
  let ?s = "\<lparr>world = 0 :: nat, calls = []\<rparr>"
  obtain t where t: "text_to_speech 1 quiet_kernel failing_engine True (Some [72]) (Some ''tts_sample.wav'') session_begin_params
      (heard failing_engine (Login login_params) ?s) = Inr (10107, t)"
    by (simp add: text_to_speech_def audio_loop.simps(2) failing_engine_def do_msp_def do_sys_def after_def quiet_kernel_def
        MSP_SUCCESS_def c_string_def Let_def)
  then obtain s' where c: "compound 1 quiet_kernel failing_engine True [72] ?s = Inr (0, s')"
    by (simp add: compound_eq said_def do_msp_def failing_engine_def Let_def)
  obtain tr where "calls s' = Msp (Login login_params) # tr @ [Msp Logout]" "filter is_system tr = []"
    using compound_hides_errors [OF c] t by auto
  moreover then have "System play_command \<notin> set tr"
    by (auto simp: filter_empty_conv)
  ultimately show ?thesis
    using c by auto
qed

text \<open>
  C40. A text (in UTF-8, of fewer than 2048 bytes, none of them zero) that arrives while the previous one is still being synthesised cuts it off at once: when the login and the
  synthesis succeed, the new command waits for the thread, whose last two acts are to start the player in the background and
  to log out, and then asks for the player's process, and, when it is found, kills it before the mixer is set and the new text taken:
  nothing but the logout and the search comes between the start of the player and its end.
\<close>

theorem replaced_text_unheard:
  assumes "m_thread t = Running" and "msp_ret (said E (Login login_params) s) = 0"
    and "text_to_speech fuel K E True (Some (c_string (m_text t))) (Some ''tts_sample.wav'') session_begin_params
      (heard E (Login login_params) s) = Inr (0, s1)"
    and "0 \<notin> set txt" and "length txt < 2048"
  shows "\<exists>t' s' s2. speech_playback K io ic (playback_body fuel K E) 1 n (txt @ rest) (int (length txt)) t s = Inr (t', s') \<and>
    calls s2 = calls s1 @ [System play_command, Msp Logout] \<and>
    calls s' = calls s2 @ System (bytes_of ''pidof aplay'') #
      (if answer K (System (bytes_of ''pidof aplay'')) s2 = 0 then [System (bytes_of ''killall -9 aplay'')] else []) @
      [System (bytes_of (''amixer set Master '' @ to_string n @ ''0''))] \<and>
    c_string (m_text t') = txt \<and> m_thread t' = Running"
proof -
  let ?s2 = "heard E Logout (after K (System play_command) s1)"
  have "join_player (playback_body fuel K E) t s = Inr ?s2"
    using assms(1-3) by (simp add: join_player_def playback_body_eq compound_eq Let_def)
  from speech_playback_utf8 [OF assms(4,5) this, of K io ic n rest] assms(1) show ?thesis
    by (auto simp: stop_calls_def joinable_def intro!: exI [of _ ?s2])
qed

theorem replaced_text_unheard_witness:
  "\<exists>t' s'. speech_playback (\<lambda>c n. ((0, []), n)) (\<lambda>_ _. None :: unit option) (\<lambda>_ _ _. (False, []))
      (playback_body 1 (\<lambda>c n. ((0, []), n)) (\<lambda>c n :: nat. (\<lparr>msp_ret = 0, msp_audio = None, msp_status = 2, msp_session = []\<rparr>, n)))
      1 5 [66] 1 \<lparr>m_text = [65, 0], m_thread = Running\<rparr> \<lparr>world = 0, calls = []\<rparr> = Inr (t', s') \<and>
    c_string (m_text t') = [66] \<and> System play_command \<in> set (calls s') \<and> System (bytes_of ''killall -9 aplay'') \<in> set (calls s')"
proof -
  let ?K = "\<lambda>c n. ((0, []), n) :: (int \<times> byte list) \<times> nat"
  let ?E = "\<lambda>c n. (\<lparr>msp_ret = 0, msp_audio = None, msp_status = 2, msp_session = []\<rparr>, n) :: msp_answer \<times> nat"
  let ?t = "\<lparr>m_text = [65, 0], m_thread = Running\<rparr>"
  let ?s = "\<lparr>world = 0 :: nat, calls = []\<rparr>"
  have e: "engine_speaks ?K ?E ''tts_sample.wav'' session_begin_params (c_string (m_text ?t)) 0 [] [None]
      (world (heard ?E (Login login_params) ?s))"
    by (simp add: engine_speaks_def Let_def)
  obtain q s1 where q: "text_to_speech 1 ?K ?E True (Some (c_string (m_text ?t))) (Some ''tts_sample.wav'') session_begin_params
      (heard ?E (Login login_params) ?s) = Inr (q, s1)"
    using text_to_speech_speaks [OF e, of 1] by auto
  then have "q = 0"
    by (simp add: text_to_speech_eq Let_def answer_def said_def do_msp_def audio_loop_Suc finish_file_def split: if_splits)
  with q have c: "text_to_speech 1 ?K ?E True (Some (c_string (m_text ?t))) (Some ''tts_sample.wav'') session_begin_params
      (heard ?E (Login login_params) ?s) = Inr (0, s1)"
    by simp
  have l: "msp_ret (said ?E (Login login_params) ?s) = 0"
    by (simp add: said_def do_msp_def)
  show ?thesis
    using replaced_text_unheard [OF _ l c, of "[66]" "\<lambda>_ _. None :: unit option" "\<lambda>_ _ _. (False, [])" 5 "[]"]
    by (auto simp: answer_def)
qed

end
