(* ===== verification/Lane.thy ===== *)
theory Lane
  imports Receive Threads Synthesis
begin

text \<open>
  The controller as a whole: the turns of all its threads as one step relation over the shared
  machine, the detector thread's state and the parsers of the two connections, and the invariant
  that every turn of every thread keeps, in whatever order the scheduler runs them. A step is one
  turn: a read of a connection with the commands it completes, one round of the detector, heartbeat
  or default-text thread, one accepted connection, one round of the display thread, the end of the
  barrier pulse. What a turn may answer with a fault is not a step.
\<close>

section \<open>Partial correctness of fault-carrying code\<close>

text \<open>\<open>yields r Q\<close>: if \<open>r\<close> is not a fault, its value satisfies \<open>Q\<close>.\<close>

definition yields :: "'a res \<Rightarrow> ('a \<Rightarrow> bool) \<Rightarrow> bool" where
  "yields r Q \<longleftrightarrow> (case r of Inl _ \<Rightarrow> True | Inr x \<Rightarrow> Q x)"

named_theorems yields_intros "partial correctness of an operation"

lemma yields_simps [simp]: "yields (Inl e) Q" "yields (Inr x) Q \<longleftrightarrow> Q x"
  by (simp_all add: yields_def)

lemma yieldsD: "yields r Q \<Longrightarrow> r = Inr x \<Longrightarrow> Q x"
  by (simp add: yields_def)

lemma yieldsI: "(\<And>x. r = Inr x \<Longrightarrow> Q x) \<Longrightarrow> yields r Q"
  by (simp add: yields_def split: sum.split)

lemma yields_bind: "yields r Q \<Longrightarrow> (\<And>x. Q x \<Longrightarrow> yields (f x) R) \<Longrightarrow> yields (bindE r f) R"
  by (cases r) auto

lemma yields_any: "(\<And>x. yields (f x) R) \<Longrightarrow> yields (bindE r f) R"
  by (cases r) auto

lemma yields_if: "(b \<Longrightarrow> yields x Q) \<Longrightarrow> (\<not> b \<Longrightarrow> yields y Q) \<Longrightarrow> yields (if b then x else y) Q"
  by simp

lemma yields_mono: "yields r Q \<Longrightarrow> (\<And>x. Q x \<Longrightarrow> R x) \<Longrightarrow> yields r R"
  by (auto simp: yields_def split: sum.splits)

lemma yields_foldE: "(\<And>x s. I s \<Longrightarrow> yields (f x s) I) \<Longrightarrow> I s \<Longrightarrow> yields (foldE f xs s) I"
  by (induction xs arbitrary: s) (auto intro!: yields_bind)

section \<open>The invariant\<close>

text \<open>Calls that do not write to the descriptors \<open>u\<close> and \<open>d\<close> of the motor outputs.\<close>

definition quiet :: "int \<Rightarrow> int \<Rightarrow> syscall list \<Rightarrow> bool" where
  "quiet u d cs \<longleftrightarrow> (\<forall>bs. Write_fd u bs \<notin> set cs \<and> Write_fd d bs \<notin> set cs)"

definition adds :: "int \<Rightarrow> int \<Rightarrow> 'w os \<Rightarrow> 'w os \<Rightarrow> bool" where
  "adds u d s s' \<longleftrightarrow> (\<exists>cs. calls s' = calls s @ cs \<and> quiet u d cs)"

lemma adds_refl [simp]: "adds u d s s"
  by (simp add: adds_def quiet_def)

lemma adds_trans [trans]: "adds u d s s' \<Longrightarrow> adds u d s' s'' \<Longrightarrow> adds u d s s''"
  by (force simp: adds_def quiet_def)

lemma adds_calls: "calls s' = calls s @ cs \<Longrightarrow> quiet u d cs \<Longrightarrow> adds u d s s'"
  by (auto simp: adds_def)

definition plain :: "int \<Rightarrow> int \<Rightarrow> syscall \<Rightarrow> bool" where
  "plain u d c \<longleftrightarrow> (case c of Write_fd f bs \<Rightarrow> f \<noteq> u \<and> f \<noteq> d | _ \<Rightarrow> True)"

lemma plain_simps [simp]:
  "plain u d (System x)" "plain u d (Send_sock f b)" "plain u d (Recv_sock f n)" "plain u d (Lseek f)"
  "plain u d (Read_fd f n)" "plain u d (Shutdown f)" "plain u d (Close_fd f)" "plain u d (Accept_conn f)"
  "plain u d (Fopen_wb p)" "plain u d (Fwrite_block f b)" "plain u d (Fseek f k)" "plain u d (Fflush f)"
  "plain u d (Fclose f)" "plain u d (Msp c)" "plain u d (Write_fd f b) \<longleftrightarrow> f \<noteq> u \<and> f \<noteq> d"
  by (simp_all add: plain_def)

lemma adds_after [simp]: "adds u d s t \<Longrightarrow> plain u d c \<Longrightarrow> adds u d s (after K c t)"
  by (rule adds_trans, assumption, rule adds_calls [of _ _ "[c]"]) (auto simp: quiet_def)

lemma adds_heard [simp]: "adds u d s t \<Longrightarrow> adds u d s (heard E c t)"
  by (rule adds_trans, assumption, rule adds_calls [of _ _ "[Msp c]"]) (auto simp: quiet_def)

definition lane_inv :: "int \<Rightarrow> int \<Rightarrow> ('c, 'w) machine \<Rightarrow> bool" where
  "lane_inv u d m \<longleftrightarrow> machine_ok m \<and> motor_inv u d m \<and> communication m = 2 \<and>
     fd (TrafficPin m) \<notin> {Some u, Some d} \<and> fd (FlashLight m) \<notin> {Some u, Some d}"

lemma lane_inv_pins: "lane_inv u d m \<Longrightarrow> pins_ok m" "lane_inv u d m \<Longrightarrow> qled_ok (Led m)"
  "lane_inv u d m \<Longrightarrow> machine_ok m" "lane_inv u d m \<Longrightarrow> communication m = 2"
  by (simp_all add: lane_inv_def machine_ok_def)

lemma lane_inv_os:
  assumes "lane_inv u d m" and "adds u d (machine_os m) s"
  shows "lane_inv u d (m\<lparr>machine_os := s\<rparr>)"
proof -
  obtain cs where cs: "calls s = calls (machine_os m) @ cs" "quiet u d cs"
    using assms(2) by (auto simp: adds_def)
  have "motor_inv u d (m\<lparr>machine_os := s\<rparr>)"
    using assms(1) cs level_silent [of _ cs] never_both_silent [of u cs d]
    by (simp add: lane_inv_def motor_inv_def quiet_def pins_ok_def)
  with assms(1) show ?thesis
    by (simp add: lane_inv_def machine_ok_updates)
qed

text \<open>The fields that no part of the invariant looks at, and the display.\<close>

lemma lane_inv_updates [simp]:
  "lane_inv u d (m\<lparr>resetTimer := b\<rparr>) = lane_inv u d m" "lane_inv u d (m\<lparr>Player := t\<rparr>) = lane_inv u d m"
  "lane_inv u d (m\<lparr>lastPlayTime := n\<rparr>) = lane_inv u d m" "lane_inv u d (m\<lparr>clock := n\<rparr>) = lane_inv u d m"
  "lane_inv u d (m\<lparr>displayingDefaultContent := b\<rparr>) = lane_inv u d m"
  "lane_inv u d (m\<lparr>IO4_manualSwitchStatus := n\<rparr>) = lane_inv u d m"
  by (simp_all add: lane_inv_def machine_ok_def motor_inv_def pins_ok_def)

lemma lane_inv_os_player: "lane_inv u d (m\<lparr>Player := t, machine_os := s\<rparr>) = lane_inv u d (m\<lparr>machine_os := s\<rparr>)"
  by (simp add: lane_inv_def machine_ok_def motor_inv_def pins_ok_def)

lemma lane_inv_led: "lane_inv u d m \<Longrightarrow> qled_ok led \<Longrightarrow> lane_inv u d (m\<lparr>Led := led\<rparr>)"
  by (simp add: lane_inv_def machine_ok_def motor_inv_def pins_ok_def)

lemma lane_inv_set_server: "lane_inv u d m \<Longrightarrow> server_ok t \<Longrightarrow> lane_inv u d (set_server k t m)"
  by (simp add: lane_inv_def machine_ok_def motor_inv_def pins_ok_def set_server_def)

lemma set_server_os [simp]: "machine_os (set_server k t m) = machine_os m"
  by (simp add: set_server_def)

section \<open>The display\<close>

lemma yields_put_frame: "qled_ok q \<Longrightarrow> cap \<le> 1024 \<Longrightarrow> yields (put_frame cap L fr t q) qled_ok"
  using put_frame_ok [of q fr cap L t] by (cases "length fr \<le> cap") (auto simp: put_frame_def qled_ok_def)

lemma yields_DisplaySpecially: "qled_ok q \<Longrightarrow> yields (DisplaySpecially L F C S data n q) (\<lambda>(_, q). qled_ok q)"
  unfolding DisplaySpecially_def by (rule yields_any, rule yields_bind [OF yields_put_frame]) auto

lemma yields_DisplayFast: "qled_ok q \<Longrightarrow> yields (DisplayFast L F C data n q) (\<lambda>(_, q). qled_ok q)"
  unfolding DisplayFast_def by (rule yields_any, rule yields_bind [OF yields_put_frame]) auto

lemma yields_DisplyShow: "qled_ok q \<Longrightarrow> yields (DisplyShow L F C S data n q) (\<lambda>(_, q). qled_ok q)"
  unfolding DisplyShow_def Let_def
  by (rule yields_any, rule yields_any) (simp add: yields_DisplayFast yields_DisplaySpecially)

lemma yields_DisplayBright: "qled_ok q \<Longrightarrow> yields (DisplayBright a b q) (\<lambda>(_, q). qled_ok q)"
  unfolding DisplayBright_def by (rule yields_bind [OF yields_put_frame]) auto

lemma yields_display_lines:
  "qled_ok led \<Longrightarrow> yields (display_lines c0 Font Colours Cmd CmdLen i row led) qled_ok"
proof (induction c0 Font Colours Cmd CmdLen i row led rule: display_lines.induct)
  case (1 c0 Font Colours Cmd CmdLen i row led)
  let ?len = "if CmdLen - i > chars_per_line c0 then chars_per_line c0 else CmdLen - i"
  show ?case
  proof (cases "i < CmdLen - start_position c0 \<and> \<not> row > line_count c0")
    case True
    show ?thesis
    proof (rule yieldsI)
      fix led'
      assume "display_lines c0 Font Colours Cmd CmdLen i row led = Inr led'"
      then obtain c r q where c: "rd Colours (nat row) = Inr c"
        and q: "DisplyShow row Font c 0x09 (drop (nat i) Cmd) ?len led = Inr (r, q)"
        and d: "display_lines c0 Font Colours Cmd CmdLen (i + chars_per_line c0) (row + 1) q = Inr led'"
        using True by (subst (asm) display_lines.simps) (auto simp: Let_def bindE_Inr_conv simp del: rd_Inr_conv split del: if_split)
      have "qled_ok q"
        using yieldsD [OF yields_DisplyShow [OF 1(2)] q] by simp
      from 1(1) [OF _ refl refl _ c q refl this] True d show "qled_ok led'"
        by (auto dest: yieldsD)
    qed
  next
    case False
    with 1(2) show ?thesis
      by (subst display_lines.simps) (auto simp: Let_def)
  qed
qed

lemma yields_show_default:
  assumes "lane_inv u d m"
  shows "yields (show_default m) (lane_inv u d)"
proof (cases "displayingDefaultContent m")
  case True
  with assms show ?thesis by (simp add: show_default_def)
next
  case False
  have "yields (foldE (\<lambda>i led. bindE (DisplyShow (int i + 1) 0 0x01 0x09 (defaultContent ! i)
      (int (length (defaultContent ! i))) led) (\<lambda>(_, led). Inr led)) [0, 1, 2, 3] (Led m)) qled_ok"
    by (rule yields_foldE, rule yields_bind [OF yields_DisplyShow]) (auto simp: lane_inv_pins(2) [OF assms])
  then show ?thesis
    unfolding show_default_def if_not_P [OF False] by (rule yields_bind) (simp add: lane_inv_led [OF assms])
qed

lemma yields_DisplayThread_round:
  assumes "qled_ok led"
  shows "yields (DisplayThread_round GetStatus Send led) qled_ok"
proof -
  obtain k where k: "ledList led = Some k" "tasks_ok k"
    using assms by (auto simp: qled_ok_def split: option.splits)
  consider "FindNode True k = Inr None" | a where "FindNode True k = Inr (Some a)" "a \<in> set (nodes k)" "status (payload (Heap k) a)"
    using FindNode_waiting [OF k(2)] by auto
  then show ?thesis
  proof cases
    case 1
    with k assms show ?thesis by (simp add: DisplayThread_round_def)
  next
    case 2
    from fetch_node_ok [OF k(2) 2(2,3)] obtain k' where
      "fetch_node a k = Inr (frame_of (payload (Heap k) a), k')" "tasks_ok k'"
      by blast
    with k 2(1) assms show ?thesis
      by (cases "comm led")
        (auto simp: DisplayThread_round_def frame_of_def qled_ok_def split_beta Let_def)
  qed
qed

section \<open>Commands\<close>

lemma rd_length: "rd buf i = Inr x \<Longrightarrow> i < length buf"
  by (simp add: rd_Inr_conv)

lemma lane_inv_motor:
  assumes "lane_inv u d m" and "motor_step P m m'" and "u \<noteq> d" and "machine_ok m'"
    and "communication m' = communication m" and "TrafficPin m' = TrafficPin m" and "FlashLight m' = FlashLight m"
  shows "lane_inv u d m'"
  using assms motor_step_inv [OF assms(2) _ assms(3)] by (simp add: lane_inv_def)

lemma after_barrier_constant:
  "communication (after_barrier K c m) = communication m" "TrafficPin (after_barrier K c m) = TrafficPin m"
  "FlashLight (after_barrier K c m) = FlashLight m"
  by (simp_all add: after_barrier_def)

lemma yields_BalusTrade:
  assumes "lane_inv u d m" and "u \<noteq> d"
  shows "yields (BalusTrade P Cmd n Oput m) (\<lambda>(_, _, m). lane_inv u d m)"
proof (rule yieldsI)
  fix x
  assume x: "BalusTrade P Cmd n Oput m = Inr x"
  obtain r O' m' where p: "x = (r, O', m')"
    by (cases x)
  have len: "1 < length Cmd"
    using x by (auto simp: BalusTrade_def Let_def res_conv)
  have m': "m' = after_barrier (kernel P) (Cmd ! 1) m"
    using x p BalusTrade_ok [OF lane_inv_pins(1) [OF assms(1)] len, of P n Oput] by simp
  have "motor_step P m m'"
    using x p len by (intro motor_step.command) simp_all
  moreover have "machine_ok m'"
    using lane_inv_pins(3) [OF assms(1)] by (simp add: m' after_barrier_fields)
  ultimately have "lane_inv u d m'"
    using assms by (intro lane_inv_motor [OF assms(1) _ assms(2)]) (simp_all add: m' after_barrier_constant)
  then show "case x of (_, _, m) \<Rightarrow> lane_inv u d m"
    by (simp add: p)
qed

lemma yields_Balustrade_Thread:
  assumes "lane_inv u d m" and "u \<noteq> d" and "balustradeThread m = Running"
  shows "yields (Balustrade_Thread P m) (lane_inv u d)"
proof (rule yieldsI)
  fix m'
  assume b: "Balustrade_Thread P m = Inr m'"
  then have "m' = m\<lparr>machine_os := motor_os (kernel P) m False False (machine_os m), balustradeThread := Finished\<rparr>"
    using Balustrade_Thread_ok [OF lane_inv_pins(1) [OF assms(1)], of P] by simp
  with assms b lane_inv_pins(3) [OF assms(1)] show "lane_inv u d m'"
    by (intro lane_inv_motor [OF assms(1) motor_step.pulse_end]) (auto simp: machine_ok_def pins_ok_def)
qed

lemma adds_pin_os: "fd g \<notin> {Some u, Some d} \<Longrightarrow> gpio_ok g \<Longrightarrow> adds u d s (pin_os K g on s)"
  by (rule adds_calls [OF calls_pin_os]) (auto simp: quiet_def pin_calls_def gpio_ok_def)

lemma yields_other_pin:
  assumes "lane_inv u d m" and "g = TrafficPin m \<or> g = FlashLight m"
  shows "yields (run_pin SetOn P g m) (lane_inv u d)" "yields (run_pin SetOff P g m) (lane_inv u d)"
proof -
  have "gpio_ok g" "fd g \<notin> {Some u, Some d}"
    using assms by (auto simp: lane_inv_def machine_ok_def pins_ok_def)
  then show "yields (run_pin SetOn P g m) (lane_inv u d)" "yields (run_pin SetOff P g m) (lane_inv u d)"
    using assms(1) by (simp_all add: run_pin_ok lane_inv_os adds_pin_os)
qed

lemma yields_TrafficControl:
  "lane_inv u d m \<Longrightarrow> yields (TrafficControl P Cmd n Oput m) (\<lambda>(_, _, m). lane_inv u d m)"
  unfolding TrafficControl_def Let_def
  by (rule yields_any) (auto intro!: yields_bind [OF yields_other_pin(1)] yields_bind [OF yields_other_pin(2)])

lemma yields_FlashLightControl:
  "lane_inv u d m \<Longrightarrow> yields (FlashLightControl P Cmd n Oput m) (\<lambda>(_, _, m). lane_inv u d m)"
  unfolding FlashLightControl_def Let_def
  by (rule yields_any) (auto intro!: yields_bind [OF yields_other_pin(1)] yields_bind [OF yields_other_pin(2)])

text \<open>The playback of a text never writes to the motor outputs; shown below for the thread's own body.\<close>

definition quiet_player :: "int \<Rightarrow> int \<Rightarrow> ('w, 'cd) platform \<Rightarrow> bool" where
  "quiet_player u d P \<longleftrightarrow> (\<forall>txt s. yields (compound_of P txt s) (adds u d s))"

lemma adds_find_process_kill: "adds u d s t \<Longrightarrow> adds u d s (find_process_kill K p t)"
  by (simp add: find_process_kill_def Let_def split_beta)

lemma yields_speech_playback:
  assumes "\<And>txt s. yields (body txt s) (adds u d s)"
  shows "yields (speech_playback K io ic body ty n txt len t s) (\<lambda>(_, s'). adds u d s s')"
proof -
  have "yields (join_player body t s) (adds u d s)"
    unfolding join_player_def using assms by simp
  then have j: "yields (if joinable (m_thread t) then bindE (join_player body t s) (\<lambda>s. Inr (find_process_kill K ''aplay'' s))
      else Inr s) (adds u d s)"
    by (auto intro!: yields_if yields_bind simp: adds_find_process_kill)
  show ?thesis
    unfolding speech_playback_def Let_def by (rule yields_any, rule yields_bind [OF j]) simp
qed

lemma yields_DisplayVoice:
  assumes "lane_inv u d m" and "quiet_player u d P"
  shows "yields (DisplayVoice P Cmd n Oput m) (\<lambda>(_, _, m). lane_inv u d m)"
proof -
  have b: "yields (compound_of P tx s) (adds u d s)" for tx s
    using assms(2) by (simp add: quiet_player_def)
  show ?thesis
    unfolding DisplayVoice_def Let_def
    by (rule yields_any, rule yields_any, rule yields_bind [OF yields_speech_playback [OF b]])
      (auto intro: lane_inv_os [OF assms(1)] simp: lane_inv_os_player)
qed

lemma yields_DisplayControl:
  assumes "lane_inv u d m"
  shows "yields (DisplayControl Cmd n Oput m) (\<lambda>(_, _, m). lane_inv u d m)"
proof -
  have led: "yields (bindE (display_lines c0 F C Cmd n i 1 (Led m)) (\<lambda>led. bindE (DisplayBright 0x02 b led)
      (\<lambda>(_, led). Inr (4 :: int, O', m1\<lparr>Led := led\<rparr>)))) (\<lambda>(_, _, m). lane_inv u d m)"
    if "lane_inv u d m1" for c0 F C i b O' and m1
    by (rule yields_bind [OF yields_display_lines], rule lane_inv_pins(2) [OF assms], rule yields_bind [OF yields_DisplayBright])
      (auto intro: lane_inv_led [OF that])
  show ?thesis
    unfolding DisplayControl_def Let_def machine.select_convs
  proof (rule yields_any, rule yields_if, goal_cases)
    case (1 c0)
    with assms show ?case by simp
  next
    case (2 c0)
    from assms show ?case
      by (intro yields_any [where f = "\<lambda>b. bindE (line_colours c0 Cmd) (F b)" for F] yields_any [where r = "line_colours c0 Cmd"])
        (simp add: led)
  qed
qed

lemma yields_server_write:
  assumes "lane_inv u d m"
  shows "yields (server_write P fr t m) (lane_inv u d)"
proof (cases t)
  case (Some t')
  have "yields (WriteByte (kernel P) fr t' (machine_os m)) (\<lambda>(_, s). adds u d (machine_os m) s)"
    by (auto simp: WriteByte_def split: option.split)
  then show ?thesis
    using assms Some by (auto simp: server_write_def lane_inv_os elim!: yields_bind)
qed (simp add: server_write_def)

lemma yields_CommunicationSend:
  assumes "lane_inv u d m"
  shows "yields (CommunicationSend P seq ty Cmd n coil ip m) (\<lambda>(_, m). lane_inv u d m)"
  unfolding CommunicationSend_def
  by (rule yields_any) (auto intro!: yields_bind [OF yields_server_write] simp: assms)

lemma yields_reply:
  assumes "lane_inv u d m"
  shows "yields (reply P seq ty res ip m) (lane_inv u d)"
  unfolding reply_def
  by (auto intro!: yields_bind [OF yields_CommunicationSend] simp: assms split: option.split)

lemma yields_checked:
  "Q (Oput, m) \<Longrightarrow> yields (handler ()) (\<lambda>(_, O', m). Q (O', m)) \<Longrightarrow> yields (checked Cmd n handler Oput m) Q"
  unfolding checked_def by (rule yields_any) (auto elim!: yields_bind)

lemma yields_Analysis:
  fixes m :: "('c, 'w) machine" and P :: "('w, 'cd) platform"
  assumes "lane_inv u d m" and "u \<noteq> d" and "quiet_player u d P"
  shows "yields (Analysis P Cmd n Oput m) (\<lambda>(_, _, m). lane_inv u d m)"
proof -
  let ?Q = "\<lambda>(_ :: byte list, m :: ('c, 'w) machine). lane_inv u d m"
  have fin: "yields (bindE r (\<lambda>(Oput, m). Inr (4 :: int, Oput, m\<lparr>resetTimer := True\<rparr>))) (\<lambda>(_, _, m). lane_inv u d m)"
    if "yields r ?Q" for r
    using that by (auto elim!: yields_bind)
  have fin3: "yields (bindE r (\<lambda>(_ :: int, Oput, m). Inr (4 :: int, Oput, m\<lparr>resetTimer := True\<rparr>))) (\<lambda>(_, _, m). lane_inv u d m)"
    if "yields r (\<lambda>(_, _, m). lane_inv u d m)" for r
    using that by (auto elim!: yields_bind)
  have c: "yields (checked Cmd n (\<lambda>_. h) Oput m) ?Q" if "yields h (\<lambda>(_, _, m). lane_inv u d m)" for h
    using that assms(1) by (intro yields_checked) auto
  note handlers = yields_FlashLightControl [OF assms(1)] yields_DisplayVoice [OF assms(1,3)] yields_DisplayControl [OF assms(1)]
    yields_BalusTrade [OF assms(1,2)] yields_TrafficControl [OF assms(1)]
  show ?thesis
  proof (cases "n < 1")
    case True
    with assms(1) show ?thesis by (simp add: Analysis_def)
  next
    case False
    show ?thesis
      unfolding Analysis_def Let_def if_not_P [OF False]
      by (rule yields_any, rule yields_any, rule yields_any, rule yields_any, rule yields_if, rule yields_any)
        (simp_all add: assms(1) fin fin3 c handlers)
  qed
qed

lemma yields_CommunicationAnalysis:
  assumes "lane_inv u d m" and "u \<noteq> d" and "quiet_player u d P"
  shows "yields (CommunicationAnalysis P Cmd n ip m) (lane_inv u d)"
proof -
  have r: "yields (bindE (Analysis P C l R m) (\<lambda>(_, R, m). reply P seq ty R ip m)) (lane_inv u d)" for C l R seq ty
    by (rule yields_bind [OF yields_Analysis [OF assms]]) (auto intro: yields_reply)
  have m: "yields (bindE (if mode_matches ip m then Analysis P C l R m else Inr (0, R, m)) (\<lambda>(_, R, m). reply P seq ty R ip m))
      (lane_inv u d)" for C l R seq ty
    using r yields_reply [OF assms(1)] by (cases "mode_matches ip m") simp_all
  have a: "yields (bindE (rd Cmd 13) (\<lambda>c13. if c13 \<in> {0x44, 0x64, 0x53}
      then bindE (Analysis P (drop 9 Cmd) l R m) (\<lambda>(_, R, m). reply P seq (Some 0xD4) R ip m)
      else if c13 = 0x07 then bindE (Analysis P (drop 9 Cmd) l R m) (\<lambda>(_, R, m). reply P seq (Some 0xDF) R ip m)
      else Inr m)) (lane_inv u d)" for l R seq
    by (rule yields_any, intro yields_if r) (simp add: assms(1))
  show ?thesis
    unfolding CommunicationAnalysis_def Let_def
    by (rule yields_any, rule yields_any, intro yields_if a m) (simp_all add: assms(1) yields_reply)
qed

section \<open>Turns of the threads\<close>

definition keeps_state :: "('s \<Rightarrow> bool) \<Rightarrow> (byte list \<Rightarrow> int \<Rightarrow> 's \<Rightarrow> 's res) \<Rightarrow> bool" where
  "keeps_state I deliver \<longleftrightarrow> (\<forall>buf n s. I s \<longrightarrow> yields (deliver buf n s) I)"

lemma yields_frame_pass:
  assumes "keeps_state I deliver" and "I s"
  shows "yields (frame_pass deliver r s) (\<lambda>(_, _, s). I s)"
proof -
  have c: "yields (check_frame deliver L r s) (\<lambda>(_, _, s). I s)" for L r
  proof -
    have "yields (deliver b n s) I" for b n
      using assms by (simp add: keeps_state_def)
    then have d: "yields (bindE (deliver b n s) (\<lambda>s. bindE (next_frame r) (\<lambda>(again, r). Inr (again, r, s)))) (\<lambda>(_, _, s). I s)" for b n
      by (rule yields_bind) (auto intro!: yields_any)
    show ?thesis
      unfolding check_frame_def
      by (rule yields_any) (simp add: d assms(2) split: prod.split bool.split)
  qed
  have m: "yields (measure_frame deliver i r s) (\<lambda>(_, _, s). I s)" for i r
    unfolding measure_frame_def Let_def by (rule yields_any) (simp add: c assms(2) split: option.split)
  show ?thesis
    unfolding frame_pass_def by (simp add: m assms(2) Let_def split: prod.split)
qed

lemma yields_find_frame:
  "keeps_state I deliver \<Longrightarrow> I s \<Longrightarrow> yields (find_frame deliver r s) (\<lambda>(_, s). I s)"
proof (induction deliver r s rule: find_frame.induct)
  case (1 deliver r s)
  show ?case
  proof (rule yieldsI)
    fix x
    assume x: "find_frame deliver r s = Inr x"
    then obtain again r1 s1 where p: "frame_pass deliver r s = Inr (again, r1, s1)"
      and y: "(if again then find_frame deliver r1 s1 else Inr (r1, s1)) = Inr x"
      by (subst (asm) find_frame.simps) (auto simp: bindE_Inr_conv)
    have "I s1"
      using yieldsD [OF yields_frame_pass [OF 1(2,3)] p] by simp
    with 1(1) [OF p refl refl _ 1(2)] y show "case x of (_, s) \<Rightarrow> I s"
      by (auto split: if_splits dest: yieldsD)
  qed
qed

lemma yields_recv_chunk:
  "keeps_state I deliver \<Longrightarrow> I s \<Longrightarrow> yields (recv_chunk deliver chunk r s) (\<lambda>(_, s). I s)"
  unfolding recv_chunk_def Let_def by (rule yields_any) (simp add: yields_find_frame)

lemma keeps_handle_frame:
  "u \<noteq> d \<Longrightarrow> quiet_player u d P \<Longrightarrow> keeps_state (lane_inv u d) (handle_frame k P)"
  by (simp add: keeps_state_def handle_frame_def yields_CommunicationAnalysis)

lemma yields_receive_read:
  assumes "lane_inv u d m"
  shows "yields (receive_read k P m) (\<lambda>(_, m). lane_inv u d m)"
proof (cases "server_of k m")
  case None
  with lane_inv_pins(4) [OF assms] show ?thesis by (simp add: receive_read_def)
next
  case (Some t)
  have ok: "server_ok (t\<lparr>connected := False\<rparr>)"
    by (simp add: server_ok_def)
  have cl: "lane_inv u d ((set_server k (t\<lparr>connected := False\<rparr>) m)\<lparr>machine_os := s\<rparr>)" if "adds u d (machine_os m) s" for s
    using lane_inv_os [OF lane_inv_set_server [OF assms ok, of k], of s] that by simp
  show ?thesis
    using lane_inv_pins(4) [OF assms] Some assms
    by (cases "newfd t")
      (auto simp: receive_read_def RecvByte_def TcpServer_Close_def split_beta Let_def cl lane_inv_os intro!: yields_any)
qed

lemma yields_receive_loop:
  fixes m :: "('c, 'w) machine" and P :: "('w, 'cd) platform"
  assumes "u \<noteq> d" and "quiet_player u d P"
  shows "lane_inv u d m \<Longrightarrow> yields (receive_loop n k P (r, m)) (\<lambda>(_, _, m). lane_inv u d m)"
proof (induction n arbitrary: r m)
  case 0
  then show ?case by simp
next
  case (Suc n)
  show ?case
    unfolding receive_loop.simps
  proof (rule yields_bind [OF yields_receive_read [OF Suc.prems]], clarify)
    fix c and m1 :: "('c, 'w) machine"
    assume m1: "lane_inv u d m1"
    show "yields (case c of None \<Rightarrow> Inr (True, r, m1)
      | Some chunk \<Rightarrow> bindE (recv_chunk (handle_frame k P) chunk r m1) (receive_loop n k P)) (\<lambda>(_, _, m). lane_inv u d m)"
      using m1 yields_bind [OF yields_recv_chunk [OF keeps_handle_frame [OF assms, of k] m1, of "the c" r],
          where f = "receive_loop n k P"] Suc.IH
      by (cases c) auto
  qed
qed

lemma adds_read_pin: "gpio_ok g \<Longrightarrow> lane_inv u d m \<Longrightarrow> yields (read_pin P g m) (\<lambda>(_, m). lane_inv u d m)"
  using GetIOValue_total [of g "kernel P" "machine_os m"]
  by (auto simp: read_pin_def intro!: lane_inv_os adds_calls simp: quiet_def)

lemma yields_read_inputs:
  assumes "lane_inv u d m"
  shows "yields (read_inputs P m) (\<lambda>(_, _, _, _, m). lane_inv u d m)"
proof -
  obtain n1 n2 n3 ms s where "read_inputs P m = Inr (n1, n2, n3, ms, m\<lparr>machine_os := s\<rparr>)"
    and c: "calls s = calls (machine_os m) @ input_calls m"
    using read_inputs_total [OF lane_inv_pins(1) [OF assms], of P] by (elim exE conjE) (rule that)
  moreover have "quiet u d (input_calls m)"
    by (simp add: quiet_def input_calls_def read_calls_def)
  ultimately show ?thesis
    using lane_inv_os [OF assms adds_calls [OF c]] by simp
qed

lemma yields_coil_step:
  "lane_inv u d (snd x) \<Longrightarrow> yields (coil_step P i x) (\<lambda>x. lane_inv u d (snd x))"
  by (auto simp: coil_step_def send_coil_def split_beta Let_def intro!: yields_bind [OF yields_CommunicationSend])

lemma yields_vehicle_round:
  assumes "lane_inv u d m"
  shows "yields (vehicle_round P (v, m)) (\<lambda>x. lane_inv u d (snd x))"
proof -
  have f: "yields (foldE (coil_step P) xs x) (\<lambda>x. lane_inv u d (snd x))" if "lane_inv u d (snd x)" for xs x
    using that by (intro yields_foldE yields_coil_step)
  show ?thesis
    unfolding vehicle_round_def Let_def split
    by (rule yields_any, rule yields_any, rule yields_if, rule yields_bind [OF yields_read_inputs [OF assms]])
      (auto intro!: f simp: assms simp del: foldE.simps)
qed

lemma yields_HeartThread_round:
  assumes "lane_inv u d m"
  shows "yields (HeartThread_round P m) (lane_inv u d)"
  unfolding HeartThread_round_def
  by (rule yields_any, rule yields_any, rule yields_if)
    (auto intro!: yields_bind [OF yields_CommunicationSend] simp: assms)

lemma yields_Accept:
  assumes "server_ok t"
  shows "yields (AcceptThread_round K t s) (\<lambda>(_, t', s'). server_ok t' \<and> adds u d s s')"
  using assms
  by (auto simp: AcceptThread_round_def TcpServer_Accept_def TcpServer_Close_def server_ok_def split_beta Let_def split: option.split)

section \<open>The player's own body is quiet\<close>

lemma yields_audio_loop:
  "adds u d s0 s \<Longrightarrow> yields (audio_loop n K E p sid fp r h s) (\<lambda>(_, _, s'). adds u d s0 s')"
proof (induction n arbitrary: r h s)
  case 0
  then show ?case by simp
next
  case (Suc n)
  show ?case
  proof (cases p)
    case True
    have "adds u d s0 (turn_os K E sid fp s)" "adds u d s0 (heard E (Audio_get sid) s)"
      using Suc.prems by (auto simp: turn_os_def split: option.split)
    then show ?thesis
      using Suc.IH True by (auto simp: audio_loop_Suc Let_def)
  qed (use Suc.prems in \<open>simp add: audio_loop.simps(2)\<close>)
qed

lemma yields_text_to_speech:
  assumes "adds u d s0 s"
  shows "yields (text_to_speech n K E p (Some tx) (Some path) pars s) (\<lambda>(_, s'). adds u d s0 s')"
proof -
  have f: "adds u d s0 (snd (finish_file K E sid fp h t))" if "adds u d s0 t" for sid fp h t
    using that by (simp add: finish_file_def do_msp_pair Let_def)
  show ?thesis
    unfolding text_to_speech_eq Let_def
    using assms
    by (auto intro!: yields_bind [OF yields_audio_loop [of u d s0]] simp: split_beta f)
qed

lemma playback_body_quiet: "yields (playback_body n K E tx s) (adds u d s)"
proof -
  have "yields (compound n K E True tx s) (\<lambda>(_, s'). adds u d s s')"
    unfolding compound_eq Let_def
    by (auto intro!: yields_bind [OF yields_text_to_speech [of u d s]])
  then show ?thesis
    unfolding playback_body_eq by (rule yields_bind) auto
qed

section \<open>All interleavings\<close>

record ('c, 'w) lane =
  shared :: "('c, 'w) machine"
  detector :: vehicle
  parser1 :: rx
  parser2 :: rx

text \<open>
  A step is one whole turn of one thread, a handler's wait for the end of the barrier's pulse or of the playback included
  (theories \<open>Barrier\<close> and \<open>Interleaving\<close> cut the barrier command and the posting of a frame into the steps that can
  really interleave). A turn whose behaviour is undefined, or that never returns, is no step: nothing is said of a run after
  it. \<open>display_start\<close> is \<open>ListTaskInit\<close>, the first act of the display thread; here it comes before anything is posted
  (theory \<open>Interleaving\<close> has the other order). \<open>show_default\<close> is a step at any time, since the thread decides before it takes the lock. \<open>restart\<close> is the
  start of \<open>ReceiveCmd1\<close> or \<open>ReceiveCmd2\<close> on a new connection. \<open>tick\<close> is the passing of time.
\<close>

inductive lane_step ::
  "('w, 'cd) platform \<Rightarrow> ('c \<Rightarrow> bool) \<Rightarrow> (byte list \<Rightarrow> 'c \<Rightarrow> int \<times> 'c) \<Rightarrow> ('c, 'w) lane \<Rightarrow> ('c, 'w) lane \<Rightarrow> bool"
  for P GetStatus Send where
  receive1: "receive_loop 1 1 P (parser1 l, shared l) = Inr (stop, r, m) \<Longrightarrow>
    lane_step P GetStatus Send l (l\<lparr>shared := m, parser1 := r\<rparr>)"
| receive2: "receive_loop 1 2 P (parser2 l, shared l) = Inr (stop, r, m) \<Longrightarrow>
    lane_step P GetStatus Send l (l\<lparr>shared := m, parser2 := r\<rparr>)"
| restart1: "lane_step P GetStatus Send l (l\<lparr>parser1 := rx_start junk\<rparr>)"
| restart2: "lane_step P GetStatus Send l (l\<lparr>parser2 := rx_start junk\<rparr>)"
| accept: "server_of k (shared l) = Some t \<Longrightarrow> AcceptThread_round (kernel P) t (machine_os (shared l)) = Inr (pause, t', s) \<Longrightarrow>
    lane_step P GetStatus Send l (l\<lparr>shared := (set_server k t' (shared l))\<lparr>machine_os := s\<rparr>\<rparr>)"
| detect: "vehicle_round P (detector l, shared l) = Inr (v, m) \<Longrightarrow>
    lane_step P GetStatus Send l (l\<lparr>shared := m, detector := v\<rparr>)"
| heartbeat: "HeartThread_round P (shared l) = Inr m \<Longrightarrow> lane_step P GetStatus Send l (l\<lparr>shared := m\<rparr>)"
| default_text: "show_default (shared l) = Inr m \<Longrightarrow> lane_step P GetStatus Send l (l\<lparr>shared := m\<rparr>)"
| timer: "lane_step P GetStatus Send l (l\<lparr>shared := UpdateTimer (shared l)\<rparr>)"
| tick: "lane_step P GetStatus Send l (l\<lparr>shared := (shared l)\<lparr>clock := n\<rparr>\<rparr>)"
| display_start: "ledList (Led (shared l)) = Some k \<Longrightarrow> contents k = [] \<Longrightarrow> ListTaskInit k = Inr k' \<Longrightarrow>
    lane_step P GetStatus Send l (l\<lparr>shared := (shared l)\<lparr>Led := (Led (shared l))\<lparr>ledList := Some k'\<rparr>\<rparr>\<rparr>)"
| display: "DisplayThread_round GetStatus Send (Led (shared l)) = Inr led \<Longrightarrow>
    lane_step P GetStatus Send l (l\<lparr>shared := (shared l)\<lparr>Led := led\<rparr>\<rparr>)"
| pulse_end: "balustradeThread (shared l) = Running \<Longrightarrow> Balustrade_Thread P (shared l) = Inr m \<Longrightarrow>
    lane_step P GetStatus Send l (l\<lparr>shared := m\<rparr>)"

lemma lane_step_inv:
  assumes "lane_step P GetStatus Send l l'" and "lane_inv u d (shared l)" and "u \<noteq> d" and "quiet_player u d P"
  shows "lane_inv u d (shared l')"
  using assms(1)
proof cases
  case (receive1 stop r m)
  with yieldsD [OF yields_receive_loop [OF assms(3,4,2)] receive1(2)] show ?thesis by simp
next
  case (receive2 stop r m)
  with yieldsD [OF yields_receive_loop [OF assms(3,4,2)] receive2(2)] show ?thesis by simp
next
  case (accept k t pause t' s)
  have "server_ok t"
    using accept(2) assms(2) by (auto simp: lane_inv_def machine_ok_def server_of_def split: if_splits option.splits)
  then have "server_ok t'" "adds u d (machine_os (shared l)) s"
    using yieldsD [OF yields_Accept accept(3)] by auto
  then show ?thesis
    using lane_inv_os [OF lane_inv_set_server [OF assms(2)], of t' k s] by (simp add: accept(1))
next
  case (detect v m)
  with yieldsD [OF yields_vehicle_round [OF assms(2)] detect(2)] show ?thesis by simp
next
  case (heartbeat m)
  with yieldsD [OF yields_HeartThread_round [OF assms(2)] heartbeat(2)] show ?thesis by simp
next
  case (default_text m)
  with yieldsD [OF yields_show_default [OF assms(2)] default_text(2)] show ?thesis by simp
next
  case (display_start k k')
  have q: "qled_ok (Led (shared l))"
    using lane_inv_pins(2) [OF assms(2)] .
  then have "tasks_ok k"
    using display_start(2) by (simp add: qled_ok_def)
  then have "tasks_ok k'"
    using display_start(3,4) by (rule ListTaskInit_tasks)
  then have "qled_ok ((Led (shared l))\<lparr>ledList := Some k'\<rparr>)"
    using q by (simp add: qled_ok_def)
  then show ?thesis
    by (simp add: display_start(1) lane_inv_led [OF assms(2)])
next
  case (display led)
  with yieldsD [OF yields_DisplayThread_round [OF lane_inv_pins(2) [OF assms(2)]] display(2)] show ?thesis
    by (simp add: lane_inv_led [OF assms(2)])
next
  case (pulse_end m)
  with yieldsD [OF yields_Balustrade_Thread [OF assms(2,3) pulse_end(2)] pulse_end(3)] show ?thesis by simp
qed (use assms(2) in \<open>simp_all add: UpdateTimer_def\<close>)

lemma lane_steps_inv:
  "(lane_step P GetStatus Send)\<^sup>*\<^sup>* l l' \<Longrightarrow> lane_inv u d (shared l) \<Longrightarrow> u \<noteq> d \<Longrightarrow> quiet_player u d P \<Longrightarrow>
   lane_inv u d (shared l')"
  by (induction rule: rtranclp_induct) (auto intro: lane_step_inv)

section \<open>Turns that never fault\<close>

lemma foldE_total:
  "(\<And>x s. x \<in> set xs \<Longrightarrow> I s \<Longrightarrow> \<exists>s'. f x s = Inr s' \<and> I s') \<Longrightarrow> I s \<Longrightarrow> \<exists>s'. foldE f xs s = Inr s' \<and> I s'"
proof (induction xs arbitrary: s)
  case (Cons x xs)
  then obtain s1 where "f x s = Inr s1" "I s1"
    by fastforce
  with Cons show ?case by auto
qed simp

lemma DisplyShow_total:
  assumes "qled_ok q" and "length data < 128"
  shows "\<exists>q'. DisplyShow L F C S data (int (length data)) q = Inr (False, q') \<and> qled_ok q'"
proof (cases "DisplayMode q = 0")
  case True
  have "wr_block (replicate 128 0) 0 data = Inr (data @ replicate (128 - length data) 0)"
    using assms(2) by (simp add: wr_block_def)
  moreover have "take_data data (int (length data)) = Inr data"
    using take_data_ok [of data "[]"] by simp
  ultimately have "DisplyShow L F C S data (int (length data)) q = DisplayFast L F C data (int (length data)) q"
    using True assms(2) by (simp add: DisplyShow_def Let_def)
  then show ?thesis
    using DisplayFast_posts [OF assms(1), of data L F C "[]"] assms(2)
    by (auto simp: posts_def split: sum.splits prod.splits)
next
  case False
  then show ?thesis
    using DisplyShow_posts [OF assms(1) False assms(2), of L F C S "[]"]
    by (auto simp: posts_def split: sum.splits prod.splits)
qed

lemma show_default_total:
  assumes "qled_ok (Led m)"
  shows "\<exists>m'. show_default m = Inr m'"
proof -
  let ?f = "\<lambda>i led. bindE (DisplyShow (int i + 1) 0 0x01 0x09 (defaultContent ! i)
      (int (length (defaultContent ! i))) led) (\<lambda>(_, led). Inr led)"
  have "\<exists>q'. ?f i q = Inr q' \<and> qled_ok q'" if "i \<in> set [0, 1, 2, 3]" "qled_ok q" for i and q :: "'a qled"
  proof -
    have "length (defaultContent ! i) < 128"
      using that(1) by (auto simp: defaultContent_def)
    from DisplyShow_total [OF that(2) this, of "int i + 1" 0 "0x01" "0x09"] show ?thesis
      by auto
  qed
  from foldE_total [where f = ?f and I = qled_ok and xs = "[0, 1, 2, 3]", OF this assms] obtain q where
    "foldE ?f [0, 1, 2, 3] (Led m) = Inr q"
    by blast
  then show ?thesis
    by (simp add: show_default_def del: foldE.simps)
qed

lemma CommunicationSend_total:
  assumes "machine_ok m" and "known_client ip m" and "send_frame seq ty Cmd n = Inr fr"
  shows "\<exists>s. CommunicationSend P seq ty Cmd n coil ip m = Inr (None, m\<lparr>machine_os := s\<rparr>)"
  using CommunicationSend_ok [OF assms] by blast

lemma HeartThread_round_total:
  assumes "machine_ok m"
  shows "\<exists>m'. HeartThread_round P m = Inr m'"
proof -
  obtain s1 where 1: "CommunicationSend P 0x90 0xB0 [] 0 0 (Client1 m) m = Inr (None, m\<lparr>machine_os := s1\<rparr>)"
    using CommunicationSend_total [OF assms _ send_frame_heartbeat, where P = P and ip = "Client1 m" and coil = 0 and seq = "0x90" and Cmd = "[]" and n = 0] by (auto simp: known_client_def)
  have ok: "machine_ok (m\<lparr>machine_os := s1\<rparr>)"
    using assms by (simp add: machine_ok_updates)
  obtain s2 where 2: "CommunicationSend P 0x90 0xB0 [] 0 0 (Client2 m) (m\<lparr>machine_os := s1\<rparr>) = Inr (None, m\<lparr>machine_os := s2\<rparr>)"
    using CommunicationSend_total [OF ok _ send_frame_heartbeat, where P = P and ip = "Client2 m" and coil = 0 and seq = "0x90" and Cmd = "[]" and n = 0] by (auto simp: known_client_def)
  show ?thesis
    unfolding HeartThread_round_def any_open_test [OF assms] using 1 2 by simp
qed

lemma next_seq_bound: "unat n < 90 \<Longrightarrow> unat (next_seq n) < 90"
  using seq_iterate [of n 1] by simp

lemma coil_status_shape: "\<exists>y. coil_status new [0xDC, 0, x] = [0xDC, 0, y]"
  by (simp add: coil_status_def)

lemma send_coil_total:
  assumes "machine_ok m" and "length (coilOput v) = 3"
  shows "\<exists>m'. send_coil P v m = Inr (v, m') \<and> machine_ok m'"
proof (cases "manualSwitchStatus v \<in> {0, 1}")
  case True
  with send_coil_ok [OF assms(1) True assms(2), of P] assms(1) show ?thesis
    by (auto simp: machine_ok_updates)
next
  case False
  with assms(1) show ?thesis by (simp add: send_coil_def)
qed

definition detector_ok :: "vehicle \<times> ('c, 'w) machine \<Rightarrow> bool" where
  "detector_ok x \<longleftrightarrow> vehicle_ok (fst x) \<and> machine_ok (snd x)"

lemma coil_step_total:
  assumes "detector_ok x"
  shows "\<exists>x'. coil_step P i x = Inr x' \<and> detector_ok x'"
proof -
  obtain v m where x: "x = (v, m)" "vehicle_ok v" "machine_ok m"
    using assms by (cases x) (auto simp: detector_ok_def)
  then obtain b where b: "coilOput v = [0xDC, 0, b]"
    by (auto simp: vehicle_ok_def)
  have send: "\<exists>x'. send_coil P v' m = Inr x' \<and> detector_ok x'" if "vehicle_ok v'" for v'
  proof -
    have "length (coilOput v') = 3"
      using that by (auto simp: vehicle_ok_def)
    from send_coil_total [OF x(3) this, of P] that show ?thesis
      by (auto simp: detector_ok_def)
  qed
  have "vehicle_ok (v\<lparr>coilOput := coil_status (newIOStatus v) (coilOput v),
      oldIOStatus := (oldIOStatus v)[i := newIOStatus v ! i], TxSEQ := next_seq (TxSEQ v)\<rparr>)"
    using x(2) coil_status_shape [of "newIOStatus v" b] next_seq_bound by (auto simp: vehicle_ok_def b)
  moreover have "vehicle_ok (v\<lparr>ManualSwitchStatusOld := manualSwitchStatus v\<rparr>)"
    using x(2) by (simp add: vehicle_ok_def)
  ultimately show ?thesis
    using send x assms by (simp add: coil_step_def Let_def)
qed

lemma vehicle_round_total:
  assumes "machine_ok m" and "vehicle_ok v"
  shows "\<exists>v' m'. vehicle_round P (v, m) = Inr (v', m') \<and> vehicle_ok v'"
proof (cases "any_open m")
  case False
  have "vehicle_round P (v, m) = Inr (v\<lparr>oldIOStatus := replicate 8 (-1) @ drop 8 (oldIOStatus v)\<rparr>, m)"
    unfolding vehicle_round_def Let_def split any_open_test [OF assms(1)] by (simp add: False)
  with assms(2) show ?thesis
    by (simp add: vehicle_ok_def)
next
  case True
  obtain n1 n2 n3 ms s where r: "read_inputs P m = Inr (n1, n2, n3, ms, m\<lparr>machine_os := s\<rparr>)"
    using read_inputs_total [of m P] assms(1) unfolding machine_ok_def by (elim exE conjE) metis
  let ?x = "(v\<lparr>newIOStatus := (newIOStatus v)[1 := n1, 2 := n2, 3 := n3], manualSwitchStatus := ms\<rparr>,
    m\<lparr>machine_os := s, IO4_manualSwitchStatus := ms\<rparr>)"
  have "detector_ok ?x"
    using assms by (simp add: detector_ok_def vehicle_ok_def machine_ok_def pins_ok_def)
  then obtain x' where "foldE (coil_step P) [1, 2, 3] ?x = Inr x'" "detector_ok x'"
    using foldE_total [where f = "coil_step P" and I = detector_ok and xs = "[1, 2, 3]"] coil_step_total by metis
  then show ?thesis
    unfolding vehicle_round_def Let_def split any_open_test [OF assms(1)]
    using True r by (cases x') (simp add: detector_ok_def del: foldE.simps)
qed

lemma DisplayThread_round_total:
  assumes "qled_ok led" and "comm led \<noteq> None"
  shows "\<exists>led'. DisplayThread_round GetStatus Send led = Inr led'"
proof -
  obtain k where k: "ledList led = Some k" "tasks_ok k"
    using assms by (auto simp: qled_ok_def split: option.splits)
  consider "FindNode True k = Inr None" | a where "FindNode True k = Inr (Some a)" "a \<in> set (nodes k)" "status (payload (Heap k) a)"
    using FindNode_waiting [OF k(2)] by auto
  then show ?thesis
  proof cases
    case 2
    from fetch_node_ok [OF k(2) 2(2,3)] obtain k' where "fetch_node a k = Inr (frame_of (payload (Heap k) a), k')"
      by blast
    with k 2(1) assms(2) show ?thesis
      by (auto simp: DisplayThread_round_def frame_of_def split_beta Let_def)
  qed (use k in \<open>simp add: DisplayThread_round_def\<close>)
qed

lemma lane_step_vehicle:
  assumes "lane_step P GetStatus Send l l'" and "machine_ok (shared l)" and "vehicle_ok (detector l)"
  shows "vehicle_ok (detector l')"
  using assms(1)
proof cases
  case (detect v m)
  with vehicle_round_total [OF assms(2,3), of P] show ?thesis by auto
qed (use assms(3) in simp_all)

lemma lane_steps_vehicle:
  "(lane_step P GetStatus Send)\<^sup>*\<^sup>* l l' \<Longrightarrow> lane_inv u d (shared l) \<and> vehicle_ok (detector l) \<Longrightarrow> u \<noteq> d \<Longrightarrow>
   quiet_player u d P \<Longrightarrow> lane_inv u d (shared l') \<and> vehicle_ok (detector l')"
  by (induction rule: rtranclp_induct) (auto intro: lane_step_inv lane_step_vehicle lane_inv_pins)

section \<open>Properties\<close>

text \<open>
  The whole controller, in every interleaving of the turns of its threads (both connections, accepted
  clients, detector, heartbeat, default text, clock, display thread, end of the barrier pulse), each turn taken as one step, and whatever
  the kernel answers: from a state as the start leaves it, every reachable state has its devices, its
  display list and its servers in order, the two outputs of the barrier's motor were at no moment both asked to be
  on, and while no pulse is running both were last asked to be off.
\<close>

theorem all_interleavings_safe:
  assumes "(lane_step P GetStatus Send)\<^sup>*\<^sup>* l l'" and "lane_inv u d (shared l)" and "u \<noteq> d" and "quiet_player u d P"
  shows "machine_ok (shared l') \<and> never_both u d (calls (machine_os (shared l'))) \<and>
    (balustradeThread (shared l') \<noteq> Running \<longrightarrow>
       \<not> level u (calls (machine_os (shared l'))) \<and> \<not> level d (calls (machine_os (shared l'))))"
  using lane_steps_inv [OF assms] by (simp add: lane_inv_def motor_inv_def)

text \<open>
  In every state reachable from a sound one, each round of the
  detector thread, the heartbeat thread, the default text and the barrier thread returns, so does the display
  thread's while its device is open, and so does accepting a client on a listening server. This takes
  reaching the end of \<open>CommunicationSend\<close> without a value, which C++ leaves undefined, as returning: the
  callers do not use the value.
\<close>

theorem background_turns_never_fault:
  assumes "(lane_step P GetStatus Send)\<^sup>*\<^sup>* l l'" and "lane_inv u d (shared l)" and "vehicle_ok (detector l)"
    and "u \<noteq> d" and "quiet_player u d P"
  shows "(\<exists>x. vehicle_round P (detector l', shared l') = Inr x) \<and> (\<exists>m. HeartThread_round P (shared l') = Inr m) \<and>
    (\<exists>m. show_default (shared l') = Inr m) \<and> (\<exists>m. Balustrade_Thread P (shared l') = Inr m) \<and>
    (comm (Led (shared l')) \<noteq> None \<longrightarrow> (\<exists>led. DisplayThread_round GetStatus Send (Led (shared l')) = Inr led)) \<and>
    (\<forall>k t. server_of k (shared l') = Some t \<and> sockfd t \<noteq> None \<longrightarrow>
       (\<exists>x. AcceptThread_round (kernel P) t (machine_os (shared l')) = Inr x))"
proof -
  have i: "lane_inv u d (shared l')" and v: "vehicle_ok (detector l')"
    using lane_steps_vehicle [OF assms(1) conjI [OF assms(2,3)] assms(4,5)] by blast+
  have "server_ok t" if "server_of k (shared l') = Some t" for k t
    using that lane_inv_pins(3) [OF i] by (auto simp: machine_ok_def server_of_def split: if_splits option.splits)
  then have "\<exists>x. AcceptThread_round (kernel P) t (machine_os (shared l')) = Inr x"
    if "server_of k (shared l') = Some t" "sockfd t \<noteq> None" for k t
    using that by (fastforce simp: AcceptThread_round_def TcpServer_Accept_def TcpServer_Close_def server_ok_def split_beta Let_def)
  then show ?thesis
    using vehicle_round_total [OF lane_inv_pins(3) [OF i] v, of P] HeartThread_round_total [OF lane_inv_pins(3) [OF i], of P]
      show_default_total [OF lane_inv_pins(2) [OF i]] Balustrade_Thread_ok [OF lane_inv_pins(1) [OF i], of P]
      DisplayThread_round_total [OF lane_inv_pins(2) [OF i]]
    by blast
qed

text \<open>The controller of the examples, with the model of the playback thread as its player.\<close>

definition lane_platform :: "(unit, unit) platform" where
  "lane_platform = example_platform\<lparr>compound_of :=
     playback_body 1 (kernel example_platform) (\<lambda>c n. (\<lparr>msp_ret = 0, msp_audio = None, msp_status = 2, msp_session = []\<rparr>, n))\<rparr>"

lemma lane_platform_quiet: "quiet_player u d lane_platform"
  by (simp add: quiet_player_def lane_platform_def playback_body_quiet)

definition lane_start :: "(unit, unit) lane" where
  "lane_start = \<lparr>shared = example_machine, detector = vehicle_start, parser1 = rx_start [], parser2 = rx_start []\<rparr>"

lemma lane_start_inv: "lane_inv 15 16 (shared lane_start)" "vehicle_ok (detector lane_start)"
  using example_ok vehicle_ok_start
  by (simp_all add: lane_start_def lane_inv_def motor_inv_def machine_ok_def never_both_def level_def example_machine_def
      example_pin_def)

theorem all_interleavings_safe_witness:
  "\<exists>l'. (lane_step lane_platform (\<lambda>_. True) (\<lambda>_ c. (0, c)))\<^sup>*\<^sup>* lane_start l' \<and> HeartThread_round lane_platform example_machine = Inr (shared l') \<and>
    machine_ok (shared l') \<and> never_both 15 16 (calls (machine_os (shared l')))"
proof -
  obtain m where m: "HeartThread_round lane_platform (shared lane_start) = Inr m"
    using HeartThread_round_total [OF lane_inv_pins(3) [OF lane_start_inv(1)], of lane_platform] by blast
  have s: "(lane_step lane_platform (\<lambda>_. True) (\<lambda>_ c. (0, c)))\<^sup>*\<^sup>* lane_start (lane_start\<lparr>shared := m\<rparr>)"
    by (rule r_into_rtranclp, rule lane_step.heartbeat [OF m])
  show ?thesis
    using s m all_interleavings_safe [OF s lane_start_inv(1) _ lane_platform_quiet]
    by (intro exI [of _ "lane_start\<lparr>shared := m\<rparr>"]) (simp add: lane_start_def)
qed

theorem background_turns_never_fault_witness:
  "(\<exists>x. vehicle_round lane_platform (vehicle_start, example_machine) = Inr x) \<and>
   (\<exists>m. show_default example_machine = Inr m)"
proof -
  have "(lane_step lane_platform (\<lambda>_. True) (\<lambda>_ c. (0, c)))\<^sup>*\<^sup>* lane_start lane_start" "(15 :: int) \<noteq> 16"
    by simp_all
  from background_turns_never_fault [OF this(1) lane_start_inv this(2) lane_platform_quiet] show ?thesis
    by (simp add: lane_start_def)
qed

end
