(* ===== verification/IniSave.thy ===== *)
theory IniSave
  imports Settings
begin

text \<open>
  Reading back what was written: \<open>Load\<close> after \<open>SaveAs\<close> (src/Get_Inifiles.cpp), for configurations of
  the form that \<open>Load\<close> produces, and the one part of the form that does not survive, the comment behind
  a section header.
\<close>

section \<open>Well-formed configurations\<close>

text \<open>The comment of an item or a section: the blank lines and comment lines above it.\<close>

definition comment_line :: "string \<Rightarrow> bool" where
  "comment_line l \<longleftrightarrow> newline \<notin> set l \<and> trimmed l \<and> (l = [] \<or> hd l = CHR ''#'')"

definition wf_comment :: "string \<Rightarrow> bool" where
  "wf_comment c \<longleftrightarrow> c = unlines (getlines c) \<and> (\<forall>l\<in>set (getlines c). comment_line l)"

definition wf_item :: "ini_item \<Rightarrow> bool" where
  "wf_item it \<longleftrightarrow> wf_comment (comment it) \<and>
     trimmed (key it) \<and> (\<forall>c\<in>set (key it). c \<notin> {newline, CHR ''#'', CHR ''=''}) \<and> (key it = [] \<or> hd (key it) \<noteq> CHR ''['') \<and>
     trimmed (value it) \<and> (\<forall>c\<in>set (value it). c \<notin> {newline, CHR ''#''}) \<and>
     trimmed (rightComment it) \<and> newline \<notin> set (rightComment it)"

definition wf_section :: "ini_section \<Rightarrow> bool" where
  "wf_section sect \<longleftrightarrow> wf_comment (section_comment sect) \<and>
     trimmed (name sect) \<and> (\<forall>c\<in>set (name sect). c \<notin> {newline, CHR ''#'', CHR '']''}) \<and>
     trimmed (section_rightComment sect) \<and> newline \<notin> set (section_rightComment sect) \<and>
     (\<forall>it\<in>set (items sect). wf_item it)"

definition wf_ini :: "inifile \<Rightarrow> bool" where
  "wf_ini f \<longleftrightarrow> commentDelimiter f = ''#'' \<and> sections_vt f \<noteq> [] \<and>
     name (hd (sections_vt f)) = [] \<and> section_comment (hd (sections_vt f)) = [] \<and>
     section_rightComment (hd (sections_vt f)) = [] \<and>
     distinct (map name (sections_vt f)) \<and> (\<forall>sect\<in>set (sections_vt f). wf_section sect)"

definition no_section_rightComment :: "inifile \<Rightarrow> bool" where
  "no_section_rightComment f \<longleftrightarrow> (\<forall>sect\<in>set (sections_vt f). section_rightComment sect = [])"

lemma wf_comment_unlines: "\<forall>l\<in>set ls. comment_line l \<Longrightarrow> wf_comment (unlines ls)"
  using getlines_unlines [of ls "[]"] by (simp add: wf_comment_def comment_line_def)

lemma wf_comment_Nil [simp]: "wf_comment []"
  by (simp add: wf_comment_def)

lemma wf_comment_last: "wf_comment c \<Longrightarrow> c \<noteq> [] \<Longrightarrow> last c = newline"
  by (metis wf_comment_def last_unlines unlines_simps(1))

section \<open>The lines of a configuration\<close>

definition item_line :: "ini_item \<Rightarrow> string" where
  "item_line it = key it @ ''='' @ value it @ (if rightComment it \<noteq> [] then '' #'' @ rightComment it else [])"

definition item_lines :: "ini_item \<Rightarrow> string list" where
  "item_lines it = getlines (comment it) @ [item_line it]"

definition section_lines :: "ini_section \<Rightarrow> string list" where
  "section_lines sect = getlines (section_comment sect) @
     (if name sect \<noteq> [] then [''['' @ name sect @ '']''] else []) @ concat (map item_lines (items sect))"

definition file_lines :: "inifile \<Rightarrow> string list" where
  "file_lines f = concat (map section_lines (sections_vt f))"

lemma item_line_newline: "wf_item it \<Longrightarrow> newline \<notin> set (item_line it)"
  by (auto simp: wf_item_def item_line_def)

lemma item_line_ne [simp]: "item_line it \<noteq> []"
  by (simp add: item_line_def)

lemma save_item_lines:
  assumes "wf_item it"
  shows "save_item ''#'' it data = data @ unlines (item_lines it)"
proof -
  have c: "(if comment it \<noteq> [] then end_line (data @ comment it) else data) = data @ comment it"
    using assms wf_comment_last [of "comment it"] by (simp add: end_line_def wf_item_def)
  have l: "(if rightComment it \<noteq> [] then x @ '' '' @ ''#'' @ rightComment it else x) =
      data @ comment it @ item_line it" if "x = (data @ comment it) @ key it @ ''='' @ value it" for x
    using that by (simp add: item_line_def)
  have "last (item_line it) \<in> set (item_line it)"
    by (rule last_in_set) simp
  then have "last (data @ comment it @ item_line it) \<noteq> newline"
    using item_line_newline [OF assms] by (auto simp del: last_in_set)
  then have e: "end_line (data @ comment it @ item_line it) = data @ comment it @ item_line it @ delim"
    by (simp add: end_line_def)
  have "comment it = unlines (getlines (comment it))"
    using assms by (simp add: wf_item_def wf_comment_def)
  then have "data @ unlines (item_lines it) = data @ comment it @ item_line it @ delim"
    by (simp add: item_lines_def unlines_append delim_def)
  then show ?thesis
    unfolding save_item_def Let_def c l [OF refl] e by simp
qed

lemma fold_save_item:
  "\<forall>it\<in>set its. wf_item it \<Longrightarrow> fold (save_item ''#'') its data = data @ unlines (concat (map item_lines its))"
  by (induction its arbitrary: data) (simp_all add: save_item_lines unlines_append)

lemma save_section_lines:
  assumes "wf_section sect" and "section_rightComment sect = []"
  shows "save_section ''#'' sect data = data @ unlines (section_lines sect)"
proof -
  have "section_comment sect = unlines (getlines (section_comment sect))"
    using assms(1) by (simp add: wf_section_def wf_comment_def)
  then show ?thesis
    using assms by (simp add: save_section_def section_lines_def fold_save_item wf_section_def unlines_append delim_def)
qed

lemma save_text_lines:
  assumes "wf_ini f" and "no_section_rightComment f"
  shows "save_text f = unlines (file_lines f)"
proof -
  have "fold (save_section ''#'') ss data = data @ unlines (concat (map section_lines ss))"
    if "\<forall>sect\<in>set ss. wf_section sect \<and> section_rightComment sect = []" for ss data
    using that by (induction ss arbitrary: data) (simp_all add: save_section_lines unlines_append)
  then show ?thesis
    using assms by (simp add: save_text_def file_lines_def wf_ini_def no_section_rightComment_def)
qed

lemma section_lines_newline:
  assumes "wf_section sect" and "l \<in> set (section_lines sect)"
  shows "newline \<notin> set l"
proof -
  have "newline \<notin> set (''['' @ name sect @ '']'')"
    using assms(1) by (auto simp: wf_section_def)
  moreover have "newline \<notin> set l" if "it \<in> set (items sect)" and "l \<in> set (item_lines it)" for it
    using that assms(1) item_line_newline [of it] getlines_no_newline [of l "comment it"]
    unfolding wf_section_def item_lines_def by fastforce
  moreover have "l \<in> set (getlines (section_comment sect)) \<or> l = ''['' @ name sect @ '']'' \<or>
      (\<exists>it\<in>set (items sect). l \<in> set (item_lines it))"
    using assms(2) by (cases "name sect = []") (auto simp: section_lines_def)
  ultimately show ?thesis
    using getlines_no_newline by blast
qed

lemma getlines_save_text:
  assumes "wf_ini f" and "no_section_rightComment f"
  shows "getlines (save_text f) = file_lines f"
proof -
  have "\<forall>l\<in>set (file_lines f). newline \<notin> set l"
    using assms(1) section_lines_newline by (auto simp: file_lines_def wf_ini_def)
  then show ?thesis
    using getlines_unlines [of "file_lines f" "[]"] by (simp add: save_text_lines [OF assms])
qed

section \<open>Reading the lines\<close>

lemma not_space [simp]: "\<not> is_space CHR ''#''" "\<not> is_space CHR ''=''" "\<not> is_space CHR ''[''" "\<not> is_space CHR '']''"
  "is_space CHR '' ''"
  by (simp_all add: is_space_def)

text \<open>Two parts with a separator between them: the line begins with the first and ends with the second.\<close>

lemma trimmed_join:
  assumes "a = [] \<or> \<not> is_space (hd a)" and "trimmed b" and "\<not> is_space c"
  shows "trimmed (a @ c # b)"
  using assms by (cases a) (auto simp: trimmed_def)

lemma item_line_alt: "item_line it = (if rightComment it = [] then key it @ CHR ''='' # value it
    else (key it @ CHR ''='' # value it @ '' '') @ CHR ''#'' # rightComment it)"
  by (simp add: item_line_def)

lemma trimmed_item:
  assumes "wf_item it"
  shows "trimmed (key it @ CHR ''='' # value it)" and "trimmed (item_line it)"
proof -
  have k: "key it = [] \<or> \<not> is_space (hd (key it))" and w: "trimmed (value it)" "trimmed (rightComment it)"
    using assms by (auto simp: wf_item_def trimmed_def)
  show 1: "trimmed (key it @ CHR ''='' # value it)"
    using k w(1) by (rule trimmed_join) simp
  have "\<not> is_space (hd (key it @ CHR ''='' # value it @ '' ''))"
    using k by (cases "key it") simp_all
  then show "trimmed (item_line it)"
    using 1 trimmed_join [OF _ w(2), of "key it @ CHR ''='' # value it @ '' ''" "CHR ''#''"]
    by (simp add: item_line_alt)
qed

lemma load_comment_lines:
  assumes "\<forall>l\<in>set cs. comment_line l" and "commentDelimiter f = ''#''"
  shows "load_lines (cs @ ls) cur cmt f = load_lines ls cur (cmt @ unlines cs) f"
  using assms(1)
proof (induction cs arbitrary: cmt)
  case (Cons l cs)
  then have l: "trim l = l" "l = [] \<or> hd l = CHR ''#''"
    by (simp_all add: comment_line_def)
  show ?case
    using Cons l assms(2) by (cases "l = []") (simp_all add: IsCommentLine_def StartWith_char delim_def Let_def)
qed simp

text \<open>A line that is neither blank nor a comment, as \<open>split\<close> cuts it.\<close>

lemma load_line:
  assumes "commentDelimiter f = ''#''" and "trimmed l" and "l \<noteq> []" and "hd l \<noteq> CHR ''#''"
    and "split l ''#'' = Inr (b, cleanLine, rcmt)"
  shows "load_lines (l # ls) cur cmt f =
    bindE (load_statement cleanLine cmt rcmt cur f) (\<lambda>(err, cur, f). if err \<noteq> 0 then Inr (err, f) else load_lines ls cur [] f)"
  using assms by (simp add: IsCommentLine_def StartWith_char)

lemma split_item_line:
  assumes "wf_item it"
  shows "\<exists>b. split (item_line it) ''#'' = Inr (b, key it @ CHR ''='' # value it, rightComment it)"
proof -
  have n: "CHR ''#'' \<notin> set (key it @ CHR ''='' # value it @ '' '')"
    using assms by (auto simp: wf_item_def)
  have t: "trimmed (key it @ CHR ''='' # value it)" "trimmed (rightComment it)"
    using assms trimmed_item by (simp_all add: wf_item_def)
  have "trim (key it @ CHR ''='' # value it @ '' '') = key it @ CHR ''='' # value it"
    using trim_space_right [of "CHR '' ''" "key it @ CHR ''='' # value it"] t(1) by simp
  then have "split ((key it @ CHR ''='' # value it @ '' '') @ CHR ''#'' # rightComment it) ''#'' =
      Inr (True, key it @ CHR ''='' # value it, rightComment it)"
    using split_at [OF n, of "rightComment it"] t(2) by simp
  moreover have "split (key it @ CHR ''='' # value it) ''#'' = Inr (False, key it @ CHR ''='' # value it, [])"
    using n t(1) by (simp add: split_char)
  ultimately show ?thesis
    by (metis item_line_alt)
qed

lemma load_statement_item:
  assumes "wf_item it"
  shows "load_statement (key it @ CHR ''='' # value it) (comment it) (rightComment it) cur f =
    Inr (0, cur, upd_section cur (\<lambda>sect. sect\<lparr>items := items sect @ [it]\<rparr>) f)"
proof -
  have "char_at (key it @ CHR ''='' # value it) \<noteq> CHR ''[''"
    using assms by (cases "key it") (auto simp: char_at_def wf_item_def)
  moreover have "CHR ''='' \<notin> set (key it)" and "trimmed (key it)" "trimmed (value it)"
    using assms by (auto simp: wf_item_def)
  then have "parse (key it @ CHR ''='' # value it) = Inr (True, key it, value it)"
    using split_at [of "CHR ''=''" "key it" "value it"] by (simp add: parse_def)
  moreover have "\<lparr>key = key it, value = value it, comment = comment it, rightComment = rightComment it\<rparr> = it"
    by simp
  ultimately show ?thesis
    by (simp only: load_statement_def AddKeyValuePair_def RET_OK_def if_False bindE_simps split_conv simp_thms)
qed

lemma load_item:
  assumes "wf_item it" and "commentDelimiter f = ''#''"
  shows "load_lines (item_lines it @ ls) cur [] f =
    load_lines ls cur [] (upd_section cur (\<lambda>sect. sect\<lparr>items := items sect @ [it]\<rparr>) f)"
proof -
  obtain b where b: "split (item_line it) ''#'' = Inr (b, key it @ CHR ''='' # value it, rightComment it)"
    using split_item_line [OF assms(1)] by blast
  have h: "hd (item_line it) \<noteq> CHR ''#''"
    using assms(1) by (cases "key it") (auto simp: item_line_def wf_item_def)
  have "load_lines (item_line it # ls) cur (comment it) f =
      load_lines ls cur [] (upd_section cur (\<lambda>sect. sect\<lparr>items := items sect @ [it]\<rparr>) f)"
    unfolding load_line [OF assms(2) trimmed_item(2) [OF assms(1)] item_line_ne h b]
      load_statement_item [OF assms(1)] by simp
  moreover have "comment it = unlines (getlines (comment it))" "\<forall>l\<in>set (getlines (comment it)). comment_line l"
    using assms(1) by (simp_all add: wf_item_def wf_comment_def)
  ultimately show ?thesis
    using load_comment_lines [OF _ assms(2), of "getlines (comment it)" "item_line it # ls" cur "[]"]
    by (simp add: item_lines_def)
qed

lemma load_items:
  assumes "\<forall>it\<in>set its. wf_item it" and "commentDelimiter f = ''#''" and "cur < length (sections_vt f)"
  shows "load_lines (concat (map item_lines its) @ ls) cur [] f =
    load_lines ls cur [] (upd_section cur (\<lambda>sect. sect\<lparr>items := items sect @ its\<rparr>) f)"
  using assms
proof (induction its arbitrary: f)
  case Nil
  then show ?case by (simp add: upd_section_def)
next
  case (Cons it its)
  then show ?case
    by (simp add: load_item) (simp add: upd_section_def)
qed

lemma load_section:
  assumes "wf_section sect" and "section_rightComment sect = []" and "name sect \<noteq> []"
    and "name sect \<notin> name ` set (sections_vt f)" and "commentDelimiter f = ''#''"
  shows "load_lines (section_lines sect @ ls) cur [] f =
    load_lines ls (length (sections_vt f)) [] (f\<lparr>sections_vt := sections_vt f @ [sect]\<rparr>)"
proof -
  let ?h = "''['' @ name sect @ '']''"
  let ?new = "sect\<lparr>items := []\<rparr>"
  have c: "section_comment sect = unlines (getlines (section_comment sect))"
    "\<forall>l\<in>set (getlines (section_comment sect)). comment_line l" and t: "trimmed (name sect)"
    and n: "\<forall>c\<in>set (name sect). c \<noteq> CHR ''#'' \<and> c \<noteq> CHR '']''" and i: "\<forall>it\<in>set (items sect). wf_item it"
    using assms(1) by (simp_all add: wf_section_def wf_comment_def)
  have g: "getSection f (name sect) = None"
    using assms(4) by (simp add: getSection_def) (metis image_eqI)
  have h: "trimmed ?h" "hd ?h \<noteq> CHR ''#''" "?h \<noteq> []"
    by (simp_all add: trimmed_def)
  have s: "split ?h ''#'' = Inr (False, ?h, [])"
    using n h(1) by (auto simp: split_char)
  have "find_first_of (\<lambda>c. c = CHR '']'') ?h = Some (Suc (length (name sect)))"
    using n by (simp add: find_first_of_append)
  then have "UpdateSection ?h (section_comment sect) [] cur f =
      Inr (0, length (sections_vt f), f\<lparr>sections_vt := sections_vt f @ [?new]\<rparr>)"
    using assms(2,3) t g by (simp add: UpdateSection_def RET_OK_def)
  then have "load_lines (?h # ls') cur (section_comment sect) f =
      load_lines ls' (length (sections_vt f)) [] (f\<lparr>sections_vt := sections_vt f @ [?new]\<rparr>)" for ls'
    using load_line [OF assms(5) h(1,3,2) s, of ls' cur "section_comment sect"]
    by (simp add: load_statement_def char_at_def)
  then show ?thesis
    using load_comment_lines [OF c(2) assms(5), of "?h # concat (map item_lines (items sect)) @ ls" cur "[]"]
      load_items [OF i, of "f\<lparr>sections_vt := sections_vt f @ [?new]\<rparr>" "length (sections_vt f)" ls] assms(3,5)
    by (simp add: section_lines_def flip: c(1)) (simp add: upd_section_def)
qed

lemma load_sections:
  assumes "\<forall>sect\<in>set ss. wf_section sect \<and> section_rightComment sect = [] \<and> name sect \<noteq> []"
    and "distinct (map name (sections_vt f @ ss))" and "commentDelimiter f = ''#''"
  shows "load_lines (concat (map section_lines ss) @ ls) cur [] f =
    load_lines ls (if ss = [] then cur else length (sections_vt f) + length ss - 1) []
      (f\<lparr>sections_vt := sections_vt f @ ss\<rparr>)"
  using assms
proof (induction ss arbitrary: f cur)
  case (Cons sect ss)
  have "name sect \<notin> name ` set (sections_vt f)"
    using Cons.prems(2) by auto
  then have "load_lines (section_lines sect @ concat (map section_lines ss) @ ls) cur [] f =
      load_lines (concat (map section_lines ss) @ ls) (length (sections_vt f)) [] (f\<lparr>sections_vt := sections_vt f @ [sect]\<rparr>)"
    using load_section Cons.prems by simp
  then show ?case
    using Cons.IH [of "f\<lparr>sections_vt := sections_vt f @ [sect]\<rparr>" "length (sections_vt f)"] Cons.prems by simp
qed simp

text \<open>The sections of a configuration without comments behind the headers, up to the one being read.\<close>

definition start_file :: "string \<Rightarrow> inifile \<Rightarrow> inifile" where
  "start_file p f = \<lparr>iniFilePath = p, commentDelimiter = commentDelimiter f, sections_vt =
     [\<lparr>name = [], section_comment = [], section_rightComment = [], items = []\<rparr>]\<rparr>"

lemma Load_start: "Load fs p f =
    (case fs p of None \<Rightarrow> Inr (ERR_OPEN_FILE_FAILED, \<lparr>iniFilePath = p, commentDelimiter = commentDelimiter f, sections_vt = []\<rparr>)
     | Some content \<Rightarrow> load_lines (getlines content) 0 [] (start_file p f))"
  by (cases f) (simp add: Load_def release_def start_file_def split: option.splits)

lemma load_file_prefix:
  assumes "commentDelimiter f = ''#''" and "sect0 \<in> {sect. name sect = [] \<and> section_comment sect = [] \<and> section_rightComment sect = []}"
    and "wf_section sect0" and "\<forall>sect\<in>set ss. wf_section sect \<and> section_rightComment sect = [] \<and> name sect \<noteq> []"
    and "distinct (map name ss)"
  shows "load_lines (concat (map section_lines (sect0 # ss)) @ ls) 0 [] (start_file p f) =
    load_lines ls (length ss) [] \<lparr>iniFilePath = p, commentDelimiter = ''#'', sections_vt = sect0 # ss\<rparr>"
proof -
  let ?f0 = "\<lparr>iniFilePath = p, commentDelimiter = ''#'', sections_vt = [sect0]\<rparr>"
  have "section_lines sect0 = concat (map item_lines (items sect0))"
    using assms(2) by (simp add: section_lines_def)
  moreover have "upd_section 0 (\<lambda>sect. sect\<lparr>items := items sect @ items sect0\<rparr>) (start_file p f) = ?f0"
    using assms(1,2) by (cases sect0) (simp add: upd_section_def start_file_def)
  moreover have "\<forall>it\<in>set (items sect0). wf_item it"
    using assms(3) by (simp add: wf_section_def)
  ultimately have "load_lines (section_lines sect0 @ concat (map section_lines ss) @ ls) 0 [] (start_file p f) =
      load_lines (concat (map section_lines ss) @ ls) 0 [] ?f0"
    using load_items [of "items sect0" "start_file p f" 0] assms(1) by (simp add: start_file_def)
  moreover have "distinct (map name (sections_vt ?f0 @ ss))"
    using assms(2,4,5) by auto
  ultimately show ?thesis
    using load_sections [OF assms(4), of ?f0 ls 0] by (cases ss) simp_all
qed

lemma Load_saved:
  assumes "wf_ini f" and "no_section_rightComment f" and "commentDelimiter f0 = ''#''"
    and "fs p = Some (save_text f)"
  shows "Load fs p f0 = Inr (RET_OK, f\<lparr>iniFilePath := p\<rparr>)"
proof -
  obtain sect0 ss where ss: "sections_vt f = sect0 # ss"
    using assms(1) by (cases "sections_vt f") (simp_all add: wf_ini_def)
  have w: "name sect0 = []" "section_comment sect0 = []" "section_rightComment sect0 = []" "wf_section sect0"
    "distinct (map name ss)" "\<forall>sect\<in>set ss. wf_section sect" "[] \<notin> name ` set ss" "commentDelimiter f = ''#''"
    using assms(1) by (auto simp: wf_ini_def ss)
  then have n: "\<forall>sect\<in>set ss. wf_section sect \<and> section_rightComment sect = [] \<and> name sect \<noteq> []"
    using assms(2) unfolding no_section_rightComment_def ss by (metis image_eqI list.set_intros(2))
  have "load_lines (concat (map section_lines (sect0 # ss)) @ []) 0 [] (start_file p f0) =
      Inr (RET_OK, \<lparr>iniFilePath = p, commentDelimiter = ''#'', sections_vt = sect0 # ss\<rparr>)"
    using load_file_prefix [OF assms(3) _ w(4) n w(5), of "[]" p] w(1-3) by simp
  moreover have "f\<lparr>iniFilePath := p\<rparr> = \<lparr>iniFilePath = p, commentDelimiter = ''#'', sections_vt = sect0 # ss\<rparr>"
    using w(8) ss by (cases f) simp
  ultimately show ?thesis
    using getlines_save_text [OF assms(1,2)] assms(4) by (simp add: Load_start file_lines_def ss)
qed

section \<open>What reading establishes\<close>

lemma wf_comment_snoc:
  assumes "wf_comment c" and "comment_line l"
  shows "wf_comment (c @ l @ delim)"
proof -
  have "c @ l @ delim = unlines (getlines c @ [l])"
    using assms(1) by (simp add: wf_comment_def unlines_append delim_def)
  then show ?thesis
    using assms wf_comment_unlines [of "getlines c @ [l]"] by (simp add: wf_comment_def)
qed

lemma wf_comment_Cons:
  assumes "comment_line l" and "wf_comment c"
  shows "wf_comment (l @ delim @ c)" and "getlines (l @ delim @ c) = l # getlines c"
proof -
  show g: "getlines (l @ delim @ c) = l # getlines c"
    using assms(1) by (intro getlines_append) (simp add: comment_line_def)
  show "wf_comment (l @ delim @ c)"
    unfolding wf_comment_def [of "l @ delim @ c"] g
    using assms by (simp add: wf_comment_def [of c] delim_def)
qed

lemma hd_trim:
  assumes "s \<noteq> []" and "\<not> is_space (hd s)"
  shows "trim s \<noteq> [] \<and> hd (trim s) = hd s"
proof -
  have d: "dropWhile is_space s = s"
    using assms by (cases s) simp_all
  obtain t where t: "s = trim s @ t" "\<forall>c\<in>set t. is_space c"
    using drop_right_prefix [of s is_space] unfolding trim_alt d by blast
  have "trim s \<noteq> []"
  proof
    assume "trim s = []"
    with t assms show False by (metis append_Nil list.set_sel(1))
  qed
  then show ?thesis
    by (metis t(1) hd_append2)
qed

lemma hd_takeWhile_trim:
  assumes "trimmed l" and "l \<noteq> []" and "P (hd l)"
  shows "trim (takeWhile P l) \<noteq> [] \<and> hd (trim (takeWhile P l)) = hd l"
  using assms hd_trim [of "takeWhile P l"] by (cases l) (auto simp: trimmed_def)

lemma set_before: "set (trim (takeWhile P l)) \<subseteq> set l \<inter> {x. P x}"
  using set_trim [of "takeWhile P l"] set_takeWhileD [of _ P l] by blast

lemma set_after: "set (trim (tl (dropWhile P l))) \<subseteq> set l"
proof -
  have "set (tl xs) \<subseteq> set xs" for xs :: string
    by (cases xs) auto
  then show ?thesis
    using set_trim [of "tl (dropWhile P l)"] set_dropWhileD [of _ P l] by blast
qed

lemma wf_upd_section:
  assumes "wf_ini f" and "i < length (sections_vt f)" and "wf_section (g (sections_vt f ! i))"
    and "name (g (sections_vt f ! i)) = name (sections_vt f ! i)"
    and "section_comment (g (sections_vt f ! i)) = section_comment (sections_vt f ! i)"
    and "section_rightComment (g (sections_vt f ! i)) = section_rightComment (sections_vt f ! i)"
  shows "wf_ini (upd_section i g f)"
proof -
  let ?s = "(sections_vt f)[i := g (sections_vt f ! i)]"
  have "map name ?s = map name (sections_vt f)"
    using assms(4) by (metis list_update_id map_update)
  moreover have "\<forall>sect\<in>set ?s. wf_section sect"
    using assms(1,3) set_update_subset_insert [of "sections_vt f" i "g (sections_vt f ! i)"]
    unfolding wf_ini_def by blast
  moreover have "name (hd ?s) = name (hd (sections_vt f))" "section_comment (hd ?s) = section_comment (hd (sections_vt f))"
    "section_rightComment (hd ?s) = section_rightComment (hd (sections_vt f))"
    using assms(2,4-6) by (cases "sections_vt f"; cases i; simp)+
  ultimately show ?thesis
    using assms(1) by (simp add: wf_ini_def upd_section_def)
qed

lemma AddKeyValuePair_wf:
  assumes "AddKeyValuePair l cmt rcmt cur f = Inr (e, f')" and "wf_ini f" and "cur < length (sections_vt f)"
    and "wf_comment cmt" and "trimmed rcmt" and "newline \<notin> set rcmt"
    and "trimmed l" and "l \<noteq> []" and "hd l \<noteq> CHR ''[''" and "set l \<inter> {newline, CHR ''#''} = {}"
  shows "wf_ini f' \<and> cur < length (sections_vt f') \<and> iniFilePath f' = iniFilePath f"
proof (cases "CHR ''='' \<in> set l")
  case False
  then show ?thesis
    using assms by (auto simp: AddKeyValuePair_def parse_def split_char)
next
  case True
  define k where "k = trim (takeWhile (\<lambda>x. x \<noteq> CHR ''='') l)"
  define v where "v = trim (tl (dropWhile (\<lambda>x. x \<noteq> CHR ''='') l))"
  let ?it = "\<lparr>key = k, value = v, comment = cmt, rightComment = rcmt\<rparr>"
  have t: "trimmed k" "trimmed v"
    by (simp_all add: k_def v_def)
  have f': "f' = upd_section cur (\<lambda>sect. sect\<lparr>items := items sect @ [?it]\<rparr>) f"
    using assms(1) True by (simp add: AddKeyValuePair_def parse_def split_char k_def v_def)
  have "set k \<subseteq> set l" "CHR ''='' \<notin> set k" "set v \<subseteq> set l"
    using set_before [of "\<lambda>x. x \<noteq> CHR ''=''" l] set_after [of "\<lambda>x. x \<noteq> CHR ''=''" l]
    unfolding k_def v_def by blast+
  then have w: "\<forall>c\<in>set k. c \<noteq> newline \<and> c \<noteq> CHR ''#'' \<and> c \<noteq> CHR ''=''" "\<forall>c\<in>set v. c \<noteq> newline \<and> c \<noteq> CHR ''#''"
    using assms(10) by blast+
  have "k = [] \<or> hd k \<noteq> CHR ''[''"
  proof (cases "hd l = CHR ''=''")
    case True
    then show ?thesis using assms(8) unfolding k_def by (cases l) (simp_all add: trim_alt)
  next
    case False
    then show ?thesis using hd_takeWhile_trim [OF assms(7,8), of "\<lambda>x. x \<noteq> CHR ''=''"] assms(9)
      unfolding k_def by simp
  qed
  then have "wf_item ?it"
    using assms(4-6) w t by (simp add: wf_item_def)
  moreover have "wf_section (sections_vt f ! cur)"
    using assms(2,3) by (simp add: wf_ini_def)
  ultimately have "wf_ini f'"
    unfolding f' using assms(2,3) by (intro wf_upd_section) (auto simp: wf_section_def)
  then show ?thesis
    using assms(3) by (simp add: f' upd_section_def)
qed

lemma UpdateSection_wf:
  assumes "UpdateSection l cmt rcmt cur f = Inr (e, cur', f')" and "wf_ini f" and "cur < length (sections_vt f)"
    and "wf_comment cmt" and "trimmed rcmt" and "newline \<notin> set rcmt" and "set l \<inter> {newline, CHR ''#''} = {}"
  shows "wf_ini f' \<and> cur' < length (sections_vt f') \<and> iniFilePath f' = iniFilePath f"
proof (cases "f' = f \<and> cur' = cur")
  case True
  then show ?thesis using assms(2,3) by simp
next
  case False
  then obtain i where i: "find_first_of (\<lambda>c. c = CHR '']'') l = Some i" "1 < i"
    using assms(1) by (auto simp: UpdateSection_def split: option.splits if_splits)
  then have b: "i < length l" "CHR '']'' \<notin> set (take i l)"
    by (auto simp: find_first_of_Some)
  define s where "s = trim (take (i - 1) (drop 1 l))"
  have d: "take (i - 1) (drop 1 l) = drop 1 (take i l)"
    by (simp add: drop_take)
  have "set s \<subseteq> set (take i l)"
    unfolding s_def d using set_trim set_drop_subset by (metis order_trans)
  then have s: "\<forall>c\<in>set s. c \<noteq> newline \<and> c \<noteq> CHR ''#'' \<and> c \<noteq> CHR '']''"
    using b(2) assms(7) set_take_subset [of i l] by blast
  have sub: "substr 1 (Some (i - 1)) l = Inr (take (i - 1) (drop 1 l))"
    using b(1) i(2) by simp
  have u: "UpdateSection l cmt rcmt cur f =
      (if getSection f s \<noteq> None then Inr (ERR_SECTION_ALREADY_EXISTS, cur, f)
       else Inr (RET_OK, length (sections_vt f), f\<lparr>sections_vt := sections_vt f @
         [\<lparr>name = s, section_comment = cmt, section_rightComment = rcmt, items = []\<rparr>]\<rparr>))"
    using i(2) unfolding UpdateSection_def i(1) option.case sub bindE_simps Let_def s_def by simp
  have g: "getSection f s = None" and f': "f' = f\<lparr>sections_vt := sections_vt f @
      [\<lparr>name = s, section_comment = cmt, section_rightComment = rcmt, items = []\<rparr>]\<rparr>"
    and c: "cur' = length (sections_vt f)"
    using assms(1) False unfolding u by (auto split: if_splits)
  have "wf_section \<lparr>name = s, section_comment = cmt, section_rightComment = rcmt, items = []\<rparr>"
    using assms(4-6) s by (simp add: wf_section_def s_def)
  moreover have "s \<notin> name ` set (sections_vt f)"
    using g by (auto simp: getSection_def)
  ultimately show ?thesis
    using assms(2) c unfolding f' by (simp add: wf_ini_def)
qed

text \<open>The codes that reading can answer.\<close>

definition load_codes :: "int set" where
  "load_codes = {RET_OK, ERR_UNMATCHED_BRACKETS, ERR_SECTION_EMPTY, ERR_SECTION_ALREADY_EXISTS, ERR_PARSE_KEY_VALUE_FAILED}"

lemma UpdateSection_total:
  "\<exists>e cur' f'. UpdateSection l cmt rcmt cur f = Inr (e, cur', f') \<and> e \<in> load_codes"
  using find_first_of_bound [of "\<lambda>c. c = CHR '']''" l]
  by (auto simp: UpdateSection_def load_codes_def Let_def split: option.splits)

lemma AddKeyValuePair_total: "\<exists>e f'. AddKeyValuePair l cmt rcmt cur f = Inr (e, f') \<and> e \<in> load_codes"
  by (auto simp: AddKeyValuePair_def parse_def split_char load_codes_def)

lemma load_statement_total: "\<exists>e cur' f'. load_statement l cmt rcmt cur f = Inr (e, cur', f') \<and> e \<in> load_codes"
  using UpdateSection_total [of l cmt rcmt cur f] AddKeyValuePair_total [of l cmt rcmt cur f]
  by (auto simp: load_statement_def)

lemma load_lines_wf:
  assumes "wf_ini f" and "cur < length (sections_vt f)" and "wf_comment cmt" and "\<forall>l\<in>set ls. newline \<notin> set l"
  shows "\<exists>e f'. load_lines ls cur cmt f = Inr (e, f') \<and> wf_ini f' \<and> iniFilePath f' = iniFilePath f \<and> e \<in> load_codes"
  using assms
proof (induction ls arbitrary: cur cmt f)
  case Nil
  then show ?case by (simp add: load_codes_def)
next
  case (Cons l0 ls)
  define l where "l = trim l0"
  have d: "commentDelimiter f = ''#''"
    using Cons.prems(1) by (simp add: wf_ini_def)
  have l: "trimmed l" "newline \<notin> set l"
    using Cons.prems(4) set_trim [of l0] by (auto simp: l_def)
  consider "l = []" | "l \<noteq> []" "hd l = CHR ''#''" | "l \<noteq> []" "hd l \<noteq> CHR ''#''"
    by blast
  then show ?case
  proof cases
    case 1
    then have "wf_comment (cmt @ delim)"
      using wf_comment_snoc [OF Cons.prems(3), of "[]"] by (simp add: comment_line_def trimmed_def)
    then show ?thesis
      using Cons 1 by (simp flip: l_def)
  next
    case 2
    then have "wf_comment (cmt @ l @ delim)"
      using wf_comment_snoc [OF Cons.prems(3), of l] l by (simp add: comment_line_def)
    then show ?thesis
      using Cons 2 d by (simp add: IsCommentLine_def StartWith_char flip: l_def)
  next
    case 3
    define c where "c = trim (takeWhile (\<lambda>x. x \<noteq> CHR ''#'') l)"
    define rc where "rc = (if CHR ''#'' \<in> set l then trim (tl (dropWhile (\<lambda>x. x \<noteq> CHR ''#'') l)) else [])"
    have s: "\<exists>b. split l ''#'' = Inr (b, c, rc)"
    proof (cases "CHR ''#'' \<in> set l")
      case False
      then have t: "takeWhile (\<lambda>x. x \<noteq> CHR ''#'') l = l"
        by (auto simp: takeWhile_eq_all_conv)
      show ?thesis
        using False unfolding split_char c_def rc_def t by auto
    qed (auto simp: split_char c_def rc_def)
    have c: "trimmed c" "c \<noteq> []" "set c \<inter> {newline, CHR ''#''} = {}"
      using hd_takeWhile_trim [OF l(1) 3(1), of "\<lambda>x. x \<noteq> CHR ''#''"] 3(2) l(2)
        set_before [of "\<lambda>x. x \<noteq> CHR ''#''" l] unfolding c_def by auto
    have rc: "trimmed rc" "newline \<notin> set rc"
      using l(2) set_after [of "\<lambda>x. x \<noteq> CHR ''#''" l] by (auto simp: rc_def)
    obtain e cur' f' where st: "load_statement c cmt rc cur f = Inr (e, cur', f')" "e \<in> load_codes"
      using load_statement_total by blast
    have w: "wf_ini f' \<and> cur' < length (sections_vt f') \<and> iniFilePath f' = iniFilePath f"
    proof (cases "char_at c = CHR ''[''")
      case True
      then show ?thesis
        using st(1) UpdateSection_wf [OF _ Cons.prems(1-3) rc c(3)] by (simp add: load_statement_def)
    next
      case False
      then have "hd c \<noteq> CHR ''[''"
        using c(2) by (cases c) (simp_all add: char_at_def)
      then show ?thesis
        using st(1) False AddKeyValuePair_wf [OF _ Cons.prems(1-3) rc c(1,2) _ c(3)]
        by (auto simp: load_statement_def res_conv)
    qed
    have "load_lines (l0 # ls) cur cmt f = (if e \<noteq> 0 then Inr (e, f') else load_lines ls cur' [] f')"
      using s 3 d st(1) by (auto simp: IsCommentLine_def StartWith_char simp flip: l_def)
    then show ?thesis
      using Cons.IH [of f' cur' "[]"] w st(2) Cons.prems(4) by auto
  qed
qed

lemma wf_start_file: "commentDelimiter f = ''#'' \<Longrightarrow> wf_ini (start_file p f)"
  by (simp add: wf_ini_def start_file_def wf_section_def trimmed_def)

section \<open>Changing settings\<close>

lemma to_string_chars: "c \<in> set (to_string i) \<Longrightarrow> is_digit c \<or> c = CHR ''-''"
  by (auto simp: to_string_def dest: dec_nat_digits split: if_splits)

lemma wf_to_string: "trimmed (to_string i) \<and> (\<forall>c\<in>set (to_string i). c \<notin> {newline, CHR ''#''})"
proof -
  have "\<not> is_space c \<and> c \<noteq> newline \<and> c \<noteq> CHR ''#''" if "c \<in> set (to_string i)" for c
    using to_string_chars [OF that] by (auto simp: is_digit_def is_space_def)
  moreover have "hd (to_string i) \<in> set (to_string i)" "last (to_string i) \<in> set (to_string i)" if "to_string i \<noteq> []"
    using that by simp_all
  ultimately show ?thesis
    by (auto simp: trimmed_def)
qed

text \<open>What a key, a section name and a value must look like to be written and read back.\<close>

definition wf_setting :: "string \<Rightarrow> string \<Rightarrow> string \<Rightarrow> bool" where
  "wf_setting s k v \<longleftrightarrow> trimmed s \<and> (\<forall>c\<in>set s. c \<notin> {newline, CHR ''#'', CHR '']''}) \<and>
     trimmed k \<and> (\<forall>c\<in>set k. c \<notin> {newline, CHR ''#'', CHR ''=''}) \<and> (k = [] \<or> hd k \<noteq> CHR ''['') \<and>
     trimmed v \<and> (\<forall>c\<in>set v. c \<notin> {newline, CHR ''#''})"

lemma wf_set_item:
  assumes "wf_section sect" and "wf_setting s k v"
  shows "wf_section (set_item k v [] sect) \<and> section_comment (set_item k v [] sect) = section_comment sect \<and>
    section_rightComment (set_item k v [] sect) = section_rightComment sect"
proof (cases "find_item k sect")
  case None
  have "wf_item \<lparr>key = k, value = v, comment = [], rightComment = []\<rparr>"
    using assms(2) by (simp add: wf_item_def wf_setting_def trimmed_def)
  then show ?thesis
    using None assms(1) by (simp add: set_item_def wf_section_def)
next
  case (Some j)
  then have j: "j < length (items sect)"
    by (simp add: find_item_def find_first_of_Some)
  then have "wf_item (items sect ! j)"
    using assms(1) by (simp add: wf_section_def)
  then have "wf_item ((items sect ! j)\<lparr>value := v, comment := []\<rparr>)"
    using assms(2) by (simp add: wf_item_def wf_setting_def)
  then have "\<forall>it\<in>set ((items sect)[j := (items sect ! j)\<lparr>value := v, comment := []\<rparr>]). wf_item it"
    using assms(1) set_update_subset_insert [of "items sect" j] unfolding wf_section_def by blast
  then show ?thesis
    using Some assms(1) by (simp add: set_item_def upd_item_def wf_section_def)
qed

lemma wf_setValue:
  assumes "wf_ini f" and "no_section_rightComment f" and "wf_setting s k v"
  shows "wf_ini (snd (setValue s k v [] f)) \<and> no_section_rightComment (snd (setValue s k v [] f))"
proof -
  obtain i g where g: "find_or_add_section s f = (i, g)"
    by fastforce
  have "wf_ini g \<and> no_section_rightComment g"
  proof (cases "getSection f s")
    case None
    then have n: "s \<notin> name ` set (sections_vt f)"
      by (auto simp: getSection_def)
    then have "s \<noteq> []"
      using assms(1) unfolding wf_ini_def by (metis image_eqI list.set_sel(1))
    moreover have "wf_section \<lparr>name = s, section_comment = [], section_rightComment = [], items = []\<rparr>"
      using assms(3) by (simp add: wf_section_def wf_setting_def trimmed_def)
    ultimately show ?thesis
      using g None n assms(1,2)
      by (auto simp: find_or_add_section_def Let_def wf_ini_def no_section_rightComment_def)
  next
    case (Some i)
    then show ?thesis
      using g assms(1,2) by (simp add: find_or_add_section_def)
  qed
  moreover have i: "i < length (sections_vt g)"
    using find_or_add_section_spec(1) [OF g] by (rule getSection_Some(1))
  ultimately have w: "wf_ini g" "no_section_rightComment g" "wf_section (sections_vt g ! i)"
    by (simp_all add: wf_ini_def)
  note x = wf_set_item [OF w(3) assms(3)]
  have "wf_ini (upd_section i (set_item k v []) g)"
    using w(1) i x by (intro wf_upd_section) simp_all
  moreover have "no_section_rightComment (upd_section i (set_item k v []) g)"
    using w(2) x i set_update_subset_insert [of "sections_vt g" i "set_item k v [] (sections_vt g ! i)"]
    unfolding no_section_rightComment_def upd_section_def by (simp, metis insertE nth_mem subsetD)
  ultimately show ?thesis
    by (simp add: setValue_def g)
qed

section \<open>Properties\<close>

text \<open>
  C16. Reading a configuration file always ends, with one of its documented codes, and whatever was read
  is well-formed, also when reading stopped at an error: the first section is the one without a name,
  section names are distinct, names, keys, values and comments are trimmed and free of the characters
  that delimit them. A file that cannot be opened leaves no section at all.
\<close>

theorem Load_well_formed:
  assumes "commentDelimiter f = ''#''"
  shows "\<exists>e f'. Load fs p f = Inr (e, f') \<and> iniFilePath f' = p \<and>
    (case fs p of None \<Rightarrow> e = ERR_OPEN_FILE_FAILED \<and> sections_vt f' = []
     | Some _ \<Rightarrow> e \<in> load_codes \<and> wf_ini f')"
proof (cases "fs p")
  case None
  then show ?thesis
    by (simp add: Load_start)
next
  case (Some content)
  have "0 < length (sections_vt (start_file p f))"
    by (simp add: start_file_def)
  then obtain e f' where "load_lines (getlines content) 0 [] (start_file p f) = Inr (e, f')"
    and "wf_ini f'" and "iniFilePath f' = p" and "e \<in> load_codes"
    using load_lines_wf [OF wf_start_file [OF assms, of p] _ wf_comment_Nil, of 0 "getlines content"]
      getlines_no_newline [of _ content]
    by (auto simp: start_file_def)
  with Some show ?thesis
    by (simp add: Load_start)
qed

definition example_files :: files where
  "example_files = (\<lambda>p. if p = ''Config.ini'' then Some (unlines [''[Log]'', ''level=1'', [], ''# ports'', ''[socket]'', '' port = 5000 # robot'']) else None)"

definition example_ini :: inifile where
  "example_ini = \<lparr>iniFilePath = ''Config.ini'', commentDelimiter = ''#'', sections_vt =
     [\<lparr>name = [], section_comment = [], section_rightComment = [], items = []\<rparr>,
      \<lparr>name = ''Log'', section_comment = [], section_rightComment = [], items =
        [\<lparr>key = ''level'', value = ''1'', comment = [], rightComment = []\<rparr>]\<rparr>,
      \<lparr>name = ''socket'', section_comment = unlines [[], ''# ports''], section_rightComment = [], items =
        [\<lparr>key = ''port'', value = ''5000'', comment = [], rightComment = ''robot''\<rparr>]\<rparr>]\<rparr>"

lemma example_Load: "Load example_files ''Config.ini'' IniFile_new = Inr (0, example_ini)"
  by code_simp

lemma example_wf: "wf_ini example_ini" "no_section_rightComment example_ini"
  by code_simp+

theorem Load_well_formed_witness:
  "\<exists>e f'. Load example_files ''Config.ini'' IniFile_new = Inr (e, f') \<and> e \<in> load_codes \<and> wf_ini f'"
proof -
  have "commentDelimiter IniFile_new = ''#''" and "example_files ''Config.ini'' \<noteq> None"
    by (simp_all add: IniFile_new_def example_files_def)
  then show ?thesis
    using Load_well_formed [of IniFile_new example_files "''Config.ini''"] by auto
qed

text \<open>
  C14. Writing a well-formed configuration and reading the file back gives the same configuration: every
  section, key, value, blank line and comment, in order, as long as no section header carries a comment
  on its own line; no other file is touched.
\<close>

theorem save_load_roundtrip:
  assumes "wf_ini f" and "no_section_rightComment f" and "writable p" and "commentDelimiter f0 = ''#''"
  shows "\<exists>fs'. SaveAs writable p f fs = (True, fs') \<and> Load fs' p f0 = Inr (RET_OK, f\<lparr>iniFilePath := p\<rparr>) \<and>
    (\<forall>q. q \<noteq> p \<longrightarrow> fs' q = fs q)"
  using assms Load_saved [OF assms(1,2,4), of "fs(p := Some (save_text f))" p] by (simp add: SaveAs_def)

theorem save_load_roundtrip_witness:
  "\<exists>fs'. SaveAs (\<lambda>_. True) ''New.ini'' example_ini example_files = (True, fs') \<and>
    Load fs' ''New.ini'' IniFile_new = Inr (RET_OK, example_ini\<lparr>iniFilePath := ''New.ini''\<rparr>)"
  using save_load_roundtrip [OF example_wf, of "\<lambda>_. True" "''New.ini''" IniFile_new example_files]
  by (auto simp: IniFile_new_def)

text \<open>
  A number that is set, saved and loaded again by a fresh object is read back as it was, at every
  32-bit value, and every other setting of the file keeps all its values.
\<close>

theorem saved_setting_is_read_back:
  assumes "wf_ini f" and "no_section_rightComment f" and "wf_setting s k []" and "writable p"
    and "- (2 ^ 31) \<le> i" and "i < 2 ^ 31"
  shows "\<exists>fs' f'. SaveAs writable p (snd (SetIntValue s k i f)) fs = (True, fs') \<and>
    Load fs' p IniFile_new = Inr (RET_OK, f') \<and> GetIntValue f' s k d = i \<and>
    (\<forall>s' k'. (s', k') \<noteq> (s, k) \<longrightarrow> all_values f' s' k' = all_values f s' k')"
proof -
  let ?f = "snd (SetIntValue s k i f)"
  have v: "wf_setting s k (to_string i)"
    using assms(3) wf_to_string [of i] by (simp add: wf_setting_def)
  have w: "wf_ini ?f" "no_section_rightComment ?f"
    using wf_setValue [OF assms(1,2) v] by (simp_all add: SetIntValue_def)
  have "Load (fs(p := Some (save_text ?f))) p IniFile_new = Inr (RET_OK, ?f\<lparr>iniFilePath := p\<rparr>)"
    using Load_saved [OF w, of IniFile_new "fs(p := Some (save_text ?f))" p] by (simp add: IniFile_new_def)
  moreover have a: "all_values (g\<lparr>iniFilePath := p\<rparr>) s' k' = all_values g s' k'" for g s' k'
    by (simp add: all_values_section the_section_def)
  moreover have "all_values ?f s' k' = (if s' = s \<and> k' = k then to_string i # tl (all_values f s k) else all_values f s' k')" for s' k'
    by (simp add: SetIntValue_def all_values_setValue)
  ultimately show ?thesis
    using assms(4) atoi_to_string [OF assms(5,6)] by (auto simp: SaveAs_def GetIntValue_values)
qed

theorem saved_setting_is_read_back_witness:
  "\<exists>fs' f'. SaveAs (\<lambda>_. True) ''Config.ini'' (snd (SetIntValue ''socket'' ''port'' 7000 example_ini)) example_files = (True, fs') \<and>
    Load fs' ''Config.ini'' IniFile_new = Inr (RET_OK, f') \<and> GetIntValue f' ''socket'' ''port'' 0 = 7000"
proof -
  have "wf_setting ''socket'' ''port'' []"
    by code_simp
  then show ?thesis
    using saved_setting_is_read_back [OF example_wf, where s = "''socket''" and k = "''port''" and
        writable = "\<lambda>_. True" and i = 7000 and p = "''Config.ini''" and fs = example_files and d = 0]
    by auto
qed

text \<open>The text of a section whose header carries a comment: the comment shares a line with the first item.\<close>

lemma save_noted_section:
  assumes "wf_section sect" and "section_rightComment sect \<noteq> []" and "name sect \<noteq> []"
    and "items sect = it # its" and "comment it = []"
  shows "save_section ''#'' sect data = data @ unlines (getlines (section_comment sect) @
    [''['' @ name sect @ '']'', '' #'' @ section_rightComment sect @ item_line it] @ concat (map item_lines its))"
proof -
  have "section_comment sect = unlines (getlines (section_comment sect))"
    and "wf_item it" and "\<forall>it\<in>set its. wf_item it"
    using assms(1,4) by (simp_all add: wf_section_def wf_comment_def)
  then show ?thesis
    using assms(2-5) save_item_lines [of it]
    by (simp add: save_section_def fold_save_item unlines_append delim_def item_lines_def)
qed

definition noted_comment :: "ini_section \<Rightarrow> ini_item \<Rightarrow> string" where
  "noted_comment sect it = ''#'' @ section_rightComment sect @ item_line it @ delim"

lemma load_noted_section:
  assumes "wf_section sect" and "section_rightComment sect \<noteq> []" and "name sect \<noteq> []"
    and "items sect = it # it2 # its" and "comment it = []"
    and "name sect \<notin> name ` set (sections_vt f)" and "commentDelimiter f = ''#''"
  shows "load_lines (getlines (section_comment sect) @ [''['' @ name sect @ '']'',
      '' #'' @ section_rightComment sect @ item_line it] @ concat (map item_lines (it2 # its))) cur [] f =
    Inr (RET_OK, f\<lparr>sections_vt := sections_vt f @ [sect\<lparr>section_rightComment := [],
      items := it2\<lparr>comment := noted_comment sect it @ comment it2\<rparr> # its\<rparr>]\<rparr>)"
proof -
  let ?sect = "sect\<lparr>section_rightComment := [], items := []\<rparr>"
  let ?it2 = "it2\<lparr>comment := noted_comment sect it @ comment it2\<rparr>"
  let ?l = "''#'' @ section_rightComment sect @ item_line it"
  let ?f = "f\<lparr>sections_vt := sections_vt f @ [?sect]\<rparr>"
  have i: "wf_item it" "wf_item it2" "\<forall>it\<in>set its. wf_item it" and rc: "newline \<notin> set (section_rightComment sect)"
    using assms(1,4) by (simp_all add: wf_section_def)
  have "last (item_line it) = last ?l" and "\<not> is_space (last (item_line it))"
    using trimmed_item(2) [OF i(1)] by (simp_all add: trimmed_def)
  then have l: "trimmed ?l" "comment_line ?l"
    using item_line_newline [OF i(1)] rc by (auto simp: trimmed_def comment_line_def)
  have t: "trim ('' '' @ ?l) = ?l"
    using trim_trimmed [OF l(1)] by simp
  have n: "noted_comment sect it @ comment it2 = ?l @ delim @ comment it2"
    by (simp add: noted_comment_def)
  have "wf_comment (comment it2)"
    using i(2) by (simp add: wf_item_def)
  note c = wf_comment_Cons [OF l(2) this]
  have "wf_item ?it2"
    using i(2) c(1) unfolding n by (simp add: wf_item_def)
  moreover have "item_lines ?it2 = ?l # item_lines it2"
    using c(2) unfolding n by (simp add: item_lines_def item_line_def)
  ultimately have w: "wf_item ?it2" and g: "item_lines ?it2 = ?l # item_lines it2"
    by blast+
  have "load_lines (('' '' @ ?l) # ls) n [] ?f = load_lines (?l # ls) n [] ?f" for ls n
    using t l(1) by simp
  moreover have "load_lines (section_lines ?sect @ ls) cur [] f = load_lines ls (length (sections_vt f)) [] ?f" for ls
    using assms(1,3,6,7) by (intro load_section) (auto simp: wf_section_def trimmed_def)
  moreover have "section_lines ?sect = getlines (section_comment sect) @ [''['' @ name sect @ '']'']"
    using assms(3) by (simp add: section_lines_def)
  moreover have "load_lines (concat (map item_lines (?it2 # its)) @ []) (length (sections_vt f)) [] ?f =
      Inr (RET_OK, upd_section (length (sections_vt f)) (\<lambda>sect. sect\<lparr>items := items sect @ ?it2 # its\<rparr>) ?f)"
    using load_items [of "?it2 # its" ?f "length (sections_vt f)" "[]"] w i(3) assms(7) by simp
  ultimately show ?thesis
    using g by (simp add: upd_section_def)
qed

lemma the_last_section:
  assumes "sections_vt f = ss @ [sect]" and "name sect \<notin> name ` set ss"
  shows "the_section f (name sect) = Some sect"
proof -
  have "\<forall>s\<in>set ss. name s \<noteq> name sect"
    using assms(2) by (metis image_eqI)
  then have "List.find (\<lambda>s. name s = name sect) ss = None"
    by (simp add: find_None_iff)
  then show ?thesis
    using assms(1) by (simp add: the_section_def find_snoc)
qed

lemma noted_file_lines:
  assumes "\<forall>s\<in>set ss. wf_section s \<and> section_rightComment s = []" and "commentDelimiter f = ''#''"
    and "sections_vt f = ss @ [sect]" and "wf_section sect" and "section_rightComment sect \<noteq> []"
    and "name sect \<noteq> []" and "items sect = it # its" and "comment it = []"
  shows "getlines (save_text f) = concat (map section_lines ss) @ getlines (section_comment sect) @
    [''['' @ name sect @ '']'', '' #'' @ section_rightComment sect @ item_line it] @ concat (map item_lines its)"
proof -
  let ?t = "getlines (section_comment sect) @
    [''['' @ name sect @ '']'', '' #'' @ section_rightComment sect @ item_line it] @ concat (map item_lines its)"
  have "fold (save_section ''#'') ss data = data @ unlines (concat (map section_lines ss))" for data
    using assms(1) by (induction ss arbitrary: data) (simp_all add: save_section_lines unlines_append)
  then have "save_text f = unlines (concat (map section_lines ss) @ ?t)"
    using save_noted_section [OF assms(4-8)] assms(2,3) by (simp add: save_text_def unlines_append)
  moreover have "newline \<notin> set l" if "l \<in> set (concat (map section_lines ss))" for l
    using that assms(1) section_lines_newline by auto
  moreover have "wf_item it" "\<forall>it\<in>set its. wf_item it" "newline \<notin> set (section_rightComment sect)"
    "newline \<notin> set (name sect)"
    using assms(4,7) by (auto simp: wf_section_def)
  then have "newline \<notin> set l" if "l \<in> set ?t" for l
    using that getlines_no_newline item_line_newline by (fastforce simp: item_lines_def)
  ultimately show ?thesis
    using getlines_unlines [of "concat (map section_lines ss) @ ?t" "[]"] by (metis Un_iff append_Nil2 getlines.simps(1) set_append)
qed

text \<open>
  A comment behind a section header does not survive a save: it is written at the start of the line
  of the section's first item, so that the item becomes part of a comment. When that item carries no
  comment of its own, loading the saved file succeeds but its key is gone from the section; the other
  items and sections are as before.
\<close>

theorem section_note_swallows_item:
  assumes "wf_ini f" and "sections_vt f = sect0 # ss @ [sect]" and "\<forall>s\<in>set (sect0 # ss). section_rightComment s = []"
    and "section_rightComment sect \<noteq> []" and "items sect = it # it2 # its" and "comment it = []"
    and "key it \<notin> key ` set (it2 # its)" and "commentDelimiter f0 = ''#''" and "fs p = Some (save_text f)"
  shows "\<exists>f'. Load fs p f0 = Inr (RET_OK, f') \<and>
    HasKey f (name sect) (key it) \<and> \<not> HasKey f' (name sect) (key it) \<and>
    sections_vt f' = sect0 # ss @ [sect\<lparr>section_rightComment := [],
      items := it2\<lparr>comment := noted_comment sect it @ comment it2\<rparr> # its\<rparr>]"
proof -
  let ?sect = "sect\<lparr>section_rightComment := [], items := it2\<lparr>comment := noted_comment sect it @ comment it2\<rparr> # its\<rparr>"
  let ?f = "\<lparr>iniFilePath = p, commentDelimiter = ''#'', sections_vt = sect0 # ss\<rparr>"
  have w: "name sect0 = []" "section_comment sect0 = []" "section_rightComment sect0 = []" "wf_section sect0"
    "distinct (map name ss)" "\<forall>s\<in>set ss. wf_section s" "[] \<notin> name ` set ss" "commentDelimiter f = ''#''"
    "wf_section sect" "name sect \<noteq> []" "name sect \<notin> name ` set (sect0 # ss)"
    using assms(1-3) by (auto simp: wf_ini_def)
  have n: "\<forall>s\<in>set ss. wf_section s \<and> section_rightComment s = [] \<and> name s \<noteq> []"
    using assms(3) w(6,7) by (metis image_eqI list.set_intros(2))
  have "getlines (save_text f) = concat (map section_lines (sect0 # ss)) @ getlines (section_comment sect) @
      [''['' @ name sect @ '']'', '' #'' @ section_rightComment sect @ item_line it] @ concat (map item_lines (it2 # its))"
    using assms(2,3) w n by (intro noted_file_lines [OF _ w(8) _ w(9) assms(4) w(10) assms(5,6)]) simp_all
  then have "Load fs p f0 = Inr (RET_OK, ?f\<lparr>sections_vt := sections_vt ?f @ [?sect]\<rparr>)"
    using load_file_prefix [OF assms(8) _ w(4) n w(5)] w(1-3)
      load_noted_section [OF w(9) assms(4) w(10) assms(5,6), of ?f "length ss"] w(11) assms(9)
    by (simp add: Load_start)
  moreover have "the_section f (name sect) = Some sect"
    using the_last_section [of f "sect0 # ss" sect] assms(2) w(11) by simp
  moreover have "the_section (?f\<lparr>sections_vt := sections_vt ?f @ [?sect]\<rparr>) (name sect) = Some ?sect"
    using the_last_section [of "?f\<lparr>sections_vt := sections_vt ?f @ [?sect]\<rparr>" "sect0 # ss" ?sect] w(11) by simp
  moreover have "filter (\<lambda>i. key i = key it) its = []"
    unfolding filter_empty_conv using assms(7) by (metis image_eqI list.set_intros(2))
  ultimately show ?thesis
    using assms(5,7) by (auto simp: HasKey_values all_values_section)
qed

definition noted_items :: "ini_item list" where
  "noted_items = [\<lparr>key = ''RobortPort'', value = ''5000'', comment = [], rightComment = []\<rparr>,
     \<lparr>key = ''ManualPort'', value = ''5001'', comment = [], rightComment = []\<rparr>]"

definition noted_section :: ini_section where
  "noted_section = \<lparr>name = ''socket'', section_comment = [], section_rightComment = ''local'', items = noted_items\<rparr>"

definition noted_ini :: inifile where
  "noted_ini = \<lparr>iniFilePath = [], commentDelimiter = ''#'', sections_vt =
     [\<lparr>name = [], section_comment = [], section_rightComment = [], items = []\<rparr>, noted_section]\<rparr>"

theorem section_note_swallows_item_witness:
  "\<exists>f'. Load (\<lambda>_. Some (save_text noted_ini)) ''Config.ini'' IniFile_new = Inr (RET_OK, f') \<and>
    HasKey noted_ini ''socket'' ''RobortPort'' \<and> \<not> HasKey f' ''socket'' ''RobortPort''"
proof -
  have "wf_ini noted_ini"
    by code_simp
  moreover have "items noted_section = noted_items ! 0 # noted_items ! 1 # []" "comment (noted_items ! 0) = []"
    "key (noted_items ! 0) = ''RobortPort''" "key (noted_items ! 1) = ''ManualPort''" "name noted_section = ''socket''"
    "section_rightComment noted_section = ''local''"
    by (simp_all add: noted_section_def noted_items_def)
  moreover have "sections_vt noted_ini =
      \<lparr>name = [], section_comment = [], section_rightComment = [], items = []\<rparr> # [] @ [noted_section]"
    by (simp add: noted_ini_def)
  ultimately show ?thesis
    using section_note_swallows_item [of noted_ini _ "[]" noted_section "noted_items ! 0" "noted_items ! 1" "[]"
        IniFile_new "\<lambda>_. Some (save_text noted_ini)" "''Config.ini''"]
    by (auto simp: IniFile_new_def)
qed

end
