(* ===== verification/Log_Message.thy ===== *)
theory Log_Message
  imports IniFile Os
begin

text \<open>
  The log (src/Log_Message.cpp): the clock that stamps the lines, the lines themselves in their array
  of 4099 bytes, the buffer of 10 MB between the callers and the log thread, and the log thread with its
  files, one directory per day and a new file every 30 MB.

  Numbers printed by \<open>snprintf\<close> are never negative here. A stored text is what \<open>snprintf\<close> wrote; a
  text that does not fit is a fault only when a byte outside the array is touched. The formatted
  message and \<open>localtime_r\<close> are parameters.
\<close>

section \<open>The clock\<close>

record tm =
  tm_year :: int
  tm_mon :: int
  tm_mday :: int
  tm_hour :: int
  tm_min :: int
  tm_sec :: int

record utc_timer =
  year :: int
  mon :: int
  day :: int
  hour :: int
  minute :: int
  sec :: int
  msec :: int
  sys_sec :: int
  sys_min :: int

definition pad :: "char \<Rightarrow> nat \<Rightarrow> string \<Rightarrow> string" where
  "pad c n s = replicate (n - length s) c @ s"

definition utc_fmt :: "utc_timer \<Rightarrow> string" where
  "utc_fmt t = take 19 (pad (CHR ''0'') 2 (to_string (hour t)) @ '':'' @ pad (CHR ''0'') 2 (to_string (minute t)) @ '':'' @
     pad (CHR ''0'') 2 (to_string (sec t)) @ ''.'' @ pad (CHR ''0'') 3 (to_string (msec t)))"

text \<open>
  Division and remainder of the seconds: \<open>div\<close> and \<open>mod\<close> round down where those of C round towards
  zero, which makes a difference for readings before 1970 only.
\<close>

definition utc_timer_new :: "(int \<Rightarrow> tm) \<Rightarrow> int \<times> int \<Rightarrow> utc_timer" where
  "utc_timer_new localtime tv =
     (let utc_tm = localtime (fst tv)
      in \<lparr>year = tm_year utc_tm + 1900, mon = tm_mon utc_tm + 1, day = tm_mday utc_tm, hour = tm_hour utc_tm,
          minute = tm_min utc_tm, sec = tm_sec utc_tm, msec = snd tv div 1000,
          sys_sec = fst tv, sys_min = fst tv div 60\<rparr>)"

definition get_utc_timer :: "(int \<Rightarrow> tm) \<Rightarrow> int \<times> int \<Rightarrow> utc_timer \<Rightarrow> string \<times> utc_timer" where
  "get_utc_timer localtime tv t =
     (let t = t\<lparr>msec := snd tv div 1000\<rparr>;
          t = (if fst tv \<noteq> sys_sec t
               then let t = t\<lparr>sec := fst tv mod 60, sys_sec := fst tv\<rparr>
                    in if sys_sec t div 60 \<noteq> sys_min t
                       then let utc_tm = localtime (sys_sec t)
                            in t\<lparr>sys_min := sys_sec t div 60, year := tm_year utc_tm + 1900, mon := tm_mon utc_tm + 1,
                                 day := tm_mday utc_tm, hour := tm_hour utc_tm, minute := tm_min utc_tm\<rparr>
                       else t
               else t)
      in (utc_fmt t, t))"

section \<open>Where the log and the configuration are\<close>

text \<open>
  \<open>GetModuleFileName\<close> cuts the name of the running module, when \<open>dladdr\<close> finds one: the directory, the
  configuration file in it, and the name without the directory.
\<close>

definition GetModuleFileName :: "string option \<Rightarrow> (string \<times> string \<times> string) option" where
  "GetModuleFileName dli_fname =
     (case dli_fname of
        None \<Rightarrow> None
      | Some f \<Rightarrow>
          if 256 \<le> length f then None
          else let (path, name) = (case find_last_of (\<lambda>c. c = CHR ''/'') f of
                                     None \<Rightarrow> ([], f)
                                   | Some pos \<Rightarrow> (take (pos + 1) f, drop (pos + 1) f))
               in if name = [] then None else Some (path @ ''Config.ini'', path, name))"

record mylog =
  log_level :: int
  log_write :: int
  log_debug :: int
  log_days :: int
  log_path :: string
  log_name :: string
  log_fp :: "int option"
  isNew :: bool
  log_year :: int
  log_mon :: int
  log_day :: int
  log_count :: nat
  log_buffer :: string
  log_data :: string
  log_head_line :: string
  log_head_end :: string

text \<open>
  \<open>InitMyLogClass\<close> reads the configuration file next to the module into the one configuration object
  of the process. The texts of the two banner lines are given.
\<close>

definition InitMyLogClass ::
  "files \<Rightarrow> string option \<Rightarrow> string \<Rightarrow> string \<Rightarrow> inifile \<Rightarrow> mylog \<Rightarrow> (mylog \<times> inifile) res" where
  "InitMyLogClass fs dli_fname head_line head_end f l =
     (let (CfgPath, path, name) =
            (case GetModuleFileName dli_fname of
               None \<Rightarrow> (''Config.ini'', ''ArtcLog'', ''Device'')
             | Some (c, p, n) \<Rightarrow> (c, p @ ''ArtcLog'', n))
      in bindE (Load fs CfgPath f) (\<lambda>(_, f).
         Inr (l\<lparr>log_path := path, log_name := name,
           log_write := GetIntValue f ''Log'' ''write'' 1, log_debug := GetIntValue f ''Log'' ''debug'' 0,
           log_level := GetIntValue f ''Log'' ''level'' 1, log_days := GetIntValue f ''Log'' ''days'' 7,
           log_head_line := head_line, log_head_end := head_end\<rparr>, f)))"

text \<open>The constructor sets four members and reads the settings; the rest of the object is what was in memory.\<close>

definition MyLogClass_new ::
  "files \<Rightarrow> string option \<Rightarrow> string \<Rightarrow> string \<Rightarrow> inifile \<Rightarrow> mylog \<Rightarrow> (mylog \<times> inifile) res" where
  "MyLogClass_new fs dli_fname head_line head_end f junk =
     InitMyLogClass fs dli_fname head_line head_end f
       (junk\<lparr>log_fp := None, isNew := False, log_buffer := [], log_data := []\<rparr>)"

section \<open>Lines\<close>

definition LOG_LEN_LIMIT :: nat where "LOG_LEN_LIMIT = 4096"
definition LOG_BUF_USE_LIMIT :: nat where "LOG_BUF_USE_LIMIT = 10485760"
definition LOG_USE_LIMIT :: int where "LOG_USE_LIMIT = 31457280"
definition LOG_MINIMUMSPACE :: int where "LOG_MINIMUMSPACE = 30"

text \<open>
  Appending a line to the buffer, which has \<open>LOG_BUF_USE_LIMIT + LOG_LEN_LIMIT\<close> bytes; the newline goes
  into the caller's array of \<open>LOG_LEN_LIMIT + 3\<close> bytes. A line that finds the buffer full is dropped.
\<close>

definition try_append :: "string \<Rightarrow> mylog \<Rightarrow> mylog res" where
  "try_append log_line l =
     (if LOG_LEN_LIMIT + 3 \<le> length log_line then Inl OutOfBounds
      else let line = log_line @ delim
           in if length (log_buffer l) < LOG_BUF_USE_LIMIT - length line
              then Inr (l\<lparr>log_buffer := log_buffer l @ line\<rparr>)
              else Inr l)"

definition level_tag :: "int \<Rightarrow> string option" where
  "level_tag lvl = (if lvl = 0 then Some ''[ TRACE ]'' else if lvl = 1 then Some ''[ INFO  ]''
     else if lvl = 2 then Some ''[ WARN  ]'' else if lvl = 3 then Some ''[ ERROR ]'' else None)"

definition line_stamp :: "string \<Rightarrow> string \<Rightarrow> nat \<Rightarrow> string" where
  "line_stamp tag time PID = tag @ ''['' @ time @ ''][''  @ pad (CHR '' '') 6 (dec_nat PID) @ ''] ''"

text \<open>
  What is in the array after \<open>snprintf\<close> wrote the stamp and \<open>vsnprintf\<close> the message, up to the sum of the
  lengths they return: both return the length of the full text, stored or not.
\<close>

definition log_line_text :: "string \<Rightarrow> string \<Rightarrow> string" where
  "log_line_text stamp main =
     (let t = stamp @ main in take (LOG_LEN_LIMIT - 1) t @ replicate (length t - (LOG_LEN_LIMIT - 1)) (CHR 0x00))"

definition log_try_append ::
  "int \<Rightarrow> nat \<Rightarrow> string \<Rightarrow> string \<Rightarrow> nat \<Rightarrow> string \<Rightarrow> string \<Rightarrow> mylog \<Rightarrow> mylog res" where
  "log_try_append lvl PID time filename file_line func main l =
     (case level_tag lvl of
        None \<Rightarrow> Inr l
      | Some tag \<Rightarrow>
          if lvl < log_level l then Inr l
          else let stamp = line_stamp tag time PID @
                 (if lvl = 3 then filename @ '':'' @ dec_nat file_line @ ''('' @ func @ '') '' else [])
               in if LOG_LEN_LIMIT < length stamp then Inl OutOfBounds
                  else try_append (log_line_text stamp main) l)"

definition hex_digit :: "nat \<Rightarrow> char" where
  "hex_digit n = char_of (if n < 10 then 48 + n else 55 + n)"

definition hex_byte :: "byte \<Rightarrow> string" where
  "hex_byte b = '' '' @ [hex_digit (unat b div 16), hex_digit (unat b mod 16)]"

text \<open>The loop stops before the array is full, or after \<open>buffer_len\<close> bytes.\<close>

fun hex_loop :: "nat \<Rightarrow> byte list \<Rightarrow> string \<Rightarrow> string res" where
  "hex_loop n buffer log_line =
     (if LOG_LEN_LIMIT - 4 \<le> length log_line then Inr log_line
      else case n of
             0 \<Rightarrow> Inr log_line
           | Suc n \<Rightarrow> (case buffer of
                         [] \<Rightarrow> Inl OutOfBounds
                       | b # buffer \<Rightarrow> hex_loop n buffer (log_line @ hex_byte b)))"

declare hex_loop.simps [simp del]

definition hex_try_append ::
  "int \<Rightarrow> nat \<Rightarrow> string \<Rightarrow> string \<Rightarrow> byte list \<Rightarrow> nat \<Rightarrow> mylog \<Rightarrow> mylog res" where
  "hex_try_append lvl PID time head buffer buffer_len l =
     (case level_tag lvl of
        None \<Rightarrow> Inr l
      | Some tag \<Rightarrow>
          if lvl < log_level l then Inr l
          else bindE (hex_loop buffer_len buffer (log_line_text (line_stamp tag time PID @ head @ '' '') []))
                 (\<lambda>log_line. try_append log_line l))"

section \<open>Deleting old logs\<close>

text \<open>
  A directory as \<open>readdir\<close> lists it: regular files and links with the time \<open>stat\<close> answers, directories
  with their own list when they can be opened, and anything else.
\<close>

datatype entry = Reg string "int option" | Subdir string "entry list option" | Other string

definition contains_sub :: "string \<Rightarrow> string \<Rightarrow> bool" where
  "contains_sub p s \<longleftrightarrow> find_sub p s \<noteq> None"

definition entry_path :: "string \<Rightarrow> string \<Rightarrow> string" where
  "entry_path dir_name d_name =
     (let p = take 4096 dir_name;
          c = (if p = [] then CHR '':'' else last p);
          q = (if c \<noteq> CHR '':'' \<and> c \<noteq> CHR ''/'' \<and> c \<noteq> CHR 0x5C then p @ ''/'' else p)
      in q @ take (4096 - length q) d_name)"

text \<open>The path that \<open>RemoveFile\<close> removes, if any.\<close>

definition RemoveFile :: "int \<Rightarrow> int \<Rightarrow> string \<Rightarrow> int option \<Rightarrow> string list" where
  "RemoveFile max_days now filename st_mtime =
     (case st_mtime of
        None \<Rightarrow> []
      | Some t \<Rightarrow> if now - t > max_days * 60 * 60 * 24 then [filename] else [])"

fun file_exists :: "entry \<Rightarrow> bool" where
  "file_exists (Reg n t) = True"
| "file_exists (Subdir n es) = (n \<noteq> ''.'' \<and> n \<noteq> ''..'')"
| "file_exists (Other n) = False"

fun del_old_entries :: "string \<Rightarrow> int \<Rightarrow> int \<Rightarrow> string \<Rightarrow> entry list \<Rightarrow> string list" where
  "del_old_entries file_name max_days now dir_name [] = []"
| "del_old_entries file_name max_days now dir_name (Reg n t # es) =
     (if contains_sub file_name (entry_path dir_name n) then RemoveFile max_days now (entry_path dir_name n) t else []) @
     del_old_entries file_name max_days now dir_name es"
| "del_old_entries file_name max_days now dir_name (Subdir n None # es) =
     del_old_entries file_name max_days now dir_name es"
| "del_old_entries file_name max_days now dir_name (Subdir n (Some sub) # es) =
     (if n \<noteq> ''.'' \<and> n \<noteq> ''..'' \<and> length n = length ''xxxx-xx-xx''
      then del_old_entries file_name max_days now (entry_path dir_name n) sub @
           (if list_ex file_exists sub then [] else [entry_path dir_name n])
      else []) @ del_old_entries file_name max_days now dir_name es"
| "del_old_entries file_name max_days now dir_name (Other n # es) =
     del_old_entries file_name max_days now dir_name es"

definition find_directory_to_del_old_files ::
  "string \<Rightarrow> string \<Rightarrow> int \<Rightarrow> int \<Rightarrow> entry list option \<Rightarrow> bool \<times> string list" where
  "find_directory_to_del_old_files dir_name file_name max_days now dir =
     (case dir of
        None \<Rightarrow> (False, [])
      | Some es \<Rightarrow> (True, del_old_entries file_name max_days now dir_name es @
                          (if list_ex file_exists es then [] else [dir_name])))"

section \<open>The log thread\<close>

definition get_free_space_mb :: "'w kernel \<Rightarrow> string \<Rightarrow> 'w os \<Rightarrow> int \<times> 'w os" where
  "get_free_space_mb K path s =
     (let (r, s) = do_sys K (Statvfs path) s
      in (if fst r < 0 then -1 else fst r div (1024 * 1024), s))"

text \<open>
  \<open>createdirectory\<close> makes every prefix of the path that ends in a slash. The array of 256 bytes holds
  no terminating zero once it is full.
\<close>

primrec create_prefixes :: "'w kernel \<Rightarrow> string list \<Rightarrow> 'w os \<Rightarrow> (bool \<times> 'w os) res" where
  "create_prefixes K [] s = Inr (True, s)"
| "create_prefixes K (p # ps) s =
     (if 256 \<le> length p then Inl OutOfBounds
      else let (r, s) = do_sys K (Access p) s
           in if fst r \<noteq> 0
              then let (r, s) = do_sys K (Mkdir p) s
                   in if fst r \<noteq> 0 then Inr (False, s) else create_prefixes K ps s
              else create_prefixes K ps s)"

definition createdirectory :: "'w kernel \<Rightarrow> string \<Rightarrow> 'w os \<Rightarrow> (bool \<times> 'w os) res" where
  "createdirectory K dir_path s =
     (if 256 < length dir_path then Inr (False, s)
      else create_prefixes K (filter (\<lambda>p. last p \<in> {CHR 0x5C, CHR ''/''})
             (map (\<lambda>i. take (Suc i) dir_path) [0..<length dir_path])) s)"

definition log_date :: "mylog \<Rightarrow> string" where
  "log_date l = pad (CHR ''0'') 4 (to_string (log_year l)) @ ''-'' @ pad (CHR ''0'') 2 (to_string (log_mon l)) @ ''-'' @
     pad (CHR ''0'') 2 (to_string (log_day l))"

definition log_dir :: "mylog \<Rightarrow> string" where
  "log_dir l = log_path l @ ''/'' @ log_date l @ ''/''"

definition log_file_name :: "mylog \<Rightarrow> string" where
  "log_file_name l = take 255 (log_dir l @ log_name l @ ''_'' @ log_date l @ ''.log.'' @ dec_nat (log_count l))"

definition open_log :: "'w kernel \<Rightarrow> mylog \<Rightarrow> 'w os \<Rightarrow> (mylog \<times> 'w os) res" where
  "open_log K l s =
     bindE (createdirectory K (log_dir l) s) (\<lambda>(ok, s).
     if ok then let (r, s) = do_sys K (Fopen (log_file_name l)) s
                in Inr (l\<lparr>log_fp := (if fst r < 0 then None else Some (fst r))\<rparr>, s)
     else Inr (l\<lparr>log_fp := None\<rparr>, s))"

text \<open>
  The three parts of \<open>write_to_file\<close>: the file of the day, the next file while the current one is full
  (with fuel, since the kernel decides how full a file is), and the writing. \<open>dirs\<close> and \<open>now\<close> are what
  the deletion of old logs finds.
\<close>

definition day_file ::
  "'w kernel \<Rightarrow> entry list option \<Rightarrow> int \<Rightarrow> int \<times> int \<times> int \<Rightarrow> mylog \<Rightarrow> 'w os \<Rightarrow> (bool \<times> mylog \<times> 'w os) res" where
  "day_file K dirs now ymd l s =
     (case ymd of (y, m, d) \<Rightarrow>
      case log_fp l of
        None \<Rightarrow>
          bindE (open_log K (l\<lparr>log_count := 1, log_year := y, log_mon := m, log_day := d\<rparr>) s) (\<lambda>(l, s).
          if log_fp l = None then Inr (False, l, s) else Inr (True, l\<lparr>isNew := True\<rparr>, s))
      | Some fp \<Rightarrow>
          if log_year l + log_mon l + log_day l \<noteq> y + m + d
          then let (_, s) = do_sys K (Fclose fp) s;
                   l = l\<lparr>log_count := 1, isNew := True, log_fp := None, log_year := y, log_mon := m, log_day := d\<rparr>;
                   (_, gone) = find_directory_to_del_old_files (log_path l) (log_name l) (log_days l) now dirs;
                   s = fold (\<lambda>p s. snd (do_sys K (Remove p) s)) gone s
               in bindE (open_log K l s) (\<lambda>(l, s).
                  if log_fp l = None then Inr (False, l, s) else Inr (True, l\<lparr>isNew := True\<rparr>, s))
          else Inr (True, l, s))"

primrec rotate_file ::
  "nat \<Rightarrow> 'w kernel \<Rightarrow> int \<times> int \<times> int \<Rightarrow> int \<Rightarrow> mylog \<Rightarrow> 'w os \<Rightarrow> (bool \<times> mylog \<times> 'w os) res" where
  "rotate_file 0 K ymd fp l s = Inl Diverges"
| "rotate_file (Suc fuel) K ymd fp l s =
     (let (r, s) = do_sys K (Ftell fp) s
      in if LOG_USE_LIMIT \<le> fst r
         then case ymd of (y, m, d) \<Rightarrow>
              let (_, s) = do_sys K (Fclose fp) s
              in bindE (open_log K (l\<lparr>log_count := log_count l + 1, log_fp := None,
                          log_year := y, log_mon := m, log_day := d\<rparr>) s) (\<lambda>(l, s).
                 case log_fp l of None \<Rightarrow> Inr (False, l, s) | Some fp \<Rightarrow> rotate_file fuel K ymd fp (l\<lparr>isNew := True\<rparr>) s)
         else Inr (True, l, s))"

definition write_data :: "'w kernel \<Rightarrow> int \<Rightarrow> mylog \<Rightarrow> 'w os \<Rightarrow> bool \<times> mylog \<times> 'w os" where
  "write_data K fp l s =
     (let (l, s) = (if isNew l then (l\<lparr>isNew := False\<rparr>, snd (do_sys K (Fwrite fp (log_head_line l)) s)) else (l, s));
          (free_space, s) = get_free_space_mb K (log_path l) s
      in if free_space < LOG_MINIMUMSPACE
         then (False, l\<lparr>log_write := 0\<rparr>, snd (do_sys K (Fwrite fp (log_head_end l)) s))
         else let (r, s) = do_sys K (Fwrite fp (log_data l)) s
              in if fst r \<noteq> int (length (log_data l)) then (False, l, s)
                 else (True, l, snd (do_sys K (Fflush fp) s)))"

definition write_to_file ::
  "nat \<Rightarrow> 'w kernel \<Rightarrow> entry list option \<Rightarrow> int \<Rightarrow> int \<times> int \<times> int \<Rightarrow> mylog \<Rightarrow> 'w os \<Rightarrow> (bool \<times> mylog \<times> 'w os) res" where
  "write_to_file fuel K dirs now ymd l s =
     bindE (day_file K dirs now ymd l s) (\<lambda>(ok, l, s).
     case log_fp l of
       None \<Rightarrow> Inr (False, l, s)
     | Some fp \<Rightarrow>
         bindE (rotate_file fuel K ymd fp l s) (\<lambda>(ok, l, s).
         case log_fp l of
           None \<Rightarrow> Inr (False, l, s)
         | Some fp \<Rightarrow> Inr (write_data K fp l s)))"

text \<open>One turn of the log thread: it takes the whole buffer; while the buffer is empty it waits.\<close>

definition log_thread_round ::
  "nat \<Rightarrow> 'w kernel \<Rightarrow> entry list option \<Rightarrow> int \<Rightarrow> utc_timer \<Rightarrow> mylog \<Rightarrow> 'w os \<Rightarrow> (mylog \<times> 'w os) res" where
  "log_thread_round fuel K dirs now t l s =
     (if log_buffer l = [] then Inr (l, s)
      else let l = l\<lparr>log_data := log_buffer l, log_buffer := []\<rparr>
           in if log_write l \<noteq> 0
              then bindE (write_to_file fuel K dirs now (year t, mon t, day t) l s) (\<lambda>(_, l, s).
                   Inr (l\<lparr>log_data := []\<rparr>, s))
              else Inr (l\<lparr>log_data := []\<rparr>, s))"

end
