(* ===== verification/Logging.thy ===== *)
theory Logging
  imports Log_Message
begin

text \<open>
  What the log (theory \<open>Log_Message\<close>) does: the cached clock agrees with the clock of the system, lines
  stay in their array and in the buffer or do not, old logs are the only files deleted, and a turn of
  the log thread writes what it took from the buffer once.
\<close>

section \<open>The clock\<close>

text \<open>
  What POSIX says of \<open>localtime_r\<close> in a time zone whose offset is a whole number of minutes: the fields
  down to the minute depend on the minute only, and the seconds are those of the count.
\<close>

definition localtime_ok :: "(int \<Rightarrow> tm) \<Rightarrow> bool" where
  "localtime_ok localtime \<longleftrightarrow>
     (\<forall>t u. t div 60 = u div 60 \<longrightarrow> (localtime t)\<lparr>tm_sec := 0\<rparr> = (localtime u)\<lparr>tm_sec := 0\<rparr>) \<and>
     (\<forall>t. tm_sec (localtime t) = t mod 60)"

lemma localtime_same_minute:
  assumes "localtime_ok localtime" and "t div 60 = u div 60"
  shows "tm_year (localtime t) = tm_year (localtime u)" and "tm_mon (localtime t) = tm_mon (localtime u)"
    and "tm_mday (localtime t) = tm_mday (localtime u)" and "tm_hour (localtime t) = tm_hour (localtime u)"
    and "tm_min (localtime t) = tm_min (localtime u)"
proof -
  have e: "(localtime t)\<lparr>tm_sec := 0\<rparr> = (localtime u)\<lparr>tm_sec := 0\<rparr>"
    using assms unfolding localtime_ok_def by blast
  show "tm_year (localtime t) = tm_year (localtime u)" and "tm_mon (localtime t) = tm_mon (localtime u)"
    and "tm_mday (localtime t) = tm_mday (localtime u)" and "tm_hour (localtime t) = tm_hour (localtime u)"
    and "tm_min (localtime t) = tm_min (localtime u)"
    using arg_cong [OF e, of tm_year] arg_cong [OF e, of tm_mon] arg_cong [OF e, of tm_mday]
      arg_cong [OF e, of tm_hour] arg_cong [OF e, of tm_min] by simp_all
qed

lemma get_utc_timer_step:
  assumes "localtime_ok localtime" and "t = utc_timer_new localtime tv0"
  shows "get_utc_timer localtime tv t = (utc_fmt (utc_timer_new localtime tv), utc_timer_new localtime tv)"
proof -
  have s: "tm_sec (localtime (fst tv)) = fst tv mod 60"
    using assms(1) unfolding localtime_ok_def by blast
  show ?thesis
  proof (cases "fst tv div 60 = fst tv0 div 60")
    case True
    then show ?thesis
      using localtime_same_minute [OF assms(1) True] s assms(2)
        spec [OF conjunct2 [OF assms(1) [unfolded localtime_ok_def]], of "fst tv0"]
      by (simp add: get_utc_timer_def utc_timer_new_def Let_def)
  next
    case False
    then have "fst tv \<noteq> fst tv0"
      by auto
    with False show ?thesis
      using s assms(2) by (simp add: get_utc_timer_def utc_timer_new_def Let_def)
  qed
qed

text \<open>
  C34. The clock of the log only calls \<open>localtime_r\<close> when the minute changes, yet after any sequence of
  readings, forwards or backwards in time, the stamp it gives is the one a clock without a cache would
  give for the last reading.
\<close>

theorem cached_clock_agrees:
  assumes "localtime_ok localtime" and "tvs \<noteq> []"
  shows "foldl (\<lambda>(_, t) tv. get_utc_timer localtime tv t) (stamp, utc_timer_new localtime tv0) tvs =
    (utc_fmt (utc_timer_new localtime (last tvs)), utc_timer_new localtime (last tvs))"
  using assms(2)
proof (induction tvs rule: rev_induct)
  case (snoc tv tvs)
  obtain s1 tv1 where "foldl (\<lambda>(_, t) tv. get_utc_timer localtime tv t) (stamp, utc_timer_new localtime tv0) tvs =
      (s1, utc_timer_new localtime tv1)"
  proof (cases "tvs = []")
    case True
    then show ?thesis using that [of stamp tv0] by simp
  next
    case False
    then show ?thesis using that [of _ "last tvs"] snoc.IH by simp
  qed
  then show ?case
    using get_utc_timer_step [OF assms(1), of _ tv1 tv] by simp
qed simp

definition example_localtime :: "int \<Rightarrow> tm" where
  "example_localtime t = \<lparr>tm_year = 124, tm_mon = 6, tm_mday = 4 + t div 86400, tm_hour = t div 3600 mod 24,
     tm_min = t div 60 mod 60, tm_sec = t mod 60\<rparr>"

lemma example_localtime_ok: "localtime_ok example_localtime"
proof -
  have "t div 86400 = t div 60 div 1440" "t div 3600 = t div 60 div 60" for t :: int
    by (simp_all add: zdiv_zmult2_eq [symmetric])
  then show ?thesis
    by (simp add: localtime_ok_def example_localtime_def)
qed

theorem cached_clock_agrees_witness:
  "fst (foldl (\<lambda>(_, t) tv. get_utc_timer example_localtime tv t) ([], utc_timer_new example_localtime (50583, 0))
     [(50585, 250000), (54190, 7000)]) = ''15:03:10.007''"
proof -
  have "utc_fmt (utc_timer_new example_localtime (54190, 7000)) = ''15:03:10.007''"
    by code_simp
  then show ?thesis
    using cached_clock_agrees [OF example_localtime_ok, of "[(50585, 250000), (54190, 7000)]" "[]" "(50583, 0)"] by simp
qed

section \<open>Lines and the buffer\<close>

definition buffer_ok :: "mylog \<Rightarrow> bool" where
  "buffer_ok l \<longleftrightarrow> length (log_buffer l) \<le> LOG_BUF_USE_LIMIT"

lemma try_append_ok:
  assumes "length line < LOG_LEN_LIMIT + 3" and "buffer_ok l"
  shows "\<exists>l'. try_append line l = Inr l' \<and> buffer_ok l' \<and>
    (l' = l \<or> log_buffer l' = log_buffer l @ line @ delim \<and> length (log_buffer l') \<le> LOG_BUF_USE_LIMIT)"
  using assms by (auto simp: try_append_def buffer_ok_def Let_def delim_def)

lemma length_hex_byte [simp]: "length (hex_byte b) = 3"
  by (simp add: hex_byte_def)

text \<open>The number of bytes whose print still fits when \<open>h\<close> characters are in the array.\<close>

definition hex_room :: "nat \<Rightarrow> nat" where
  "hex_room h = (LOG_LEN_LIMIT - 4 - h + 2) div 3"

lemma third_step:
  assumes "0 < (n :: nat)"
  shows "(n + 2) div 3 = Suc ((n - 3 + 2) div 3)"
proof (cases "3 \<le> n")
  case True
  then have "n + 2 = (n - 3 + 2) + 3"
    by simp
  then show ?thesis
    by (simp only: div_add_self2)
next
  case False
  then have "n = 1 \<or> n = 2"
    using assms by linarith
  then show ?thesis
    by auto
qed

lemma hex_room_bound:
  assumes "h < LOG_LEN_LIMIT"
  shows "h + 3 * hex_room h < LOG_LEN_LIMIT"
proof (cases "h \<le> 4092")
  case True
  then have "3 * hex_room h \<le> 4092 - h + 2"
    by (simp add: hex_room_def LOG_LEN_LIMIT_def)
  then show ?thesis
    using True unfolding LOG_LEN_LIMIT_def by linarith
next
  case False
  then show ?thesis
    using assms by (simp add: hex_room_def LOG_LEN_LIMIT_def)
qed

lemma hex_loop_eq:
  assumes "n \<le> length buffer"
  shows "hex_loop n buffer line = Inr (line @ concat (map hex_byte (take (Orderings.min n (hex_room (length line))) buffer)))"
  using assms
proof (induction n arbitrary: buffer line)
  case 0
  show ?case by (subst hex_loop.simps) simp
next
  case (Suc n)
  then obtain b bs where b: "buffer = b # bs"
    by (cases buffer) auto
  show ?case
  proof (cases "LOG_LEN_LIMIT - 4 \<le> length line")
    case True
    then show ?thesis
      by (subst hex_loop.simps) (simp add: hex_room_def)
  next
    case False
    then have "0 < LOG_LEN_LIMIT - 4 - length line"
      by simp
    then have r: "hex_room (length line) = Suc (hex_room (length line + 3))"
      using third_step unfolding hex_room_def diff_diff_left [symmetric] by blast
    have "hex_loop (Suc n) buffer line = hex_loop n bs (line @ hex_byte b)"
      using False b by (subst hex_loop.simps) simp
    then show ?thesis
      using Suc.IH [of bs "line @ hex_byte b"] Suc.prems by (simp add: b r)
  qed
qed

lemma log_line_text_short: "length (stamp @ main) < LOG_LEN_LIMIT \<Longrightarrow> log_line_text stamp main = stamp @ main"
  by (simp add: log_line_text_def LOG_LEN_LIMIT_def)

lemma length_log_line_text: "length (log_line_text stamp main) = length stamp + length main"
  by (simp add: log_line_text_def LOG_LEN_LIMIT_def)

lemma length_concat_hex: "length (concat (map hex_byte bs)) = 3 * length bs"
  by (induction bs) simp_all

text \<open>
  A dump of received bytes stays in its array whatever its length: the line is the stamp, the title
  and as many bytes as fit, each as two hexadecimal digits, in order; it is appended to the log buffer
  unless that is full, and the buffer keeps its bound.
\<close>

theorem hex_dump_fits:
  assumes "level_tag lvl = Some tag" and "log_level l \<le> lvl" and "buffer_len \<le> length buffer" and "buffer_ok l"
    and "length (line_stamp tag time PID @ head @ '' '') < LOG_LEN_LIMIT"
  shows "\<exists>l' line. hex_try_append lvl PID time head buffer buffer_len l = Inr l' \<and> buffer_ok l' \<and>
    line = line_stamp tag time PID @ head @ '' '' @
      concat (map hex_byte (take (Orderings.min buffer_len (hex_room (length (line_stamp tag time PID @ head @ '' '')))) buffer)) \<and>
    length line < LOG_LEN_LIMIT \<and> (l' = l \<or> log_buffer l' = log_buffer l @ line @ delim)"
proof -
  define stamp where "stamp = line_stamp tag time PID @ head @ '' ''"
  define line where "line = stamp @ concat (map hex_byte (take (Orderings.min buffer_len (hex_room (length stamp))) buffer))"
  have "hex_try_append lvl PID time head buffer buffer_len l = try_append line l"
    using assms(1,2,5) hex_loop_eq [OF assms(3), of stamp] log_line_text_short [of stamp "[]"]
    by (simp add: hex_try_append_def line_def flip: stamp_def)
  moreover have "length line < LOG_LEN_LIMIT"
  proof -
    have "length (take (Orderings.min buffer_len (hex_room (length stamp))) buffer) \<le> hex_room (length stamp)"
      by simp
    then have "length line \<le> length stamp + 3 * hex_room (length stamp)"
      by (simp only: line_def length_append length_concat_hex)
    then show ?thesis
      using hex_room_bound [OF assms(5)] unfolding stamp_def [symmetric] by linarith
  qed
  moreover from this obtain l' where "try_append line l = Inr l'" "buffer_ok l'"
      "l' = l \<or> log_buffer l' = log_buffer l @ line @ delim"
    using try_append_ok [of line l] assms(4) by (auto simp: LOG_LEN_LIMIT_def)
  ultimately show ?thesis
    by (intro exI [of _ l'] exI [of _ line]) (simp add: line_def stamp_def)
qed

definition example_log :: mylog where
  "example_log = \<lparr>log_level = 1, log_write = 1, log_debug = 0, log_days = 5, log_path = ''./ArtcLog'',
     log_name = ''IMachine_HB'', log_fp = Some 7, isNew = False, log_year = 2024, log_mon = 7, log_day = 4,
     log_count = 1, log_buffer = [], log_data = [], log_head_line = ''head'', log_head_end = ''end''\<rparr>"

lemma example_log_ok: "buffer_ok example_log"
  by (simp add: buffer_ok_def example_log_def)

theorem hex_dump_fits_witness:
  "\<exists>l'. hex_try_append 1 77 ''15:03:10.007'' ''Recv'' [0xFF, 0xA3] 2 example_log = Inr l' \<and> buffer_ok l'"
proof -
  have "length (line_stamp ''[ INFO  ]'' ''15:03:10.007'' 77 @ ''Recv'' @ '' '') < LOG_LEN_LIMIT"
    by code_simp
  moreover have "level_tag 1 = Some ''[ INFO  ]''" "log_level example_log \<le> 1"
    by (simp_all add: level_tag_def example_log_def)
  ultimately show ?thesis
    using hex_dump_fits [of 1 "''[ INFO  ]''" example_log 2 "[0xFF, 0xA3]" "''15:03:10.007''" 77 "''Recv''"] example_log_ok
    by auto
qed

text \<open>
  C36. An ordinary log line is not bounded: \<open>vsnprintf\<close> returns the length of the whole message and the
  line end is written that far into the array, so a stamp and message of 4099 characters or more
  write outside it; a shorter line never does, and keeps the bound of the buffer.
\<close>

theorem long_message_overruns:
  assumes "level_tag lvl = Some tag" and "log_level l \<le> lvl" and "lvl \<noteq> 3" and "buffer_ok l"
    and "length (line_stamp tag time PID) \<le> LOG_LEN_LIMIT"
  shows "(LOG_LEN_LIMIT + 3 \<le> length (line_stamp tag time PID) + length main \<longrightarrow>
      log_try_append lvl PID time filename n func main l = Inl OutOfBounds) \<and>
    (length (line_stamp tag time PID) + length main < LOG_LEN_LIMIT + 3 \<longrightarrow>
      (\<exists>l'. log_try_append lvl PID time filename n func main l = Inr l' \<and> buffer_ok l'))"
proof -
  have "log_try_append lvl PID time filename n func main l = try_append (log_line_text (line_stamp tag time PID) main) l"
    using assms by (simp add: log_try_append_def)
  then show ?thesis
    using try_append_ok [OF _ assms(4), of "log_line_text (line_stamp tag time PID) main"]
    by (auto simp: length_log_line_text try_append_def)
qed

theorem long_message_overruns_witness:
  "log_try_append 1 77 ''15:03:10.007'' [] 0 [] (replicate 4100 CHR ''x'') example_log = Inl OutOfBounds \<and>
   (\<exists>l'. log_try_append 1 77 ''15:03:10.007'' [] 0 [] ''ok'' example_log = Inr l' \<and> buffer_ok l')"
proof -
  have l: "length (line_stamp ''[ INFO  ]'' ''15:03:10.007'' 77) = 32"
    by code_simp
  have t: "level_tag 1 = Some ''[ INFO  ]''" "log_level example_log \<le> 1"
    by (simp_all add: level_tag_def example_log_def)
  note o = long_message_overruns [OF t _ example_log_ok, where time = "''15:03:10.007''" and PID = 77 and filename = "[]" and n = 0 and func = "[]"]
  from o [where main = "replicate 4100 CHR ''x''"] o [where main = "''ok''"] l show ?thesis
    by (simp add: LOG_LEN_LIMIT_def)
qed

section \<open>Deleting old logs\<close>

text \<open>Everything below a directory, with its path.\<close>

fun listing :: "string \<Rightarrow> entry list \<Rightarrow> (string \<times> entry) list" where
  "listing dir [] = []"
| "listing dir (Reg n t # es) = (entry_path dir n, Reg n t) # listing dir es"
| "listing dir (Subdir n None # es) = (entry_path dir n, Subdir n None) # listing dir es"
| "listing dir (Subdir n (Some sub) # es) =
     (entry_path dir n, Subdir n (Some sub)) # listing (entry_path dir n) sub @ listing dir es"
| "listing dir (Other n # es) = (entry_path dir n, Other n) # listing dir es"

fun outdated :: "string \<Rightarrow> int \<Rightarrow> int \<Rightarrow> string \<Rightarrow> entry \<Rightarrow> bool" where
  "outdated file_name max_days now p (Reg n (Some t)) = (max_days * 86400 < now - t \<and> contains_sub file_name p)"
| "outdated file_name max_days now p (Reg n None) = False"
| "outdated file_name max_days now p (Subdir n (Some sub)) = (length n = 10 \<and> \<not> list_ex file_exists sub)"
| "outdated file_name max_days now p (Subdir n None) = False"
| "outdated file_name max_days now p (Other n) = False"

lemma del_old_entries_outdated:
  "p \<in> set (del_old_entries file_name max_days now dir es) \<Longrightarrow>
    \<exists>e. (p, e) \<in> set (listing dir es) \<and> outdated file_name max_days now p e"
proof (induction file_name max_days now dir es rule: del_old_entries.induct)
  case (2 file_name max_days now dir n t es)
  show ?case
  proof (cases "p \<in> set (del_old_entries file_name max_days now dir es)")
    case True
    then show ?thesis using 2 by auto
  next
    case False
    then have "outdated file_name max_days now p (Reg n t) \<and> p = entry_path dir n"
      using 2 by (cases t) (auto simp: RemoveFile_def split: if_splits)
    then show ?thesis by auto
  qed
next
  case (4 file_name max_days now dir n sub es)
  then show ?case
    by (auto split: if_splits)
qed auto

text \<open>
  C35. Cleaning up deletes nothing but old logs: every path it removes is a file below the log directory
  that is older than the configured days and has the log's name in its path, or a directory of a day
  that holds no file and no directory, or the log directory itself when that is empty. A directory that
  cannot be opened leaves everything as it is.
\<close>

theorem cleanup_removes_only_old_logs:
  assumes "find_directory_to_del_old_files dir file_name max_days now d = (ok, gone)" and "p \<in> set gone"
  shows "ok \<and> (\<exists>es. d = Some es \<and>
    ((\<exists>e. (p, e) \<in> set (listing dir es) \<and> outdated file_name max_days now p e) \<or> p = dir \<and> \<not> list_ex file_exists es))"
  using assms del_old_entries_outdated
  by (auto simp: find_directory_to_del_old_files_def split: option.splits if_splits)

theorem cleanup_removes_only_old_logs_witness:
  "find_directory_to_del_old_files ''ArtcLog'' ''IMachine'' 5 1000000
     (Some [Subdir ''.'' None, Subdir ''2024-07-04'' (Some [Reg ''IMachine_HB.log.1'' (Some 0), Reg ''IMachine_HB.log.2'' (Some 900000)])]) =
     (True, [''ArtcLog/2024-07-04/IMachine_HB.log.1'']) \<and>
   (\<exists>e. outdated ''IMachine'' 5 1000000 ''ArtcLog/2024-07-04/IMachine_HB.log.1'' e)"
proof -
  let ?d = "Some [Subdir ''.'' None, Subdir ''2024-07-04'' (Some [Reg ''IMachine_HB.log.1'' (Some 0), Reg ''IMachine_HB.log.2'' (Some 900000)])]"
  have f: "find_directory_to_del_old_files ''ArtcLog'' ''IMachine'' 5 1000000 ?d = (True, [''ArtcLog/2024-07-04/IMachine_HB.log.1''])"
    by code_simp
  show ?thesis
    using f cleanup_removes_only_old_logs [OF f, of "''ArtcLog/2024-07-04/IMachine_HB.log.1''"] by auto
qed

section \<open>What the log thread writes\<close>

text \<open>The texts written, to whichever handle: how often and in how many pieces. Which handle follows below.\<close>

definition written :: "syscall list \<Rightarrow> string list" where
  "written cs = concat (map (\<lambda>c. case c of Fwrite f t \<Rightarrow> [t] | _ \<Rightarrow> []) cs)"

lemma written_simps [simp]:
  "written [] = []"
  "written (c # cs) = (case c of Fwrite f t \<Rightarrow> [t] | _ \<Rightarrow> []) @ written cs"
  "written (cs @ ds) = written cs @ written ds"
  by (simp_all add: written_def)

definition same_log :: "mylog \<Rightarrow> mylog \<Rightarrow> bool" where
  "same_log l' l \<longleftrightarrow> log_data l' = log_data l \<and> log_write l' = log_write l \<and> log_buffer l' = log_buffer l \<and>
     log_head_line l' = log_head_line l \<and> log_head_end l' = log_head_end l \<and> log_path l' = log_path l"

lemma create_prefixes_silent: "create_prefixes K ps s = Inr (ok, s') \<Longrightarrow> written (calls s') = written (calls s)"
  by (induction ps arbitrary: s) (auto simp: case_prod_beta Let_def split: if_splits)

lemma open_log_silent:
  assumes "open_log K l s = Inr (l', s')"
  shows "written (calls s') = written (calls s) \<and> same_log l' l"
proof -
  obtain ok s1 where "createdirectory K (log_dir l) s = Inr (ok, s1)"
    using assms by (auto simp: open_log_def res_conv)
  then show ?thesis
    using assms create_prefixes_silent [of K _ s ok s1]
    by (auto simp: open_log_def createdirectory_def same_log_def case_prod_beta Let_def split: if_splits)
qed

lemma removes_silent: "written (calls (fold (\<lambda>p s. snd (do_sys K (Remove p) s)) ps s)) = written (calls s)"
  by (induction ps arbitrary: s) simp_all

lemma day_file_silent:
  assumes "day_file K dirs now ymd l s = Inr (ok, l', s')"
  shows "written (calls s') = written (calls s) \<and> same_log l' l"
proof -
  obtain y m d where y: "ymd = (y, m, d)"
    by (cases ymd)
  show ?thesis
  proof (cases "log_fp l")
    case None
    then obtain l1 s1 where o: "open_log K (l\<lparr>log_count := 1, log_year := y, log_mon := m, log_day := d\<rparr>) s = Inr (l1, s1)"
      and "s' = s1" "l' = l1 \<or> l' = l1\<lparr>isNew := True\<rparr>"
      using assms y by (auto simp: day_file_def res_conv split: if_splits)
    then show ?thesis
      using open_log_silent [OF o] by (auto simp: same_log_def)
  next
    case (Some fp)
    show ?thesis
    proof (cases "log_year l + log_mon l + log_day l = y + m + d")
      case True
      then show ?thesis
        using assms y Some by (simp add: day_file_def same_log_def)
    next
      case False
      define gone where "gone = snd (find_directory_to_del_old_files (log_path l) (log_name l) (log_days l) now dirs)"
      define s0 where "s0 = fold (\<lambda>p s. snd (do_sys K (Remove p) s)) gone (after K (Fclose fp) s)"
      have w: "written (calls s0) = written (calls s)"
        unfolding s0_def removes_silent by simp
      obtain l1 s1 where o: "open_log K (l\<lparr>log_count := 1, isNew := True, log_fp := None, log_year := y, log_mon := m, log_day := d\<rparr>) s0 = Inr (l1, s1)"
        and "s' = s1" "l' = l1 \<or> l' = l1\<lparr>isNew := True\<rparr>"
        using assms y Some False
        by (auto simp: day_file_def res_conv case_prod_beta Let_def s0_def gone_def split: if_splits)
      then show ?thesis
        using open_log_silent [OF o] w by (auto simp: same_log_def)
    qed
  qed
qed

lemma rotate_silent:
  "rotate_file fuel K ymd fp l s = Inr (ok, l', s') \<Longrightarrow> written (calls s') = written (calls s) \<and> same_log l' l"
proof (induction fuel arbitrary: fp l s)
  case (Suc fuel)
  obtain y m d where y: "ymd = (y, m, d)"
    by (cases ymd)
  show ?case
  proof (cases "LOG_USE_LIMIT \<le> answer K (Ftell fp) s")
    case False
    then show ?thesis
      using Suc.prems by (auto simp: case_prod_beta Let_def same_log_def)
  next
    case True
    let ?s = "after K (Fclose fp) (after K (Ftell fp) s)"
    let ?l = "l\<lparr>log_count := log_count l + 1, log_fp := None, log_year := y, log_mon := m, log_day := d\<rparr>"
    have e: "rotate_file (Suc fuel) K ymd fp l s = bindE (open_log K ?l ?s) (\<lambda>(l, s).
        case log_fp l of None \<Rightarrow> Inr (False, l, s) | Some fp \<Rightarrow> rotate_file fuel K ymd fp (l\<lparr>isNew := True\<rparr>) s)"
      using True unfolding y by (simp add: case_prod_beta Let_def)
    obtain l1 s1 where o: "open_log K ?l ?s = Inr (l1, s1)"
      and r: "(case log_fp l1 of None \<Rightarrow> Inr (False, l1, s1) | Some fp \<Rightarrow> rotate_file fuel K ymd fp (l1\<lparr>isNew := True\<rparr>) s1) = Inr (ok, l', s')"
      using Suc.prems unfolding e res_conv by auto
    have s: "written (calls s1) = written (calls s)" "same_log l1 l"
      using open_log_silent [OF o] by (simp_all add: same_log_def)
    show ?thesis
    proof (cases "log_fp l1")
      case None
      then show ?thesis using r s by simp
    next
      case (Some fp')
      then show ?thesis
        using r s Suc.IH [of fp' "l1\<lparr>isNew := True\<rparr>" s1] by (simp add: same_log_def)
    qed
  qed
qed simp

lemma write_data_writes:
  assumes "write_data K fp l s = (ok, l', s')"
  shows "\<exists>banner. banner \<in> {[], [log_head_line l]} \<and>
    (written (calls s') = written (calls s) @ banner @ [log_data l] \<and> log_write l' = log_write l \<or>
     \<not> ok \<and> written (calls s') = written (calls s) @ banner @ [log_head_end l] \<and> log_write l' = 0) \<and> log_buffer l' = log_buffer l"
proof -
  define banner where "banner = (if isNew l then [log_head_line l] else [])"
  define l1 where "l1 = (if isNew l then l\<lparr>isNew := False\<rparr> else l)"
  define s1 where "s1 = (if isNew l then after K (Fwrite fp (log_head_line l)) s else s)"
  have e: "written (calls s1) = written (calls s) @ banner" "log_data l1 = log_data l"
    "log_write l1 = log_write l" "log_buffer l1 = log_buffer l" "log_head_end l1 = log_head_end l"
    by (simp_all add: s1_def banner_def l1_def)
  have "(if isNew l then (l\<lparr>isNew := False\<rparr>, snd (do_sys K (Fwrite fp (log_head_line l)) s)) else (l, s)) = (l1, s1)"
    by (simp add: l1_def s1_def)
  then have w: "write_data K fp l s = (let (free_space, s) = get_free_space_mb K (log_path l1) s1
      in if free_space < LOG_MINIMUMSPACE
         then (False, l1\<lparr>log_write := 0\<rparr>, snd (do_sys K (Fwrite fp (log_head_end l1)) s))
         else let (r, s) = do_sys K (Fwrite fp (log_data l1)) s
              in if fst r \<noteq> int (length (log_data l1)) then (False, l1, s)
                 else (True, l1, snd (do_sys K (Fflush fp) s)))"
    by (simp add: write_data_def)
  obtain free s2 where g: "get_free_space_mb K (log_path l1) s1 = (free, s2)"
    by fastforce
  then have s2: "written (calls s2) = written (calls s1)"
    by (auto simp: get_free_space_mb_def case_prod_beta Let_def)
  have "written (calls s') = written (calls s) @ banner @ [log_data l] \<and> l' = l1 \<or>
     \<not> ok \<and> written (calls s') = written (calls s) @ banner @ [log_head_end l] \<and> l' = l1\<lparr>log_write := 0\<rparr>"
    using assms e s2 unfolding w g Let_def split_conv
    by (auto simp: case_prod_beta split: if_splits)
  moreover have "banner \<in> {[], [log_head_line l]}"
    by (simp add: banner_def)
  ultimately show ?thesis
    using e by (intro exI [of _ banner]) auto
qed

lemma log_thread_writes:
  assumes "log_thread_round fuel K dirs now t l s = Inr (l', s')" and "log_buffer l \<noteq> []" and "log_write l \<noteq> 0"
  shows "log_buffer l' = [] \<and> (\<exists>w. written (calls s') = written (calls s) @ w \<and>
    (w = [] \<and> log_fp l' = None \<or>
     (\<exists>banner\<in>{[], [log_head_line l]}. w = banner @ [log_buffer l] \<and> log_write l' = log_write l \<or>
        w = banner @ [log_head_end l] \<and> log_write l' = 0)))"
proof -
  define l0 where "l0 = l\<lparr>log_data := log_buffer l, log_buffer := []\<rparr>"
  obtain ok l1 where w: "write_to_file fuel K dirs now (year t, mon t, day t) l0 s = Inr (ok, l1, s')"
    and l': "l' = l1\<lparr>log_data := []\<rparr>"
    using assms by (auto simp: log_thread_round_def l0_def Let_def res_conv split: if_splits)
  obtain ok2 l2 s2 where d: "day_file K dirs now (year t, mon t, day t) l0 s = Inr (ok2, l2, s2)"
    using w by (auto simp: write_to_file_def res_conv)
  have d': "written (calls s2) = written (calls s)" "same_log l2 l0"
    using day_file_silent [OF d] by simp_all
  show ?thesis
  proof (cases "log_fp l2")
    case None
    then have "l1 = l2" "s' = s2"
      using w d by (auto simp: write_to_file_def)
    then show ?thesis
      using d' None l' by (auto simp: same_log_def l0_def)
  next
    case (Some fp)
    obtain ok3 l3 s3 where r: "rotate_file fuel K (year t, mon t, day t) fp l2 s2 = Inr (ok3, l3, s3)"
      using w d Some by (auto simp: write_to_file_def res_conv)
    have r': "written (calls s3) = written (calls s)" "same_log l3 l0"
      using rotate_silent [OF r] d' by (simp_all add: same_log_def)
    show ?thesis
    proof (cases "log_fp l3")
      case None
      then have "l1 = l3" "s' = s3"
        using w d Some r by (auto simp: write_to_file_def)
      then show ?thesis
        using r' None l' by (auto simp: same_log_def l0_def)
    next
      case (Some fp3)
      then have "write_data K fp3 l3 s3 = (ok, l1, s')"
        using w d r \<open>log_fp l2 = Some fp\<close> by (simp add: write_to_file_def)
      from write_data_writes [OF this] show ?thesis
        using r' l' by (auto simp: same_log_def l0_def)
    qed
  qed
qed


subsection \<open>The calls of a turn\<close>

definition run_calls :: "'w kernel \<Rightarrow> syscall list \<Rightarrow> 'w os \<Rightarrow> 'w os" where
  "run_calls K cs s = fold (after K) cs s"

lemma run_calls_simps [simp]:
  "run_calls K [] s = s" "run_calls K (c # cs) s = run_calls K cs (after K c s)"
  "run_calls K (cs @ ds) s = run_calls K ds (run_calls K cs s)"
  by (simp_all add: run_calls_def)

definition no_write :: "syscall list \<Rightarrow> bool" where
  "no_write cs \<longleftrightarrow> (\<forall>f t. Fwrite f t \<notin> set cs)"

lemma no_write_simps [simp]:
  "no_write []" "no_write (c # cs) \<longleftrightarrow> (\<forall>f t. c \<noteq> Fwrite f t) \<and> no_write cs"
  "no_write (cs @ ds) \<longleftrightarrow> no_write cs \<and> no_write ds"
  by (auto simp: no_write_def)

text \<open>
  The calls \<open>pre\<close> settle on the open handle \<open>fp\<close> and write nothing: there are none and it was open, or the last of them opens the
  file of the log's day and number and is answered with \<open>fp\<close>.
\<close>

definition file_selected :: "'w kernel \<Rightarrow> 'w os \<Rightarrow> syscall list \<Rightarrow> int \<Rightarrow> mylog \<Rightarrow> bool" where
  "file_selected K s pre fp l \<longleftrightarrow> no_write pre \<and> log_fp l = Some fp \<and>
     (pre = [] \<or> (\<exists>q. pre = q @ [Fopen (log_file_name l)] \<and> 0 \<le> fp \<and>
        answer K (Fopen (log_file_name l)) (run_calls K q s) = fp))"

text \<open>A step that may change the file: what it calls, and that a new file is marked as new.\<close>

definition selects :: "'w kernel \<Rightarrow> mylog \<Rightarrow> 'w os \<Rightarrow> syscall list \<Rightarrow> mylog \<Rightarrow> bool" where
  "selects K l s pre l' \<longleftrightarrow> (\<exists>fp. file_selected K s pre fp l') \<and> (pre = [] \<longrightarrow> l' = l) \<and> (pre \<noteq> [] \<longrightarrow> isNew l') \<and> same_log l' l"

lemma selects_append:
  assumes "selects K l s pre l1" and "selects K l1 (run_calls K pre s) pre2 l2"
  shows "selects K l s (pre @ pre2) l2"
proof (cases "pre2 = []")
  case True
  then show ?thesis
    using assms by (simp add: selects_def)
next
  case False
  then show ?thesis
    using assms by (fastforce simp: selects_def file_selected_def same_log_def)
qed

lemma create_prefixes_runs:
  "create_prefixes K ps s = Inr (ok, s') \<Longrightarrow> \<exists>q. no_write q \<and> s' = run_calls K q s"
proof (induction ps arbitrary: s)
  case Nil
  then show ?case
    by (intro exI [of _ "[]"]) simp
next
  case (Cons p ps)
  consider q where "no_write q" "s' = run_calls K q (after K (Access p) s)"
    | q where "no_write q" "s' = run_calls K q (after K (Mkdir p) (after K (Access p) s))"
    | "s' = after K (Mkdir p) (after K (Access p) s)"
    using Cons.prems Cons.IH [of "after K (Access p) s"] Cons.IH [of "after K (Mkdir p) (after K (Access p) s)"]
    by (auto simp: case_prod_beta Let_def split: if_splits)
  then show ?case
  proof cases
    case (1 q)
    then show ?thesis by (intro exI [of _ "Access p # q"]) simp
  next
    case (2 q)
    then show ?thesis by (intro exI [of _ "Access p # Mkdir p # q"]) simp
  next
    case 3
    then show ?thesis by (intro exI [of _ "[Access p, Mkdir p]"]) simp
  qed
qed

lemma open_log_runs:
  assumes "open_log K l s = Inr (l', s')" and "log_fp l' = Some fp"
  shows "\<exists>q. no_write q \<and> s' = run_calls K (q @ [Fopen (log_file_name l)]) s \<and> l' = l\<lparr>log_fp := Some fp\<rparr> \<and> 0 \<le> fp \<and>
    answer K (Fopen (log_file_name l)) (run_calls K q s) = fp"
proof -
  obtain ok s1 where c: "createdirectory K (log_dir l) s = Inr (ok, s1)"
    using assms(1) by (auto simp: open_log_def res_conv)
  have ok: "ok" and l': "l' = l\<lparr>log_fp := Some fp\<rparr>" "s' = after K (Fopen (log_file_name l)) s1"
    "answer K (Fopen (log_file_name l)) s1 = fp" "0 \<le> fp"
    using assms c by (auto simp: open_log_def case_prod_beta Let_def split: if_splits)
  then have "create_prefixes K (filter (\<lambda>p. last p \<in> {CHR 0x5C, CHR ''/''})
      (map (\<lambda>i. take (Suc i) (log_dir l)) [0..<length (log_dir l)])) s = Inr (ok, s1)"
    using c by (auto simp: createdirectory_def split: if_splits)
  then obtain q where "no_write q" "s1 = run_calls K q s"
    using create_prefixes_runs by blast
  then show ?thesis
    using l' by (intro exI [of _ q]) simp
qed

lemma removes_run: "fold (\<lambda>p. after K (Remove p)) ps s = run_calls K (map Remove ps) s"
  by (induction ps arbitrary: s) simp_all

lemma no_write_removes [simp]: "no_write (map Remove ps)"
  by (auto simp: no_write_def)

lemma log_file_name_cong [simp]:
  "log_file_name (l\<lparr>isNew := b\<rparr>) = log_file_name l" "log_file_name (l\<lparr>log_fp := x\<rparr>) = log_file_name l"
  "log_file_name (l\<lparr>log_data := d\<rparr>) = log_file_name l"
  by (simp_all add: log_file_name_def log_dir_def log_date_def)

text \<open>Opening after the calls \<open>pre\<close>, from the log \<open>l1\<close>, selects the new file.\<close>

lemma open_selects:
  assumes "open_log K l1 (run_calls K pre s) = Inr (l2, s2)" and "log_fp l2 = Some fp" and "no_write pre" and "same_log l1 l"
  shows "\<exists>q. s2 = run_calls K q s \<and> selects K l s q (l2\<lparr>isNew := True\<rparr>)"
proof -
  obtain q where q: "no_write q" "s2 = run_calls K (q @ [Fopen (log_file_name l1)]) (run_calls K pre s)" "l2 = l1\<lparr>log_fp := Some fp\<rparr>"
    "0 \<le> fp" "answer K (Fopen (log_file_name l1)) (run_calls K q (run_calls K pre s)) = fp"
    using open_log_runs [OF assms(1,2)] by blast
  then show ?thesis
    using assms(3,4)
    by (intro exI [of _ "pre @ q @ [Fopen (log_file_name l1)]"])
      (auto simp: selects_def file_selected_def same_log_def intro!: exI [of _ "pre @ q"])
qed

lemma day_file_runs:
  assumes "day_file K dirs now ymd l s = Inr (ok, l', s')" and "log_fp l' \<noteq> None"
  shows "\<exists>pre. s' = run_calls K pre s \<and> selects K l s pre l'"
proof -
  obtain y m d where y: "ymd = (y, m, d)"
    by (cases ymd)
  let ?l = "l\<lparr>log_count := 1, log_year := y, log_mon := m, log_day := d\<rparr>"
  consider "log_fp l = None" | fp where "log_fp l = Some fp" "log_year l + log_mon l + log_day l = y + m + d"
    | fp where "log_fp l = Some fp" "log_year l + log_mon l + log_day l \<noteq> y + m + d"
    by (cases "log_fp l") auto
  then show ?thesis
  proof cases
    case 1
    then obtain l1 where "open_log K ?l (run_calls K [] s) = Inr (l1, s')" and "log_fp l1 \<noteq> None" and "l' = l1\<lparr>isNew := True\<rparr>"
      using assms y by (auto simp: day_file_def res_conv split: if_splits)
    then show ?thesis
      using open_selects [of K ?l "[]" s l1 s'] by (auto simp: same_log_def)
  next
    case 2
    then have "l' = l" and "s' = s"
      using assms(1) y by (simp_all add: day_file_def)
    then show ?thesis
      using 2(1) by (intro exI [of _ "[]"]) (simp add: selects_def file_selected_def same_log_def)
  next
    case (3 fp)
    define gone where "gone = snd (find_directory_to_del_old_files (log_path l) (log_name l) (log_days l) now dirs)"
    let ?l1 = "l\<lparr>log_count := 1, isNew := True, log_fp := None, log_year := y, log_mon := m, log_day := d\<rparr>"
    obtain l1 where "open_log K ?l1 (run_calls K (Fclose fp # map Remove gone) s) = Inr (l1, s')" and "log_fp l1 \<noteq> None"
      and "l' = l1\<lparr>isNew := True\<rparr>"
      using assms y 3 by (auto simp: day_file_def res_conv case_prod_beta Let_def gone_def removes_run split: if_splits)
    then show ?thesis
      using open_selects [of K ?l1 "Fclose fp # map Remove gone" s l1 s'] by (auto simp: same_log_def)
  qed
qed

lemma rotate_runs:
  assumes "rotate_file fuel K ymd fp l s = Inr (ok, l', s')" and "log_fp l = Some fp" and "log_fp l' = Some fp'"
  shows "\<exists>pre. s' = run_calls K (pre @ [Ftell fp']) s \<and> selects K l s pre l'"
  using assms
proof (induction fuel arbitrary: fp l s)
  case (Suc fuel)
  obtain y m d where y: "ymd = (y, m, d)"
    by (cases ymd)
  show ?case
  proof (cases "LOG_USE_LIMIT \<le> answer K (Ftell fp) s")
    case False
    then have "l' = l" and "s' = after K (Ftell fp) s"
      using Suc.prems(1) by (simp_all add: case_prod_beta Let_def)
    then show ?thesis
      using Suc.prems(2,3) by (intro exI [of _ "[]"]) (simp add: selects_def file_selected_def same_log_def)
  next
    case True
    let ?l = "l\<lparr>log_count := log_count l + 1, log_fp := None, log_year := y, log_mon := m, log_day := d\<rparr>"
    have e: "rotate_file (Suc fuel) K ymd fp l s = bindE (open_log K ?l (run_calls K [Ftell fp, Fclose fp] s)) (\<lambda>(l, s).
        case log_fp l of None \<Rightarrow> Inr (False, l, s) | Some fp \<Rightarrow> rotate_file fuel K ymd fp (l\<lparr>isNew := True\<rparr>) s)"
      using True unfolding y by (simp add: case_prod_beta Let_def)
    obtain l1 s1 where o: "open_log K ?l (run_calls K [Ftell fp, Fclose fp] s) = Inr (l1, s1)"
      and r: "(case log_fp l1 of None \<Rightarrow> Inr (False, l1, s1) | Some fp \<Rightarrow> rotate_file fuel K ymd fp (l1\<lparr>isNew := True\<rparr>) s1) = Inr (ok, l', s')"
      using Suc.prems(1) unfolding e res_conv by auto
    then obtain fp1 where fp1: "log_fp l1 = Some fp1"
      using Suc.prems(3) by (cases "log_fp l1") auto
    obtain q where q: "s1 = run_calls K q s" "selects K l s q (l1\<lparr>isNew := True\<rparr>)"
      using open_selects [OF o fp1, of l] by (auto simp: same_log_def)
    have "rotate_file fuel K ymd fp1 (l1\<lparr>isNew := True\<rparr>) s1 = Inr (ok, l', s')" and "log_fp (l1\<lparr>isNew := True\<rparr>) = Some fp1"
      using r fp1 by simp_all
    from Suc.IH [OF this Suc.prems(3)] obtain pre where "s' = run_calls K (pre @ [Ftell fp']) s1" "selects K (l1\<lparr>isNew := True\<rparr>) s1 pre l'"
      by blast
    then show ?thesis
      using selects_append [OF q(2), of pre l'] q(1) by (intro exI [of _ "q @ pre"]) simp
  qed
qed simp

text \<open>What \<open>write_data\<close> asks for when there is room: the banner for a new file, the data in one piece, and a flush if all of it was taken.\<close>

definition write_calls :: "'w kernel \<Rightarrow> int \<Rightarrow> bool \<Rightarrow> mylog \<Rightarrow> string \<Rightarrow> 'w os \<Rightarrow> 'w os" where
  "write_calls K fp new l text s =
     (let s = run_calls K ((if new then [Fwrite fp (log_head_line l)] else []) @ [Statvfs (log_path l)]) s
      in run_calls K (Fwrite fp text # (if answer K (Fwrite fp text) s = int (length text) then [Fflush fp] else [])) s)"

lemma write_data_runs:
  assumes "write_data K fp l s = (ok, l', s')" and "log_write l' \<noteq> 0"
  shows "l' = l\<lparr>isNew := False\<rparr> \<and> s' = write_calls K fp (isNew l) l (log_data l) s"
proof -
  have "l\<lparr>isNew := False\<rparr> = l" if "\<not> isNew l"
    using that by (cases l) simp
  then show ?thesis
    using assms
    by (cases "isNew l")
      (auto simp: write_data_def write_calls_def get_free_space_mb_def case_prod_beta Let_def split: if_splits)
qed

lemma log_thread_calls:
  assumes "log_thread_round fuel K dirs now t l s = Inr (l', s')" and "log_buffer l \<noteq> []" and "log_write l \<noteq> 0"
    and "log_fp l' = Some fp" and "log_write l' \<noteq> 0"
  shows "log_buffer l' = [] \<and> \<not> isNew l' \<and> (\<exists>pre. file_selected K s pre fp l' \<and> (pre = [] \<longrightarrow> log_fp l = Some fp) \<and>
    s' = write_calls K fp (isNew l \<or> pre \<noteq> []) l (log_buffer l) (run_calls K (pre @ [Ftell fp]) s))"
proof -
  define l0 where "l0 = l\<lparr>log_data := log_buffer l, log_buffer := []\<rparr>"
  obtain ok l1 where w: "write_to_file fuel K dirs now (year t, mon t, day t) l0 s = Inr (ok, l1, s')"
    and l': "l' = l1\<lparr>log_data := []\<rparr>"
    using assms(1-3) by (auto simp: log_thread_round_def l0_def Let_def res_conv split: if_splits)
  obtain ok2 l2 s2 where d: "day_file K dirs now (year t, mon t, day t) l0 s = Inr (ok2, l2, s2)"
    using w by (auto simp: write_to_file_def res_conv)
  have fp1: "log_fp l1 = Some fp" "log_write l1 \<noteq> 0"
    using assms(4,5) l' by simp_all
  obtain fp2 where fp2: "log_fp l2 = Some fp2"
    using w d fp1(1) by (cases "log_fp l2") (auto simp: write_to_file_def)
  obtain ok3 l3 s3 where r: "rotate_file fuel K (year t, mon t, day t) fp2 l2 s2 = Inr (ok3, l3, s3)"
    using w d fp2 by (auto simp: write_to_file_def res_conv)
  obtain fp3 where fp3: "log_fp l3 = Some fp3"
    using w d r fp2 fp1(1) by (cases "log_fp l3") (auto simp: write_to_file_def)
  have wd: "write_data K fp3 l3 s3 = (ok, l1, s')"
    using w d r fp2 fp3 by (simp add: write_to_file_def)
  have wr: "l1 = l3\<lparr>isNew := False\<rparr>" "s' = write_calls K fp3 (isNew l3) l3 (log_data l3) s3"
    using write_data_runs [OF wd fp1(2)] by blast+
  then have "fp3 = fp"
    using fp1(1) fp3 by simp
  obtain p1 where p1: "s2 = run_calls K p1 s" "selects K l0 s p1 l2"
    using day_file_runs [OF d] fp2 by auto
  obtain p2 where p2: "s3 = run_calls K (p2 @ [Ftell fp]) s2" "selects K l2 s2 p2 l3"
    using rotate_runs [OF r fp2 fp3] \<open>fp3 = fp\<close> by auto
  have sel: "selects K l0 s (p1 @ p2) l3"
    using selects_append [OF p1(2)] p1(1) p2(2) by simp
  then have new: "isNew l3 = (isNew l \<or> p1 @ p2 \<noteq> [])" and same: "same_log l3 l0"
    by (auto simp: selects_def l0_def)
  have "file_selected K s (p1 @ p2) fp l'"
    using sel \<open>fp3 = fp\<close> fp3 by (auto simp: selects_def file_selected_def l' wr(1))
  moreover have "p1 @ p2 = [] \<longrightarrow> log_fp l = Some fp"
    using sel fp3 \<open>fp3 = fp\<close> by (auto simp: selects_def l0_def)
  moreover have "write_calls K fp b l3 (log_data l3) = write_calls K fp b l (log_buffer l)" for b
    using same by (simp add: write_calls_def same_log_def l0_def fun_eq_iff)
  ultimately show ?thesis
    using wr new same p1(1) p2(1) \<open>fp3 = fp\<close>
    by (intro conjI exI [of _ "p1 @ p2"]) (simp_all add: l' same_log_def l0_def)
qed

text \<open>A call of \<open>log_message\<close>, the line it makes, and whether its level is logged.\<close>

record log_call =
  call_level :: int
  call_pid :: nat
  call_time :: string
  call_file :: string
  call_line :: nat
  call_func :: string
  call_text :: string

definition log_one :: "log_call \<Rightarrow> mylog \<Rightarrow> mylog res" where
  "log_one c = log_try_append (call_level c) (call_pid c) (call_time c) (call_file c) (call_line c) (call_func c) (call_text c)"

definition line_of :: "log_call \<Rightarrow> string" where
  "line_of c = line_stamp (the (level_tag (call_level c))) (call_time c) (call_pid c) @
     (if call_level c = 3 then call_file c @ '':'' @ dec_nat (call_line c) @ ''('' @ call_func c @ '') '' else []) @ call_text c"

definition is_logged :: "mylog \<Rightarrow> log_call \<Rightarrow> bool" where
  "is_logged l c \<longleftrightarrow> level_tag (call_level c) \<noteq> None \<and> log_level l \<le> call_level c"

definition logged_text :: "mylog \<Rightarrow> log_call list \<Rightarrow> string" where
  "logged_text l cs = concat (map (\<lambda>c. line_of c @ delim) (filter (is_logged l) cs))"

lemma log_one_ok:
  assumes "length (line_of c) < LOG_LEN_LIMIT" and "length (log_buffer l) + length (logged_text l [c]) < LOG_BUF_USE_LIMIT"
  shows "log_one c l = Inr (l\<lparr>log_buffer := log_buffer l @ logged_text l [c]\<rparr>)"
proof (cases "is_logged l c")
  case True
  then obtain tag where t: "level_tag (call_level c) = Some tag" "\<not> call_level c < log_level l"
    by (auto simp: is_logged_def)
  let ?stamp = "line_stamp tag (call_time c) (call_pid c) @
    (if call_level c = 3 then call_file c @ '':'' @ dec_nat (call_line c) @ ''('' @ call_func c @ '') '' else [])"
  have l: "?stamp @ call_text c = line_of c"
    by (simp add: line_of_def t(1))
  have "length ?stamp \<le> length (line_of c)"
    unfolding l [symmetric] by simp
  with assms(1) have "\<not> LOG_LEN_LIMIT < length ?stamp"
    by linarith
  moreover have "log_line_text ?stamp (call_text c) = line_of c"
    using log_line_text_short [of ?stamp "call_text c"] assms(1) unfolding l by blast
  ultimately have "log_one c l = try_append (line_of c) l"
    unfolding log_one_def log_try_append_def using t by (simp add: Let_def)
  then show ?thesis
    using assms True by (simp add: try_append_def logged_text_def)
next
  case False
  then have "logged_text l [c] = []" and "log_one c l = Inr l"
    by (auto simp: logged_text_def log_one_def log_try_append_def is_logged_def split: option.split)
  then show ?thesis
    by simp
qed

lemma logged_text_Cons: "logged_text l (c # cs) = logged_text l [c] @ logged_text l cs"
  by (simp add: logged_text_def)

lemma logged_text_buffer [simp]: "logged_text (l\<lparr>log_buffer := b\<rparr>) cs = logged_text l cs"
proof -
  have "is_logged (l\<lparr>log_buffer := b\<rparr>) = is_logged l"
    by (simp add: is_logged_def fun_eq_iff)
  then show ?thesis
    by (simp add: logged_text_def)
qed

lemma log_all_ok:
  "\<forall>c\<in>set cs. length (line_of c) < LOG_LEN_LIMIT \<Longrightarrow>
   length (log_buffer l) + length (logged_text l cs) < LOG_BUF_USE_LIMIT \<Longrightarrow>
   foldE log_one cs l = Inr (l\<lparr>log_buffer := log_buffer l @ logged_text l cs\<rparr>)"
proof (induction cs arbitrary: l)
  case Nil
  then show ?case by (simp add: logged_text_def)
next
  case (Cons c cs)
  have "log_one c l = Inr (l\<lparr>log_buffer := log_buffer l @ logged_text l [c]\<rparr>)"
    using Cons.prems by (intro log_one_ok) (simp_all add: logged_text_Cons [of l c cs])
  then show ?case
    using Cons.IH [of "l\<lparr>log_buffer := log_buffer l @ logged_text l [c]\<rparr>"] Cons.prems
    by (simp add: logged_text_Cons [of l c cs])
qed

text \<open>
  A turn of the log thread takes the whole buffer and writes it once: to the files go at most the
  banner of a new file followed by exactly the bytes taken, or by the notice that the disk is full, after
  which writing stays switched off; nothing is written when no file can be opened. No answer of the
  kernel makes it write the data twice or in parts.
\<close>

theorem log_thread_writes_once:
  assumes "log_thread_round fuel K dirs now t l s = Inr (l', s')" and "log_buffer l \<noteq> []" and "log_write l \<noteq> 0"
  shows "log_buffer l' = [] \<and> (\<exists>w. written (calls s') = written (calls s) @ w \<and>
    (w = [] \<and> log_fp l' = None \<or>
     (\<exists>banner\<in>{[], [log_head_line l]}. w = banner @ [log_buffer l] \<and> log_write l' = log_write l \<or>
        w = banner @ [log_head_end l] \<and> log_write l' = 0)))"
  using log_thread_writes [OF assms] .

text \<open>
  C25. What the threads log is handed to the log file: a series of messages with lines that fit their array and together
  the buffer leaves in the buffer exactly the lines of those at or above the log's level, in order, each ended
  by a newline; and the next turn of the log thread, if it ends with a file open and with room on the disk, settles on that file, which was
  open or is opened, under the log's name of the day, by the last call before, and then writes to this file and no other: the banner exactly when the file is new to the log, then
  all of these lines in one piece, followed by a flush if the file system took all of it. If it took less, the rest is lost: the
  buffer is empty in any case.
\<close>

theorem logged_lines_reach_file:
  assumes "\<forall>c\<in>set cs. length (line_of c) < LOG_LEN_LIMIT"
    and "length (log_buffer l) + length (logged_text l cs) < LOG_BUF_USE_LIMIT"
    and "log_write l \<noteq> 0" and "log_buffer l @ logged_text l cs \<noteq> []"
  shows "\<exists>l1. foldE log_one cs l = Inr l1 \<and> log_buffer l1 = log_buffer l @ logged_text l cs \<and>
    (\<forall>l' s' fp. log_thread_round fuel K dirs now t l1 s = Inr (l', s') \<and> log_fp l' = Some fp \<and> log_write l' \<noteq> 0 \<longrightarrow>
       log_buffer l' = [] \<and> \<not> isNew l' \<and>
       (\<exists>pre. file_selected K s pre fp l' \<and> (pre = [] \<longrightarrow> log_fp l = Some fp) \<and>
          s' = write_calls K fp (isNew l \<or> pre \<noteq> []) l (log_buffer l @ logged_text l cs) (run_calls K (pre @ [Ftell fp]) s)))"
proof -
  let ?l1 = "l\<lparr>log_buffer := log_buffer l @ logged_text l cs\<rparr>"
  have "log_buffer ?l1 \<noteq> []" and "log_write ?l1 \<noteq> 0"
    using assms(3,4) by simp_all
  note w = log_thread_calls [OF _ this]
  have wc: "write_calls K fp b ?l1 = write_calls K fp b l" for fp b
    by (simp add: write_calls_def fun_eq_iff)
  have "log_buffer l' = [] \<and> \<not> isNew l' \<and> (\<exists>pre. file_selected K s pre fp l' \<and> (pre = [] \<longrightarrow> log_fp l = Some fp) \<and>
      s' = write_calls K fp (isNew l \<or> pre \<noteq> []) l (log_buffer l @ logged_text l cs) (run_calls K (pre @ [Ftell fp]) s))"
    if "log_thread_round fuel K dirs now t ?l1 s = Inr (l', s')" "log_fp l' = Some fp" "log_write l' \<noteq> 0" for l' s' fp
    using w [OF that] unfolding wc by simp
  then show ?thesis
    using log_all_ok [OF assms(1,2)] by (intro exI [of _ ?l1]) simp
qed

definition log_kernel :: "unit kernel" where
  "log_kernel c w = ((case c of Ftell f \<Rightarrow> 100 | Statvfs p \<Rightarrow> 10 ^ 9 | Fwrite f t \<Rightarrow> int (length t) | _ \<Rightarrow> 0, []), w)"

definition example_clock :: utc_timer where
  "example_clock = \<lparr>year = 2024, mon = 7, day = 4, hour = 15, minute = 3, sec = 10, msec = 7, sys_sec = 0, sys_min = 0\<rparr>"

theorem log_thread_writes_once_witness:
  "\<exists>l' s'. log_thread_round 3 log_kernel None 0 example_clock (example_log\<lparr>log_buffer := ''hello''\<rparr>) \<lparr>world = (), calls = []\<rparr> = Inr (l', s') \<and>
    log_buffer l' = [] \<and> written (calls s') \<noteq> []"
proof -
  have "\<exists>l' s'. log_thread_round 3 log_kernel None 0 example_clock (example_log\<lparr>log_buffer := ''hello''\<rparr>) \<lparr>world = (), calls = []\<rparr> = Inr (l', s') \<and> log_fp l' = Some 7"
    by (simp add: log_thread_round_def write_to_file_def day_file_def example_clock_def example_log_def
        numeral_3_eq_3 LOG_USE_LIMIT_def write_data_def get_free_space_mb_def LOG_MINIMUMSPACE_def
        do_sys_def log_kernel_def Let_def)
  then obtain l' s' where r: "log_thread_round 3 log_kernel None 0 example_clock (example_log\<lparr>log_buffer := ''hello''\<rparr>) \<lparr>world = (), calls = []\<rparr> = Inr (l', s')"
    and f: "log_fp l' = Some 7"
    by blast
  show ?thesis
    using r f log_thread_writes_once [OF r] by (auto simp: example_log_def)
qed

theorem logged_lines_reach_file_witness:
  "\<exists>l1 l' s'. foldE log_one
      [\<lparr>call_level = 1, call_pid = 77, call_time = ''15:03:10.007'', call_file = [], call_line = 0, call_func = [], call_text = ''up''\<rparr>,
       \<lparr>call_level = 0, call_pid = 77, call_time = ''15:03:10.008'', call_file = [], call_line = 0, call_func = [], call_text = ''trace''\<rparr>]
      example_log = Inr l1 \<and> log_thread_round 3 log_kernel None 0 example_clock l1 \<lparr>world = (), calls = []\<rparr> = Inr (l', s') \<and>
    (\<exists>pre. file_selected log_kernel \<lparr>world = (), calls = []\<rparr> pre 7 l' \<and>
       Fwrite 7 (''[ INFO  ][15:03:10.007][    77] up'' @ delim) \<in> set (calls s'))"
proof -
  let ?up = "\<lparr>call_level = 1, call_pid = 77, call_time = ''15:03:10.007'', call_file = [], call_line = 0, call_func = [], call_text = ''up''\<rparr>"
  let ?tr = "\<lparr>call_level = 0, call_pid = 77, call_time = ''15:03:10.008'', call_file = [], call_line = 0, call_func = [], call_text = ''trace''\<rparr>"
  let ?s = "\<lparr>world = (), calls = []\<rparr>"
  have up: "line_of ?up = ''[ INFO  ][15:03:10.007][    77] up''" and tr: "length (line_of ?tr) < LOG_LEN_LIMIT"
    by code_simp+
  have l: "\<forall>c\<in>set [?up, ?tr]. length (line_of c) < LOG_LEN_LIMIT"
    using tr by (simp add: up) (simp add: LOG_LEN_LIMIT_def)
  have t: "logged_text example_log [?up, ?tr] = ''[ INFO  ][15:03:10.007][    77] up'' @ delim"
    by (simp add: logged_text_def is_logged_def level_tag_def example_log_def up)
  have b: "length (log_buffer example_log) + length (logged_text example_log [?up, ?tr]) < LOG_BUF_USE_LIMIT"
    "log_write example_log \<noteq> 0" "log_buffer example_log @ logged_text example_log [?up, ?tr] \<noteq> []"
    unfolding t by (simp_all add: example_log_def delim_def LOG_BUF_USE_LIMIT_def)
  from logged_lines_reach_file [OF l b, of 3 log_kernel None 0 example_clock ?s]
  obtain l1 where l1: "foldE log_one [?up, ?tr] example_log = Inr l1"
    and all: "\<forall>l' s' fp. log_thread_round 3 log_kernel None 0 example_clock l1 ?s = Inr (l', s') \<and> log_fp l' = Some fp \<and> log_write l' \<noteq> 0 \<longrightarrow>
       log_buffer l' = [] \<and> \<not> isNew l' \<and>
       (\<exists>pre. file_selected log_kernel ?s pre fp l' \<and> (pre = [] \<longrightarrow> log_fp example_log = Some fp) \<and>
          s' = write_calls log_kernel fp (isNew example_log \<or> pre \<noteq> []) example_log
            (log_buffer example_log @ logged_text example_log [?up, ?tr]) (run_calls log_kernel (pre @ [Ftell fp]) ?s))"
    by auto
  have e: "l1 = example_log\<lparr>log_buffer := logged_text example_log [?up, ?tr]\<rparr>"
    using log_all_ok [OF l b(1)] l1 by (simp add: example_log_def)
  have run: "\<exists>l' s'. log_thread_round 3 log_kernel None 0 example_clock (example_log\<lparr>log_buffer := b\<rparr>) ?s = Inr (l', s') \<and>
      log_fp l' = Some 7 \<and> log_write l' = 1" if "b \<noteq> []" for b
    using that by (simp add: log_thread_round_def write_to_file_def day_file_def example_clock_def example_log_def
        numeral_3_eq_3 LOG_USE_LIMIT_def write_data_def get_free_space_mb_def LOG_MINIMUMSPACE_def
        do_sys_def log_kernel_def Let_def)
  have "logged_text example_log [?up, ?tr] \<noteq> []"
    unfolding t by simp
  from run [OF this] obtain l' s' where
    r: "log_thread_round 3 log_kernel None 0 example_clock l1 ?s = Inr (l', s')" "log_fp l' = Some 7" "log_write l' = 1"
    unfolding e by blast
  then obtain pre where pre: "file_selected log_kernel ?s pre 7 l'"
    and s': "s' = write_calls log_kernel 7 (isNew example_log \<or> pre \<noteq> []) example_log
      (log_buffer example_log @ logged_text example_log [?up, ?tr]) (run_calls log_kernel (pre @ [Ftell 7]) ?s)"
    using all by fastforce
  have "log_buffer example_log = []"
    by (simp add: example_log_def)
  then have "Fwrite 7 (''[ INFO  ][15:03:10.007][    77] up'' @ delim) \<in> set (calls s')"
    unfolding s' t by (simp add: write_calls_def Let_def)
  then show ?thesis
    using l1 r(1) pre by blast
qed

end
