(* ===== verification/Startup.thy ===== *)
theory Startup
  imports Threads Receive IniSave Logging
begin

text \<open>
  The start of the process: \<open>main\<close> (src/main.cpp), and \<open>ReadCfg\<close>, \<open>Init\<close>, \<open>Start\<close> and the destructor of
  the lane controller (src/IMachine.cpp). Here the components meet: the configuration decides which
  pins, connections and display are built, and the object that results is the one whose invariant
  \<open>machine_ok\<close> the other theories assume.

  A pointer member that was never assigned is \<open>None\<close>. The first log message of the process, at the head
  of \<open>ReadCfg\<close>, creates the log, which loads the configuration again (theory \<open>Log_Message\<close>). The parameters
  are the kernel, what \<open>CreatComm\<close> answers the display and the bytes of an uninitialised list node.
\<close>

section \<open>The code\<close>

record config =
  I1 :: int
  I2 :: int
  I3 :: int
  I4 :: int
  O1 :: int
  O2 :: int
  O3 :: int
  O4 :: int
  TcpPort1 :: int
  TcpPort2 :: int
  Dev :: string
  port :: int
  Uart1 :: string

definition read_config :: "inifile \<Rightarrow> config" where
  "read_config f =
     \<lparr>I1 = GetIntValue f ''IOCardIn'' ''VehicleDevice1'' 1,
      I2 = GetIntValue f ''IOCardIn'' ''VehicleDevice2'' 2,
      I3 = GetIntValue f ''IOCardIn'' ''VehicleDevice3'' 3,
      I4 = GetIntValue f ''IOCardIn'' ''ManualSwitch'' 4,
      O1 = GetIntValue f ''IOCardOut'' ''Balustrade_up'' 1,
      O2 = GetIntValue f ''IOCardOut'' ''Balustrade_down'' 2,
      O3 = GetIntValue f ''IOCardOut'' ''TrafficLed'' 1,
      O4 = GetIntValue f ''IOCardOut'' ''FlashLight'' 2,
      TcpPort1 = GetIntValue f ''socket'' ''RobortPort'' 5000,
      TcpPort2 = GetIntValue f ''socket'' ''ManualPort'' 5001,
      Dev = GetStringValue f ''Serial'' ''Serial'' ''/dev/ttyS0'',
      port = GetIntValue f ''Serial'' ''baudRate'' 9600,
      Uart1 = GetStringValue f ''Serial'' ''Led'' ''/dev/ttyS5''\<rparr>"

text \<open>\<open>new Gpio (p, mode)\<close>, stored by \<open>upd\<close>.\<close>

definition new_pin ::
  "'w kernel \<Rightarrow> int \<Rightarrow> string \<Rightarrow> (gpio \<Rightarrow> ('c, 'w) machine \<Rightarrow> ('c, 'w) machine) \<Rightarrow>
   ('c, 'w) machine \<Rightarrow> ('c, 'w) machine res" where
  "new_pin K p dir upd m =
     bindE (Gpio_new K p dir (machine_os m)) (\<lambda>(g, s). Inr (upd g (m\<lparr>machine_os := s\<rparr>)))"

definition new_pins :: "'w kernel \<Rightarrow> config \<Rightarrow> ('c, 'w) machine \<Rightarrow> ('c, 'w) machine res" where
  "new_pins K c m =
     bindE (new_pin K (I1 c) ''in'' (\<lambda>g m. m\<lparr>VehicleDevice1 := g\<rparr>) m) (\<lambda>m.
     bindE (new_pin K (I2 c) ''in'' (\<lambda>g m. m\<lparr>VehicleDevice2 := g\<rparr>) m) (\<lambda>m.
     bindE (new_pin K (I3 c) ''in'' (\<lambda>g m. m\<lparr>VehicleDevice3 := g\<rparr>) m) (\<lambda>m.
     bindE (new_pin K (I4 c) ''in'' (\<lambda>g m. m\<lparr>ManualSwitch := g\<rparr>) m) (\<lambda>m.
     bindE (new_pin K (O1 c) ''out'' (\<lambda>g m. m\<lparr>Balustrade_up := g\<rparr>) m) (\<lambda>m.
     bindE (new_pin K (O2 c) ''out'' (\<lambda>g m. m\<lparr>Balustrade_down := g\<rparr>) m) (\<lambda>m.
     new_pin K (O3 c) ''out'' (\<lambda>g m. m\<lparr>TrafficPin := g\<rparr>) m))))))"

definition ReadCfg ::
  "'w kernel \<Rightarrow> Node_Data \<Rightarrow> inifile \<Rightarrow> ('c, 'w) machine \<Rightarrow> (bool \<times> config \<times> ('c, 'w) machine) res" where
  "ReadCfg K junk f m =
     (let c = read_config f
      in bindE (new_pins K c m) (\<lambda>m.
         let m = m\<lparr>communication := GetIntValue f ''Serial'' ''communication'' 0,
                   LedMode := GetIntValue f ''Serial'' ''LedMode'' 0,
                   Client1 := GetStringValue f ''Clients'' ''Client1'' ''192.168.1.2'',
                   Client2 := GetStringValue f ''Clients'' ''Client2'' ''192.168.1.3''\<rparr>
         in if communication m \<noteq> 0 \<and> communication m \<noteq> 2 then Inr (False, c, m)
            else let m = (if communication m = 0 then m\<lparr>Serial1 := Some (SerialPort_new (Dev c) (port c))\<rparr>
                          else m\<lparr>Tcp1 := Some (TcpServer_new (nat (TcpPort1 c mod 2 ^ 16))),
                                 Tcp2 := Some (TcpServer_new (nat (TcpPort2 c mod 2 ^ 16)))\<rparr>);
                     m = m\<lparr>Led := QLED_new (Klist_new junk)\<rparr>
                 in bindE (new_pin K (O3 c) ''out'' (\<lambda>g m. m\<lparr>TrafficPin := g\<rparr>) m) (\<lambda>m.
                    bindE (new_pin K (O4 c) ''out'' (\<lambda>g m. m\<lparr>FlashLight := g\<rparr>) m) (\<lambda>m.
                    Inr (True, c, m)))))"

record lane_threads =
  Tcpserver1 :: thread_state
  Tcpserver2 :: thread_state
  timerThread :: thread_state
  vehicleThread :: thread_state
  heartThread :: thread_state

definition start_thread :: "thread_state \<Rightarrow> thread_state" where
  "start_thread t = (if joinable t then t else Running)"

definition c_str :: "string \<Rightarrow> string" where
  "c_str s = takeWhile (\<lambda>c. c \<noteq> CHR 0x00) s"

definition Init ::
  "(int \<Rightarrow> string \<Rightarrow> int \<Rightarrow> 'c option) \<Rightarrow> config \<Rightarrow> lane_threads \<times> ('c, 'w) machine \<Rightarrow>
   (bool \<times> lane_threads \<times> ('c, 'w) machine) res" where
  "Init creat c x =
     (let (th, m) = x
      in bindE (FB_Open creat (LedMode m) (c_str (Uart1 c)) (Led m)) (\<lambda>(ok, led).
         if ok = False then Inr (False, th, m\<lparr>Led := led\<rparr>)
         else Inr (True,
                \<lparr>Tcpserver1 = start_thread (Tcpserver1 th), Tcpserver2 = start_thread (Tcpserver2 th),
                 timerThread = start_thread (timerThread th), vehicleThread = start_thread (vehicleThread th),
                 heartThread = start_thread (heartThread th)\<rparr>,
                m\<lparr>Led := led, displayingDefaultContent := False\<rparr>)))"

text \<open>
  \<open>Start\<close>: what it does before its loop, and one turn of the loop. Over TCP the loop only sleeps; for an
  unknown way of communication it returns false at once.
\<close>

definition Start_open :: "'w kernel \<Rightarrow> ('c, 'w) machine \<Rightarrow> ('c, 'w) machine res" where
  "Start_open K m =
     (if communication m = 2
      then case Tcp1 m of
             None \<Rightarrow> Inl Uninitialised
           | Some t1 \<Rightarrow>
               let (_, t1, s) = TcpServer_Open K t1 (machine_os m)
               in (case Tcp2 m of
                     None \<Rightarrow> Inl Uninitialised
                   | Some t2 \<Rightarrow>
                       let (_, t2, s) = TcpServer_Open K t2 s
                       in Inr (m\<lparr>Tcp1 := Some t1, Tcp2 := Some t2, machine_os := s\<rparr>))
      else Inr m)"

definition Start_round ::
  "('w, 'cd) platform \<Rightarrow> byte list \<Rightarrow> nat \<Rightarrow> ('c, 'w) machine \<Rightarrow> ('c, 'w) machine res" where
  "Start_round P junk fuel m =
     (if communication m = 0
      then case Serial1 m of
             None \<Rightarrow> Inl Uninitialised
           | Some t \<Rightarrow>
               bindE (SerialPort_Open (kernel P) t (machine_os m)) (\<lambda>(ok, t, s).
               let m = m\<lparr>Serial1 := Some t, machine_os := s\<rparr>
               in if ok = False then Inr m
                  else bindE (ReceiveCmd1 P junk fuel m) (\<lambda>(_, _, m). Inr m))
      else Inr m)"

text \<open>The destructor deletes every member; the thread of the display is not asked to stop.\<close>

definition TcpServer_delete :: "'w kernel \<Rightarrow> tcp_server \<Rightarrow> 'w os \<Rightarrow> 'w os res" where
  "TcpServer_delete K t s =
     bindE (TcpServer_Close K t s) (\<lambda>(_, t, s).
     case sockfd t of None \<Rightarrow> Inl Uninitialised | Some f \<Rightarrow> Inr (snd (do_sys K (Close_fd f) s)))"

definition delete_member :: "('t \<Rightarrow> 'w os \<Rightarrow> 'w os res) \<Rightarrow> 't option \<Rightarrow> 'w os \<Rightarrow> 'w os res" where
  "delete_member del t s = (case t of None \<Rightarrow> Inl Uninitialised | Some t \<Rightarrow> del t s)"

definition IMachine_delete :: "'w kernel \<Rightarrow> ('c, 'w) machine \<Rightarrow> 'w os res" where
  "IMachine_delete K m =
     bindE (delete_member (TcpServer_delete K) (Tcp1 m) (machine_os m)) (\<lambda>s.
     bindE (delete_member (TcpServer_delete K) (Tcp2 m) s) (\<lambda>s.
     bindE (delete_member (SerialPort_delete K) (Serial1 m) s) (\<lambda>s.
     bindE (Gpio_delete K (Balustrade_up m) s) (\<lambda>s.
     bindE (Gpio_delete K (Balustrade_down m) s) (\<lambda>s.
     bindE (DisplayExit (Led m)) (\<lambda>_.
     bindE (Gpio_delete K (TrafficPin m) s) (\<lambda>s.
     bindE (Gpio_delete K (FlashLight m) s) (\<lambda>s.
     bindE (Gpio_delete K (VehicleDevice1 m) s) (\<lambda>s.
     bindE (Gpio_delete K (VehicleDevice2 m) s) (\<lambda>s.
     Gpio_delete K (VehicleDevice3 m) s))))))))))"

text \<open>
  \<open>main\<close> up to \<open>Start\<close>: the configuration, and the controller when it could be set up; \<open>None\<close> is the exit
  after a failure, with the controller deleted.
\<close>

definition main_settings :: "files \<Rightarrow> string option \<Rightarrow> mylog \<Rightarrow> (mylog \<times> inifile) res" where
  "main_settings fs dli_fname l =
     bindE (Load fs ''Config.ini'' (getInstance None)) (\<lambda>(_, f). MyLogClass_new fs dli_fname [] [] f l)"

definition main_start ::
  "'w kernel \<Rightarrow> (int \<Rightarrow> string \<Rightarrow> int \<Rightarrow> 'c option) \<Rightarrow> Node_Data \<Rightarrow> files \<Rightarrow> string option \<Rightarrow> mylog \<Rightarrow>
   lane_threads \<Rightarrow> ('c, 'w) machine \<Rightarrow> (lane_threads \<times> ('c, 'w) machine) option res" where
  "main_start K creat junk fs dli_fname l th m =
     bindE (main_settings fs dli_fname l) (\<lambda>(l, f).
     bindE (ReadCfg K junk f m) (\<lambda>(ok, c, m).
     if ok = False then bindE (IMachine_delete K m) (\<lambda>_. Inr None)
     else bindE (Init creat c (th, m)) (\<lambda>(ok, th, m).
          if ok = False then bindE (IMachine_delete K m) (\<lambda>_. Inr None)
          else bindE (Start_open K m) (\<lambda>m. Inr (Some (th, m))))))"

section \<open>Building the controller\<close>

text \<open>A pin of the controller as \<open>ReadCfg\<close> builds it: on the number of the configuration, in its direction.\<close>

definition built :: "int \<Rightarrow> string \<Rightarrow> gpio \<Rightarrow> bool" where
  "built p dir g \<longleftrightarrow> gpio_ok g \<and> Pin g = p \<and> mode g = dir"

lemma Gpio_new_total: "\<exists>g s'. Gpio_new K p dir s = Inr (g, s') \<and> gpio_ok g \<and> Pin g = p \<and> mode g = dir"
proof -
  have "isOpen \<lparr>fd = None, Pin = p, PinName = [], mode = dir, isOpen = False\<rparr> = False"
    by simp
  from SetOpen_closed [OF this, of K s] show ?thesis
    by (auto simp: Gpio_new_def)
qed

text \<open>That a computation returns a value with a property, and how building a pin does.\<close>

definition returns :: "'a res \<Rightarrow> ('a \<Rightarrow> bool) \<Rightarrow> bool" where
  "returns x R \<longleftrightarrow> (\<exists>y. x = Inr y \<and> R y)"

lemma returns_Inr: "R y \<Longrightarrow> returns (Inr y) R"
  by (simp add: returns_def)

lemma returns_bind: "returns x R \<Longrightarrow> (\<And>y. R y \<Longrightarrow> returns (f y) S) \<Longrightarrow> returns (bindE x f) S"
  by (auto simp: returns_def)

lemma returns_new_pin_last:
  assumes "\<And>g s. built p dir g \<Longrightarrow> R (upd g (m\<lparr>machine_os := s\<rparr>))"
  shows "returns (new_pin K p dir upd m) R"
proof -
  obtain g s where "Gpio_new K p dir (machine_os m) = Inr (g, s)" and "built p dir g"
    using Gpio_new_total by (metis built_def)
  then show ?thesis
    using assms by (simp add: new_pin_def returns_def)
qed

lemma returns_new_pin:
  assumes "\<And>g s. built p dir g \<Longrightarrow> returns (f (upd g (m\<lparr>machine_os := s\<rparr>))) R"
  shows "returns (bindE (new_pin K p dir upd m) f) R"
  using returns_new_pin_last by (rule returns_bind) (rule assms)

text \<open>The members that building the pins sets, and those it leaves.\<close>

definition pins_built :: "config \<Rightarrow> ('c, 'w) machine \<Rightarrow> bool" where
  "pins_built c m \<longleftrightarrow>
     built (I1 c) ''in'' (VehicleDevice1 m) \<and> built (I2 c) ''in'' (VehicleDevice2 m) \<and>
     built (I3 c) ''in'' (VehicleDevice3 m) \<and> built (I4 c) ''in'' (ManualSwitch m) \<and>
     built (O1 c) ''out'' (Balustrade_up m) \<and> built (O2 c) ''out'' (Balustrade_down m)"

definition links :: "('c, 'w) machine \<Rightarrow> tcp_server option \<times> tcp_server option \<times> serial option" where
  "links m = (Tcp1 m, Tcp2 m, Serial1 m)"

lemma new_pins_returns: "returns (new_pins K c m) (\<lambda>m'. pins_built c m' \<and> links m' = links m)"
  unfolding new_pins_def by (intro returns_new_pin returns_new_pin_last) (simp add: pins_built_def links_def)

text \<open>What \<open>ReadCfg\<close> returns, for each way of communication.\<close>

definition settings_read :: "inifile \<Rightarrow> config \<Rightarrow> ('c, 'w) machine \<Rightarrow> bool" where
  "settings_read f c m \<longleftrightarrow> c = read_config f \<and> pins_built c m \<and>
     communication m = GetIntValue f ''Serial'' ''communication'' 0 \<and>
     LedMode m = GetIntValue f ''Serial'' ''LedMode'' 0 \<and>
     Client1 m = GetStringValue f ''Clients'' ''Client1'' ''192.168.1.2'' \<and>
     Client2 m = GetStringValue f ''Clients'' ''Client2'' ''192.168.1.3''"

definition devices_built :: "Node_Data \<Rightarrow> config \<Rightarrow> ('c, 'w) machine \<Rightarrow> bool" where
  "devices_built junk c m \<longleftrightarrow> Led m = QLED_new (Klist_new junk) \<and>
     built (O3 c) ''out'' (TrafficPin m) \<and> built (O4 c) ''out'' (FlashLight m)"

lemma ReadCfg_returns:
  "returns (ReadCfg K junk f m) (\<lambda>(ok, c, m'). settings_read f c m' \<and> ok = (communication m' \<in> {0, 2}) \<and>
    (ok \<longrightarrow> devices_built junk c m') \<and>
    links m' = (if communication m' = 0 then (Tcp1 m, Tcp2 m, Some (SerialPort_new (Dev c) (port c)))
      else if communication m' = 2 then (Some (TcpServer_new (nat (TcpPort1 c mod 2 ^ 16))),
        Some (TcpServer_new (nat (TcpPort2 c mod 2 ^ 16))), Serial1 m)
      else links m))"
  unfolding ReadCfg_def Let_def
  by (rule returns_bind [OF new_pins_returns])
    (auto intro!: returns_Inr returns_new_pin simp: settings_read_def pins_built_def devices_built_def links_def)

section \<open>Properties\<close>

lemma qled_ok_new: "length (QLED_Data junk) = 1024 \<Longrightarrow> qled_ok (QLED_new (Klist_new junk))"
  by (simp add: qled_ok_def QLED_new_def tasks_ok_def Klist_new_ok contents_Klist_new)

lemma start_thread_joinable [simp]: "joinable (start_thread t)"
  by (simp add: start_thread_def joinable_def)

definition all_started :: "lane_threads \<Rightarrow> bool" where
  "all_started th \<longleftrightarrow> joinable (Tcpserver1 th) \<and> joinable (Tcpserver2 th) \<and> joinable (timerThread th) \<and>
     joinable (vehicleThread th) \<and> joinable (heartThread th)"

lemma slot_Nil: "slot [] = Map.empty"
  by (rule ext) simp

text \<open>A display parameter \<open>"device,baud"\<close> as the configuration file gives it.\<close>

definition display_parameter :: "string \<Rightarrow> int \<Rightarrow> string \<Rightarrow> bool" where
  "display_parameter dev baud s \<longleftrightarrow> s = dev @ '','' @ to_string baud \<and> dev \<noteq> [] \<and>
     (\<forall>c\<in>set dev. c \<noteq> CHR '','' \<and> c \<noteq> CHR 0x00) \<and> - (2 ^ 31) \<le> baud \<and> baud < 2 ^ 31"

lemma c_str_parameter:
  assumes "display_parameter dev baud s"
  shows "c_str s = s"
proof -
  have "\<not> is_digit (CHR 0x00)"
    by (simp add: is_digit_def)
  then have "c \<noteq> CHR 0x00" if "c \<in> set (to_string baud)" for c
    using to_string_chars [OF that] by auto
  then have "\<forall>c\<in>set s. c \<noteq> CHR 0x00"
    using assms by (auto simp: display_parameter_def)
  then show ?thesis
    by (simp add: c_str_def takeWhile_eq_all_conv)
qed

lemma Init_returns:
  assumes "display_parameter dev baud (Uart1 c)" and "LedMode m \<in> {0, 2}" and "creat (LedMode m) dev baud = Some d"
  shows "\<exists>th'. Init creat c (th, m) = Inr (True, th', m\<lparr>Led := (Led m)\<lparr>QDEV := dev, comm := Some d, DisplyID := True\<rparr>,
    displayingDefaultContent := False\<rparr>) \<and> all_started th'"
proof -
  have "FB_Open creat (LedMode m) (Uart1 c) (Led m) = Inr (DisplayInit creat (LedMode m) dev baud (Led m))"
  proof -
    have "Uart1 c = dev @ '','' @ to_string baud" "dev \<noteq> []" "CHR '','' \<notin> set dev" "- (2 ^ 31) \<le> baud" "baud < 2 ^ 31"
      using assms(1) by (simp_all add: display_parameter_def) blast
    then show ?thesis
      using FB_Open_cases [of dev baud "LedMode m" creat "Led m"] assms(2) by (simp only: simp_thms)
  qed
  then show ?thesis
    using c_str_parameter [OF assms(1)] assms(3)
    by (simp add: Init_def DisplayInit_def all_started_def Let_def)
qed

text \<open>
  C3. Starting over TCP with a display parameter \<open>device,baud\<close> that opens establishes the invariant of the
  lane controller that its handlers and threads rely on, whatever the kernel answers while the pins are
  opened: every pin is built on the number and direction of the configuration, both servers exist on
  the configured ports and have no client, the display is open on the device, all five threads run.
\<close>

theorem startup_establishes_invariant:
  fixes m :: "('c, 'w) machine"
  assumes "GetIntValue f ''Serial'' ''communication'' 0 = 2" and "GetIntValue f ''Serial'' ''LedMode'' 0 = led_mode" and "led_mode \<in> {0, 2}"
    and "display_parameter dev baud (GetStringValue f ''Serial'' ''Led'' ''/dev/ttyS5'')"
    and "creat led_mode dev baud = Some d" and "length (QLED_Data junk) = 1024"
  shows "\<exists>c m1 th' m'. ReadCfg K junk f m = Inr (True, c, m1) \<and> Init creat c (th, m1) = Inr (True, th', m') \<and>
    machine_ok m' \<and> pins_built (read_config f) m' \<and> all_started th' \<and>
    Tcp1 m' = Some (TcpServer_new (nat (TcpPort1 (read_config f) mod 2 ^ 16))) \<and>
    Tcp2 m' = Some (TcpServer_new (nat (TcpPort2 (read_config f) mod 2 ^ 16))) \<and>
    comm (Led m') = Some d \<and> screen (Led m') = Map.empty \<and> \<not> displayingDefaultContent m'"
proof -
  obtain c and m1 :: "('c, 'w) machine" where r: "ReadCfg K junk f m = Inr (True, c, m1)"
    and "settings_read f c m1" "communication m1 = 2" "devices_built junk c m1"
    and l: "links m1 = (Some (TcpServer_new (nat (TcpPort1 c mod 2 ^ 16))), Some (TcpServer_new (nat (TcpPort2 c mod 2 ^ 16))), Serial1 m)"
    using ReadCfg_returns [of K junk f m] assms(1) by (auto simp: returns_def settings_read_def)
  then have c: "c = read_config f" "LedMode m1 = led_mode" "pins_built c m1"
    and b: "built (O3 c) ''out'' (TrafficPin m1)" "built (O4 c) ''out'' (FlashLight m1)"
    and led: "Led m1 = QLED_new (Klist_new junk)"
    using assms(2) by (auto simp: settings_read_def devices_built_def)
  have "display_parameter dev baud (Uart1 c)"
    using assms(4) by (simp add: c(1) read_config_def)
  then obtain th' where i: "Init creat c (th, m1) = Inr (True, th', m1\<lparr>Led := (Led m1)\<lparr>QDEV := dev, comm := Some d, DisplyID := True\<rparr>,
      displayingDefaultContent := False\<rparr>)" and "all_started th'"
    using Init_returns [of dev baud c m1 creat d th] assms(3,5) c(2) by auto
  moreover have "qled_ok (Led m1)" "screen (Led m1) = Map.empty"
    using qled_ok_new [OF assms(6)] by (simp_all add: led screen_def QLED_new_def waiting_def contents_Klist_new slot_Nil)
  ultimately show ?thesis
    using r c b l
    by (auto simp: machine_ok_def pins_ok_def pins_built_def built_def links_def qled_ok_def screen_def
        intro!: exI [of _ c] exI [of _ m1])
qed

text \<open>The configuration file of the repository, byte for byte.\<close>

definition Config_ini :: string where
  "Config_ini = unlines [
     ''[Log]'',
     ''path=ArtcLog'',
     ''name=IMachine_HB'',
     ''level=1'',
     ''debug=1'',
     ''write=1'',
     ''days=5'',
     ''[socket]'',
     ''#'' @ [CHR 0xE6, CHR 0x9C, CHR 0xAC, CHR 0xE5, CHR 0x9C, CHR 0xB0, CHR 0xE6, CHR 0x9C, CHR 0x8D,
       CHR 0xE5, CHR 0x8A, CHR 0xA1, CHR 0xE5, CHR 0x99, CHR 0xA8, CHR 0xE7, CHR 0xAB, CHR 0xAF,
       CHR 0xE5, CHR 0x8F, CHR 0xA3, CHR 0xE5, CHR 0x8F, CHR 0xB7],
     ''RobortPort=5000'',
     ''ManualPort=5001'',
     ''ntpIP=192.168.110.70'',
     [],
     [],
     ''[IOCardIn]'',
     ''# '' @ [CHR 0xE8, CHR 0xBD, CHR 0xA6, CHR 0xE6, CHR 0xA3, CHR 0x80, CHR 0xE5, CHR 0x99,
       CHR 0xA8] @ '','' @ [CHR 0xE6, CHR 0x9C, CHR 0x89, CHR 0xE5, CHR 0xB0, CHR 0xB1, CHR 0xE5,
       CHR 0x86, CHR 0x99, CHR 0xE5, CHR 0xAF, CHR 0xB9, CHR 0xE5, CHR 0xBA,
       CHR 0x94] @ ''IO'' @ [CHR 0xE6, CHR 0x95, CHR 0xB0, CHR 0xE5, CHR 0xAD, CHR 0x97, CHR 0xEF,
       CHR 0xBC, CHR 0x8C, CHR 0xE6, CHR 0x97, CHR 0xA0, CHR 0xE5, CHR 0x88, CHR 0x99, CHR 0xE5,
       CHR 0xB0, CHR 0x86, CHR 0xE5, CHR 0x85, CHR 0xB6, CHR 0xE7, CHR 0xBD, CHR 0xAE, CHR 0xE4,
       CHR 0xB8, CHR 0xBA] @ ''0, '' @ [CHR 0xE6, CHR 0x88, CHR 0x96, CHR 0xE8, CHR 0x80, CHR 0x85,
       CHR 0xE4, CHR 0xB8, CHR 0x8D, CHR 0xE5, CHR 0x86, CHR 0x99, CHR 0xE9, CHR 0x85, CHR 0x8D,
       CHR 0xE7, CHR 0xBD, CHR 0xAE, CHR 0xE9, CHR 0xA1, CHR 0xB9, CHR 0xE5, CHR 0x88, CHR 0x99,
       CHR 0xE9, CHR 0xBB, CHR 0x98, CHR 0xE8, CHR 0xAE, CHR 0xA4, CHR 0xE4, CHR 0xB8, CHR 0xBA] @ ''0'',
     ''VehicleDevice1=1'',
     ''VehicleDevice2=2'',
     ''VehicleDevice3=3'',
     [],
     ''[IOCardOut]'',
     ''#'' @ [CHR 0xE9, CHR 0x80, CHR 0x9A, CHR 0xE8, CHR 0xA1, CHR 0x8C, CHR 0xE7, CHR 0x81, CHR 0xAF],
     ''TrafficLed=5'',
     ''FlashLight=0'',
     ''# '' @ [CHR 0xE6, CHR 0xA0, CHR 0x8F, CHR 0xE6, CHR 0x9D, CHR 0x86, CHR 0xE6, CHR 0x9C, CHR 0xBA,
       CHR 0xE6, CHR 0x8E, CHR 0xA7, CHR 0xE5, CHR 0x88, CHR 0xB6, CHR 0xE4, CHR 0xBF, CHR 0xA1,
       CHR 0xE5, CHR 0x8F, CHR 0xB7],
     ''Balustrade_up=1'',
     ''Balustrade_down=2'',
     [],
     [],
     ''[Serial]'',
     ''# '' @ [CHR 0xE7, CHR 0xB3, CHR 0xBB, CHR 0xE7, CHR 0xBB, CHR 0x9F, CHR 0xE9, CHR 0x80, CHR 0x9A,
       CHR 0xE4, CHR 0xBF, CHR 0xA1, CHR 0xE6, CHR 0x96, CHR 0xB9, CHR 0xE5, CHR 0xBC,
       CHR 0x8F] @ '' 0-'' @ [CHR 0xE4, CHR 0xB8, CHR 0xB2, CHR 0xE5, CHR 0x8F, CHR 0xA3, CHR 0xE9,
       CHR 0x80, CHR 0x9A, CHR 0xE4, CHR 0xBF, CHR 0xA1] @ '' 2-'' @ [CHR 0xE7, CHR 0xBD, CHR 0x91,
       CHR 0xE5, CHR 0x8F, CHR 0xA3, CHR 0xE9, CHR 0x80, CHR 0x9A, CHR 0xE4, CHR 0xBF, CHR 0xA1],
     ''communication=2'',
     ''# '' @ [CHR 0xE7, CHR 0xB3, CHR 0xBB, CHR 0xE7, CHR 0xBB, CHR 0x9F, CHR 0xE9, CHR 0x80, CHR 0x9A,
       CHR 0xE4, CHR 0xBF, CHR 0xA1, CHR 0xE5, CHR 0x9C, CHR 0xB0, CHR 0xE5, CHR 0x9D, CHR 0x80],
     ''Serial=/dev/ttyS0'',
     ''# '' @ [CHR 0xE7, CHR 0xB3, CHR 0xBB, CHR 0xE7, CHR 0xBB, CHR 0x9F, CHR 0xE9, CHR 0x80, CHR 0x9A,
       CHR 0xE4, CHR 0xBF, CHR 0xA1, CHR 0xE6, CHR 0xB3, CHR 0xA2, CHR 0xE7, CHR 0x89, CHR 0xB9,
       CHR 0xE7, CHR 0x8E, CHR 0x87],
     ''baudRate=9600'',
     ''# '' @ [CHR 0xE6, CHR 0x98, CHR 0xBE, CHR 0xE7, CHR 0xA4, CHR 0xBA, CHR 0xE5, CHR 0xB1, CHR 0x8F,
       CHR 0xE5, CHR 0xB7, CHR 0xA5, CHR 0xE4, CHR 0xBD, CHR 0x9C, CHR 0xE6, CHR 0xA8, CHR 0xA1,
       CHR 0xE5, CHR 0xBC, CHR 0x8F] @ '' 0-'' @ [CHR 0xE4, CHR 0xB8, CHR 0xB2, CHR 0xE5, CHR 0x8F,
       CHR 0xA3, CHR 0xE6, CHR 0xA8, CHR 0xA1, CHR 0xE5, CHR 0xBC, CHR 0x8F] @ '' 2-'' @ [CHR 0xE7,
       CHR 0xBD, CHR 0x91, CHR 0xE5, CHR 0x8F, CHR 0xA3, CHR 0xE6, CHR 0xA8, CHR 0xA1, CHR 0xE5,
       CHR 0xBC, CHR 0x8F],
     ''LedMode=0'',
     ''#'' @ [CHR 0xE8, CHR 0xB4, CHR 0xB9, CHR 0xE9, CHR 0xA2, CHR 0x9D, CHR 0xE6, CHR 0x98, CHR 0xBE,
       CHR 0xE7, CHR 0xA4, CHR 0xBA, CHR 0xE5, CHR 0x99, CHR 0xA8] @ ''('' @ [CHR 0xE9, CHR 0x85,
       CHR 0x8D, CHR 0xE7, CHR 0xBD, CHR 0xAE, CHR 0xE4, CHR 0xB8, CHR 0xB2, CHR 0xE5, CHR 0x8F,
       CHR 0xA3, CHR 0xE8, CHR 0xAE, CHR 0xBE, CHR 0xE5, CHR 0xA4, CHR 0x87, CHR 0xE5, CHR 0x9C,
       CHR 0xB0, CHR 0xE5, CHR 0x9D, CHR 0x80, CHR 0xE4, CHR 0xBB, CHR 0xA5, CHR 0xE5, CHR 0x8F,
       CHR 0x8A, CHR 0xE6, CHR 0xB3, CHR 0xA2, CHR 0xE7, CHR 0x89, CHR 0xB9, CHR 0xE7, CHR 0x8E,
       CHR 0x87] @ '')'',
     ''Led=/dev/ttyS5,9600'',
     [],
     ''[Clients]'',
     ''#'' @ [CHR 0xE5, CHR 0xA6, CHR 0x82, CHR 0xE6, CHR 0x9E, CHR 0x9C, CHR 0xE7, CHR 0xB3, CHR 0xBB,
       CHR 0xE7, CHR 0xBB, CHR 0x9F, CHR 0xE6, CHR 0x98, CHR 0xAF, CHR 0xE7, CHR 0xBD, CHR 0x91,
       CHR 0xE5, CHR 0x8F, CHR 0xA3, CHR 0xE9, CHR 0x80, CHR 0x9A, CHR 0xE4, CHR 0xBF, CHR 0xA1,
       CHR 0xEF, CHR 0xBC, CHR 0x8C, CHR 0xE8, CHR 0xAE, CHR 0xBE, CHR 0xE7, CHR 0xBD, CHR 0xAE,
       CHR 0xE5, CHR 0xAE, CHR 0xA2, CHR 0xE6, CHR 0x88, CHR 0xB7, CHR 0xE7, CHR 0xAB, CHR 0xAF,
       CHR 0xE7, CHR 0x9A, CHR 0x84] @ ''IP'',
     ''Client1=192.168.10.47''] @
     ''Client2=192.168.110.47''"

definition shipped_files :: files where
  "shipped_files = (\<lambda>p. if p = ''Config.ini'' then Some Config_ini else None)"

lemma shipped_load: "case Load shipped_files ''Config.ini'' IniFile_new of Inl _ \<Rightarrow> False | Inr (e, f) \<Rightarrow>
    e = RET_OK \<and> read_config f = \<lparr>I1 = 1, I2 = 2, I3 = 3, I4 = 4, O1 = 1, O2 = 2, O3 = 5, O4 = 0,
      TcpPort1 = 5000, TcpPort2 = 5001, Dev = ''/dev/ttyS0'', port = 9600, Uart1 = ''/dev/ttyS5,9600''\<rparr> \<and>
    GetIntValue f ''Serial'' ''communication'' 0 = 2 \<and> GetIntValue f ''Serial'' ''LedMode'' 0 = 0 \<and>
    GetStringValue f ''Clients'' ''Client1'' ''192.168.1.2'' = ''192.168.10.47'' \<and>
    GetStringValue f ''Clients'' ''Client2'' ''192.168.1.3'' = ''192.168.110.47''"
  by code_simp

text \<open>
  The configuration file of the repository is read without error, and its settings are: the detectors
  on inputs 1 to 3, the mode switch on the default input 4, the motor on outputs 1 and 2, the traffic
  light on output 5 and the alarm light on output 0, which no pin has; TCP on ports 5000 and 5001; the
  display on a serial line, with a device and a speed; and the addresses of the two clients.
\<close>

theorem shipped_configuration:
  "\<exists>f. Load shipped_files ''Config.ini'' IniFile_new = Inr (RET_OK, f) \<and>
    read_config f = \<lparr>I1 = 1, I2 = 2, I3 = 3, I4 = 4, O1 = 1, O2 = 2, O3 = 5, O4 = 0,
      TcpPort1 = 5000, TcpPort2 = 5001, Dev = ''/dev/ttyS0'', port = 9600, Uart1 = ''/dev/ttyS5,9600''\<rparr> \<and>
    GetIntValue f ''Serial'' ''communication'' 0 = 2 \<and> GetIntValue f ''Serial'' ''LedMode'' 0 = 0 \<and>
    GetStringValue f ''Clients'' ''Client1'' ''192.168.1.2'' = ''192.168.10.47'' \<and>
    GetStringValue f ''Clients'' ''Client2'' ''192.168.1.3'' = ''192.168.110.47''"
  using shipped_load by (cases "Load shipped_files ''Config.ini'' IniFile_new") auto

theorem startup_establishes_invariant_witness:
  "\<exists>f c m1 th' m'. Load shipped_files ''Config.ini'' IniFile_new = Inr (RET_OK, f) \<and>
    ReadCfg (\<lambda>c w. ((9, []), w)) example_junk f example_machine = Inr (True, c, m1) \<and>
    Init (\<lambda>_ _ _. Some ()) c (\<lparr>Tcpserver1 = NotStarted, Tcpserver2 = NotStarted, timerThread = NotStarted,
      vehicleThread = NotStarted, heartThread = NotStarted\<rparr>, m1) = Inr (True, th', m') \<and> machine_ok m'"
proof -
  obtain f where f: "Load shipped_files ''Config.ini'' IniFile_new = Inr (RET_OK, f)"
    and c: "Uart1 (read_config f) = ''/dev/ttyS5,9600''"
    and g: "GetIntValue f ''Serial'' ''communication'' 0 = 2" "GetIntValue f ''Serial'' ''LedMode'' 0 = 0"
    using shipped_load by (cases "Load shipped_files ''Config.ini'' IniFile_new") auto
  have "to_string 9600 = ''9600''"
    by (simp add: to_string_def dec_nat.simps char_of_def bit_0)
  then have "display_parameter ''/dev/ttyS5'' 9600 ''/dev/ttyS5,9600''"
    by (simp add: display_parameter_def)
  then have "display_parameter ''/dev/ttyS5'' 9600 (GetStringValue f ''Serial'' ''Led'' ''/dev/ttyS5'')"
    using c by (simp only: read_config_def config.simps)
  moreover have "length (QLED_Data example_junk) = 1024" "(0 :: int) \<in> {0, 2}"
    by (simp_all add: example_junk_def)
  ultimately show ?thesis
    using startup_establishes_invariant [OF g, where dev = "''/dev/ttyS5''" and baud = 9600 and creat = "\<lambda>_ _ _. Some ()"
        and d = "()" and junk = example_junk and K = "\<lambda>c w. ((9, []), w)" and m = example_machine] f by blast
qed

section \<open>Ways to fail\<close>

lemma Load_total: "\<exists>e f'. Load fs p IniFile_new = Inr (e, f') \<and> commentDelimiter f' = ''#''"
proof (cases "fs p")
  case None
  then show ?thesis by (simp add: Load_start IniFile_new_def)
next
  case (Some content)
  have "wf_ini (start_file p IniFile_new)" "0 < length (sections_vt (start_file p IniFile_new))"
    using wf_start_file [of IniFile_new p] by (simp_all add: IniFile_new_def) (simp add: start_file_def)
  then obtain e f' where "load_lines (getlines content) 0 [] (start_file p IniFile_new) = Inr (e, f')" "wf_ini f'"
    using load_lines_wf [of "start_file p IniFile_new" 0 "[]" "getlines content"] getlines_no_newline [of _ content] by auto
  with Some show ?thesis by (simp add: Load_start wf_ini_def)
qed

lemma no_sections: "sections_vt f = [] \<Longrightarrow> all_values f s k = []"
  by (simp add: all_values_section the_section_def)

text \<open>The configuration file that the log loads: the one next to the program, if its name is known.\<close>

definition config_path :: "string option \<Rightarrow> string" where
  "config_path dli_fname = (case GetModuleFileName dli_fname of None \<Rightarrow> ''Config.ini'' | Some (c, _, _) \<Rightarrow> c)"

lemma main_settings_missing:
  assumes "fs (config_path dli_fname) = None"
  shows "\<exists>l' f. main_settings fs dli_fname l = Inr (l', f) \<and> sections_vt f = []"
proof -
  obtain e f where f: "Load fs ''Config.ini'' IniFile_new = Inr (e, f)"
    using Load_total by blast
  have "Load fs (config_path dli_fname) f = Inr (ERR_OPEN_FILE_FAILED,
      \<lparr>iniFilePath = config_path dli_fname, commentDelimiter = commentDelimiter f, sections_vt = []\<rparr>)"
    using assms by (simp add: Load_start)
  then show ?thesis
    using f by (auto simp: main_settings_def getInstance_def MyLogClass_new_def InitMyLogClass_def config_path_def split: option.splits)
qed

text \<open>
  C4. Without a configuration file next to the program the process does not start, it dies: the first log
  message reloads the configuration from there and drops what \<open>main\<close> had read, so every setting takes its
  default; the default display parameter has no comma, and opening the display on it ends the process
  with an uncaught exception, whatever the kernel answers and whatever file \<open>main\<close> found.
\<close>

theorem missing_configuration_terminates:
  assumes "fs (config_path dli_fname) = None"
  shows "main_start K creat junk fs dli_fname l th m = Inl UncaughtException"
proof -
  obtain l' f where f: "main_settings fs dli_fname l = Inr (l', f)" "sections_vt f = []"
    using main_settings_missing [of fs dli_fname l] assms by blast
  obtain c m1 where r: "ReadCfg K junk f m = Inr (True, c, m1)" and "settings_read f c m1"
    using ReadCfg_returns [of K junk f m] no_sections [OF f(2)] by (auto simp: returns_def settings_read_def GetIntValue_values)
  then have "Uart1 c = ''/dev/ttyS5''" and "LedMode m1 = 0"
    using no_sections [OF f(2)] by (simp_all add: settings_read_def read_config_def GetStringValue_values GetIntValue_values)
  moreover have "c_str ''/dev/ttyS5'' = ''/dev/ttyS5''"
    by code_simp
  ultimately have "Init creat c (th, m1) = Inl UncaughtException"
    using FB_Open_cases [of "''/dev/ttyS5''" 0 0 creat "Led m1"] by (simp add: Init_def)
  then show ?thesis
    using f(1) r by (simp add: main_start_def)
qed

theorem missing_configuration_terminates_witness:
  "main_start (\<lambda>c w. ((9, []), w)) (\<lambda>_ _ _. Some ()) example_junk
     shipped_files (Some ''/opt/IMachine/IMachine_HB'') example_log
     \<lparr>Tcpserver1 = NotStarted, Tcpserver2 = NotStarted, timerThread = NotStarted, vehicleThread = NotStarted,
      heartThread = NotStarted\<rparr> example_machine = Inl UncaughtException"
proof -
  have "config_path (Some ''/opt/IMachine/IMachine_HB'') = ''/opt/IMachine/Config.ini''"
    by code_simp
  then show ?thesis
    using missing_configuration_terminates [of shipped_files "Some ''/opt/IMachine/IMachine_HB''"]
    by (simp add: shipped_files_def)
qed

text \<open>
  C24. Over the serial line, the default, with a display mode of 0 or 2 and a display parameter \<open>device,baud\<close> that opens, \<open>ReadCfg\<close> and \<open>Init\<close> both report
  success and all five threads are started; but the two servers were never built, and the threads use them all the same: the first
  turn of both receiving threads, of the detector thread and of the heartbeat thread reads a pointer that
  was never assigned.
\<close>

theorem serial_mode_uninitialised:
  fixes m :: "('c, 'w) machine"
  assumes "GetIntValue f ''Serial'' ''communication'' 0 = 0" and "GetIntValue f ''Serial'' ''LedMode'' 0 = led_mode" and "led_mode \<in> {0, 2}"
    and "display_parameter dev baud (GetStringValue f ''Serial'' ''Led'' ''/dev/ttyS5'')"
    and "creat led_mode dev baud = Some d" and "Tcp1 m = None" and "Tcp2 m = None"
  shows "\<exists>c m1 th' m'. ReadCfg K junk f m = Inr (True, c, m1) \<and> Init creat c (th, m1) = Inr (True, th', m') \<and> all_started th' \<and>
    TcpserverFunc1_round P buf n m' = Inl Uninitialised \<and> TcpserverFunc2_round P buf n m' = Inl Uninitialised \<and>
    vehicle_round P (vehicle_start, m') = Inl Uninitialised \<and> HeartThread_round P m' = Inl Uninitialised"
proof -
  obtain c and m1 :: "('c, 'w) machine" where r: "ReadCfg K junk f m = Inr (True, c, m1)" and rd: "settings_read f c m1"
    and l: "links m1 = (Tcp1 m, Tcp2 m, Some (SerialPort_new (Dev c) (port c)))"
    using ReadCfg_returns [of K junk f m] assms(1) by (auto simp: returns_def settings_read_def)
  have "display_parameter dev baud (Uart1 c)" and "LedMode m1 = led_mode"
    using assms(2,4) rd by (simp_all add: settings_read_def read_config_def)
  then obtain th' where i: "Init creat c (th, m1) = Inr (True, th', m1\<lparr>Led := (Led m1)\<lparr>QDEV := dev, comm := Some d, DisplyID := True\<rparr>,
      displayingDefaultContent := False\<rparr>)" and th: "all_started th'"
    using Init_returns [of dev baud c m1 creat d th] assms(3,5) by auto
  let ?m' = "m1\<lparr>Led := (Led m1)\<lparr>QDEV := dev, comm := Some d, DisplyID := True\<rparr>, displayingDefaultContent := False\<rparr>"
  have "Tcp1 ?m' = None" and "Tcp2 ?m' = None"
    using l assms(6,7) by (simp_all add: links_def)
  then have "TcpserverFunc1_round P buf n ?m' = Inl Uninitialised" "TcpserverFunc2_round P buf n ?m' = Inl Uninitialised"
    "vehicle_round P (vehicle_start, ?m') = Inl Uninitialised" "HeartThread_round P ?m' = Inl Uninitialised"
    by (simp_all add: TcpserverFunc1_round_def TcpserverFunc2_round_def vehicle_round_def HeartThread_round_def is_open_def)
  with r i th show ?thesis
    by blast
qed

definition raw_machine :: "(unit, unit) machine" where
  "raw_machine = example_machine\<lparr>Tcp1 := None, Tcp2 := None, Serial1 := None\<rparr>"

text \<open>The shipped configuration with the way of communication set to the serial line.\<close>

theorem serial_mode_uninitialised_witness:
  "\<exists>f0 f c m1 th' m'. Load shipped_files ''Config.ini'' IniFile_new = Inr (RET_OK, f0) \<and>
    f = snd (setValue ''Serial'' ''communication'' ''0'' [] f0) \<and>
    ReadCfg (\<lambda>c w. ((9, []), w)) example_junk f raw_machine = Inr (True, c, m1) \<and>
    Init (\<lambda>_ _ _. Some ()) c (\<lparr>Tcpserver1 = NotStarted, Tcpserver2 = NotStarted, timerThread = NotStarted,
      vehicleThread = NotStarted, heartThread = NotStarted\<rparr>, m1) = Inr (True, th', m') \<and> all_started th' \<and>
    vehicle_round vehicle_platform (vehicle_start, m') = Inl Uninitialised"
proof -
  obtain f0 where f0: "Load shipped_files ''Config.ini'' IniFile_new = Inr (RET_OK, f0)"
    and c: "Uart1 (read_config f0) = ''/dev/ttyS5,9600''"
    and g: "GetIntValue f0 ''Serial'' ''LedMode'' 0 = 0"
    using shipped_load by (cases "Load shipped_files ''Config.ini'' IniFile_new") auto
  let ?f = "snd (setValue ''Serial'' ''communication'' ''0'' [] f0)"
  have z: "atoi ''0'' = 0"
    by code_simp
  have "GetIntValue ?f ''Serial'' ''communication'' 0 = 0"
    using z by (simp add: GetIntValue_values all_values_setValue)
  moreover have "GetIntValue ?f ''Serial'' ''LedMode'' 0 = 0"
    using g by (simp add: GetIntValue_values all_values_setValue)
  moreover have "GetStringValue ?f ''Serial'' ''Led'' ''/dev/ttyS5'' = ''/dev/ttyS5,9600''"
    using c by (simp add: read_config_def GetStringValue_values all_values_setValue)
  moreover have "to_string 9600 = ''9600''"
    by (simp add: to_string_def dec_nat.simps char_of_def bit_0)
  then have "display_parameter ''/dev/ttyS5'' 9600 ''/dev/ttyS5,9600''"
    by (simp add: display_parameter_def)
  moreover have "Tcp1 raw_machine = None" "Tcp2 raw_machine = None"
    by (simp_all add: raw_machine_def)
  ultimately show ?thesis
    using serial_mode_uninitialised [of ?f 0 "''/dev/ttyS5''" 9600 "\<lambda>_ _ _. Some ()" "()" raw_machine "\<lambda>c w. ((9, []), w)" example_junk
        "\<lparr>Tcpserver1 = NotStarted, Tcpserver2 = NotStarted, timerThread = NotStarted, vehicleThread = NotStarted, heartThread = NotStarted\<rparr>"
        vehicle_platform "[]" 0] f0 by auto
qed

text \<open>
  The destructor can never run: in each way of communication, and after a refused one, it deletes a
  server or a serial port that was never built, or closes a client that a server never had.
\<close>

theorem destructor_uninitialised:
  fixes m :: "('c, 'w) machine"
  assumes "Tcp1 m = None" and "Tcp2 m = None" and "Serial1 m = None"
  shows "\<exists>ok c m'. ReadCfg K junk f m = Inr (ok, c, m') \<and> IMachine_delete K m' = Inl Uninitialised"
proof -
  obtain ok c and m1 :: "('c, 'w) machine" where r: "ReadCfg K junk f m = Inr (ok, c, m1)"
    and l: "links m1 = (if communication m1 = 0 then (Tcp1 m, Tcp2 m, Some (SerialPort_new (Dev c) (port c)))
      else if communication m1 = 2 then (Some (TcpServer_new (nat (TcpPort1 c mod 2 ^ 16))),
        Some (TcpServer_new (nat (TcpPort2 c mod 2 ^ 16))), Serial1 m)
      else links m)"
    using ReadCfg_returns [of K junk f m] by (auto simp: returns_def)
  have "TcpServer_delete K (TcpServer_new p) s = Inl Uninitialised" for p and s :: "'w os"
    by (simp add: TcpServer_delete_def TcpServer_Close_def TcpServer_new_def Let_def)
  then have "IMachine_delete K m1 = Inl Uninitialised"
    using l assms by (auto simp: IMachine_delete_def delete_member_def links_def split: if_splits)
  with r show ?thesis by blast
qed

theorem destructor_uninitialised_witness:
  "\<exists>ok c m'. ReadCfg (\<lambda>c w. ((9, []), w)) example_junk IniFile_new raw_machine = Inr (ok, c, m') \<and>
    IMachine_delete (\<lambda>c w. ((9, []), w)) m' = Inl Uninitialised"
  using destructor_uninitialised [of raw_machine "\<lambda>c w. ((9, []), w)" example_junk IniFile_new] by (simp add: raw_machine_def)

end
