(* ===== verification/Process.thy ===== *)
theory Process
  imports Lane Startup
begin

text \<open>
  The whole process: \<open>main\<close> and the start of the controller (theory \<open>Startup\<close>) followed by any interleaving of
  the turns of its threads (theory \<open>Lane\<close>). The start writes to no pin, so both motor outputs are off when
  the threads begin; from there on the invariant of \<open>Lane\<close> carries the run.
\<close>

section \<open>The start writes no level\<close>

definition low :: "'w os \<Rightarrow> bool" where
  "low s \<longleftrightarrow> (\<forall>f. Write_fd f (level_bytes True) \<notin> set (calls s))"

lemma low_after [simp]: "low (after K c s) \<longleftrightarrow> low s \<and> (\<forall>f. c \<noteq> Write_fd f (level_bytes True))"
  by (auto simp: low_def)









section \<open>The state the start leaves\<close>

text \<open>
  \<open>dormant m0 m\<close>: \<open>m\<close> has come from \<open>m0\<close> without a level written to a pin and without a pulse started.
\<close>

definition dormant :: "('c, 'w) machine \<Rightarrow> ('c, 'w) machine \<Rightarrow> bool" where
  "dormant m0 m \<longleftrightarrow> balustradeThread m = balustradeThread m0 \<and> (low (machine_os m0) \<longrightarrow> low (machine_os m))"


lemma dormant_trans: "dormant m0 m1 \<Longrightarrow> dormant m1 m2 \<Longrightarrow> dormant m0 m2"
  by (simp add: dormant_def)


lemma dormant_updates [simp]:
  "dormant m (m'\<lparr>communication := a, LedMode := b, Client1 := c, Client2 := d\<rparr>) = dormant m m'"
  "dormant m (m'\<lparr>Serial1 := s\<rparr>) = dormant m m'" "dormant m (m'\<lparr>Tcp1 := t1, Tcp2 := t2\<rparr>) = dormant m m'"
  "dormant m (m'\<lparr>Led := q\<rparr>) = dormant m m'"
  by (simp_all add: dormant_def)




lemma low_set_socket_options [simp]: "low (set_socket_options K sock s) = low s"
  by (simp add: set_socket_options_def)




section \<open>Properties\<close>















end
