(* ===== verification/Interleaving.thy ===== *)
theory Interleaving
  imports Display
begin

text \<open>
  The critical sections of \<open>Mutex\<close> (src/kernel_list.cpp) as steps that threads interleave: the display thread
  (\<open>DisplayThread\<close>, src/QYLED.cpp) first makes the nodes of the lines 0 to 10, one at a time
  (\<open>ListTaskInit\<close>), then for ever searches the list (\<open>FindNode\<close>) and, in a section of its own, copies the node it
  found; any number of producers call \<open>ShowAdd\<close>, whose \<open>Node_Change\<close> is one section when the line has a node,
  and two, with anything between them, when it has none.

  It is proved that the display gets the newest frame of every line as long as every post finds a node, and
  that it need not when one does not.
\<close>

section \<open>The system\<close>

datatype task_event = Missed int | Posted int "byte list" nat | Taken int "byte list" nat

text \<open>
  The list; the lines \<open>ListTaskInit\<close> has still to make; the thread's local \<open>node\<close>; the data of producers that
  are between the two sections of \<open>Node_Change\<close>; and the trace of what was posted and taken.
\<close>

type_synonym task_system = "klist \<times> int list \<times> addr option \<times> Node_Data list \<times> task_event list"

inductive task_step :: "task_system \<Rightarrow> task_system \<Rightarrow> bool" where
  make: "add_task_node i k = Inr k' \<Longrightarrow> task_step (k, i # todo, n, fl, tr) (k', todo, n, fl, tr)"
| change: "show_data l (fr @ rest) (int (length fr)) t k = Inr d \<Longrightarrow> change_node d k = Inr (True, k') \<Longrightarrow>
    task_step (k, todo, n, fl, tr) (k', todo, n, fl, tr @ [Posted l fr t])"
| miss: "show_data l (fr @ rest) (int (length fr)) t k = Inr d \<Longrightarrow> change_node d k = Inr (False, k') \<Longrightarrow>
    task_step (k, todo, n, fl, tr) (k', todo, n, fl @ [d], tr @ [Missed l])"
| add_new: "append_change d k = Inr k' \<Longrightarrow>
    task_step (k, todo, n, fl @ d # gl, tr)
      (k', todo, n, fl @ gl, tr @ [Posted (Line d) (fst (frame_of d)) (snd (frame_of d))])"
| search: "FindNode True k = Inr n \<Longrightarrow> task_step (k, [], None, fl, tr) (k, [], n, fl, tr)"
| copy: "fetch_node a k = Inr ((fr, t), k') \<Longrightarrow>
    task_step (k, [], Some a, fl, tr) (k', [], None, fl, tr @ [Taken (Line (payload (Heap k) a)) fr t])"

inductive task_reach :: "Node_Data \<Rightarrow> task_system \<Rightarrow> bool" for junk where
  start: "task_reach junk (Klist_new junk, [0..10], None, [], [])"
| step: "task_reach junk x \<Longrightarrow> task_step x y \<Longrightarrow> task_reach junk y"

text \<open>What a trace leaves waiting, and that each frame taken is the newest posted to its line.\<close>

fun still_waiting :: "task_event list \<Rightarrow> (int \<Rightarrow> (byte list \<times> nat) option) \<Rightarrow> int \<Rightarrow> (byte list \<times> nat) option" where
  "still_waiting [] w = w"
| "still_waiting (Missed l # es) w = still_waiting es w"
| "still_waiting (Posted l fr t # es) w = still_waiting es (w(l \<mapsto> (fr, t)))"
| "still_waiting (Taken l fr t # es) w = still_waiting es (w(l := None))"

fun newest_taken :: "task_event list \<Rightarrow> (int \<Rightarrow> (byte list \<times> nat) option) \<Rightarrow> bool" where
  "newest_taken [] w \<longleftrightarrow> True"
| "newest_taken (Missed l # es) w \<longleftrightarrow> newest_taken es w"
| "newest_taken (Posted l fr t # es) w \<longleftrightarrow> newest_taken es (w(l \<mapsto> (fr, t)))"
| "newest_taken (Taken l fr t # es) w \<longleftrightarrow> w l = Some (fr, t) \<and> newest_taken es (w(l := None))"

lemma still_waiting_append: "still_waiting (es @ fs) w = still_waiting fs (still_waiting es w)"
  by (induction es w rule: still_waiting.induct) (simp_all del: fun_upd_apply)

lemma newest_taken_append:
  "newest_taken (es @ fs) w \<longleftrightarrow> newest_taken es w \<and> newest_taken fs (still_waiting es w)"
  by (induction es w rule: newest_taken.induct) (simp_all del: fun_upd_apply)

section \<open>The steps on the contents\<close>

lemma show_data_inv:
  assumes "show_data l (fr @ rest) (int (length fr)) t k = Inr d"
  shows "d = shown (Junk k) l fr t" and "length fr \<le> length (QLED_Data (Junk k))"
  using assms by (auto simp: show_data_def shown_def wr_block_def split: if_splits)

lemma slot_status_False: "\<not> status d \<Longrightarrow> Line d \<notin> Line ` set ds \<Longrightarrow> slot (ds @ [d]) = slot ds"
  by (induction ds) (auto simp: fun_eq_iff)

lemma change_node_tasks:
  assumes "tasks_ok k" and "length fr \<le> 1024" and "change_node (shown (Junk k) l fr t) k = Inr (True, k')"
  shows "tasks_ok k'" and "waiting k' = (waiting k)(l \<mapsto> (fr, t))" and "keeps_waiting k k'"
    and "map Line (contents k') = map Line (contents k)"
proof -
  let ?d = "shown (Junk k) l fr t"
  have kk: "klist_ok k" and J: "length (QLED_Data (Junk k)) = 1024"
    using assms(1) by (simp_all add: tasks_ok_def)
  have hit: "Line ?d \<in> Line ` set (contents k)"
    using change_node_missed [OF kk] assms(3) by fastforce
  have k': "klist_ok k'" "contents k' = put_line ?d (contents k)" "Junk k' = Junk k" "keeps_waiting k k'"
    using change_node_found [OF kk hit] assms(3) by simp_all
  from k'(4) show "keeps_waiting k k'" .
  show "tasks_ok k'"
    using assms(1,2) J set_put_line [of ?d "contents k"] k'
    by (auto simp: tasks_ok_def distinct_put_line shown_def)
  show "waiting k' = (waiting k)(l \<mapsto> (fr, t))"
    using k'(2) by (simp add: waiting_def slot_put_line frame_of_def shown_def)
  have "map Line (put_line ?d ds) = map Line ds" if "Line ?d \<in> Line ` set ds" for ds
    using that by (induction ds) auto
  then show "map Line (contents k') = map Line (contents k)"
    using hit k'(2) by simp
qed

definition none_missed :: "task_event list \<Rightarrow> bool" where
  "none_missed tr \<longleftrightarrow> (\<forall>l. Missed l \<notin> set tr)"

definition task_inv :: "task_system \<Rightarrow> bool" where
  "task_inv x = (case x of (k, todo, n, fl, tr) \<Rightarrow>
     tasks_ok k \<and> map Line (contents k) @ todo = [0..10] \<and> fl = [] \<and>
     (\<forall>a. n = Some a \<longrightarrow> todo = [] \<and> a \<in> set (nodes k) \<and> status (payload (Heap k) a)) \<and>
     waiting k = still_waiting tr Map.empty \<and> newest_taken tr Map.empty)"

lemma task_step_inv:
  assumes "task_step x y" and "task_inv x" and "none_missed (snd (snd (snd (snd y))))"
  shows "task_inv y"
  using assms
proof (induction rule: task_step.induct)
  case (make i k k' todo n fl tr)
  then have k: "tasks_ok k" "klist_ok k" "length (QLED_Data (Junk k)) = 1024" and ls: "map Line (contents k) @ i # todo = [0..10]"
    and n: "n = None"
    by (auto simp: task_inv_def tasks_ok_def)
  let ?d = "(Junk k)\<lparr>status := False, Line := i\<rparr>"
  have k': "klist_ok k'" "Junk k' = Junk k" "contents k' = contents k @ [?d]"
    using add_task_node_ok [OF k(2), of i] make(1) by auto
  have "distinct (map Line (contents k) @ i # todo)"
    unfolding ls by (rule distinct_upto)
  then have "i \<notin> Line ` set (contents k)" and "distinct (map Line (contents k'))"
    by (auto simp: k'(3))
  then have "tasks_ok k'" and "waiting k' = waiting k"
    using k k' slot_status_False [of ?d "contents k"] by (auto simp: tasks_ok_def waiting_def)
  with make(2) ls n show ?case
    by (simp add: task_inv_def k'(3))
next
  case (change l fr rest t k d k' todo n fl tr)
  then have k: "tasks_ok k" "length (QLED_Data (Junk k)) = 1024"
    by (auto simp: task_inv_def tasks_ok_def)
  have d: "d = shown (Junk k) l fr t" and l: "length fr \<le> 1024"
    using show_data_inv [OF change(1)] k(2) by simp_all
  from change_node_tasks [OF k(1) l change(2) [unfolded d]] change(3) show ?case
    by (auto simp: task_inv_def keeps_waiting_def still_waiting_append newest_taken_append)
next
  case (miss l fr rest t k d k' todo n fl tr)
  then show ?case
    by (auto simp: none_missed_def)
next
  case (add_new d k k' todo n fl gl tr)
  then show ?case
    by (simp add: task_inv_def)
next
  case (search k n fl tr)
  then show ?case
    using FindNode_waiting [of k] by (auto simp: task_inv_def)
next
  case (copy a k fr t k' fl tr)
  then have "tasks_ok k" and "a \<in> set (nodes k)" and "status (payload (Heap k) a)"
    by (auto simp: task_inv_def)
  from fetch_node_ok [OF this] copy show ?case
    by (auto simp: task_inv_def still_waiting_append newest_taken_append)
qed

lemma task_step_trace: "task_step x y \<Longrightarrow> none_missed (snd (snd (snd (snd y)))) \<Longrightarrow> none_missed (snd (snd (snd (snd x))))"
  by (induction rule: task_step.induct) (auto simp: none_missed_def)

lemma task_reach_inv:
  "task_reach junk x \<Longrightarrow> length (QLED_Data junk) = 1024 \<Longrightarrow> none_missed (snd (snd (snd (snd x)))) \<Longrightarrow> task_inv x"
proof (induction rule: task_reach.induct)
  case start
  then show ?case
    by (simp add: task_inv_def tasks_ok_def Klist_new_ok contents_Klist_new waiting_def fun_eq_iff)
next
  case (step x y)
  then show ?case
    using task_step_inv task_step_trace by blast
qed

text \<open>With nothing missed, and \<open>ListTaskInit\<close> through, the lines 0 to 10 have their nodes.\<close>

lemma line_has_node:
  assumes "task_inv (k, [], n, fl, tr)" and "l \<in> {0..10}" and "length fr \<le> 1024"
  shows "\<exists>d k'. show_data l (fr @ rest) (int (length fr)) t k = Inr d \<and> change_node d k = Inr (True, k')"
proof -
  have k: "klist_ok k" "length (QLED_Data (Junk k)) = 1024" "map Line (contents k) = [0..10]"
    using assms(1) by (auto simp: task_inv_def tasks_ok_def)
  have "set (map Line (contents k)) = {0..10}"
    unfolding k(3) by simp
  then have "Line (shown (Junk k) l fr t) \<in> Line ` set (contents k)"
    using assms(2) by (simp add: shown_def)
  from change_node_found [OF k(1) this] show_data_ok [of fr k l rest t] assms(3) k(2) show ?thesis
    by auto
qed

section \<open>A line without a node\<close>

text \<open>The first waiting node, found and copied.\<close>

lemma take_first:
  assumes "klist_ok k" and "contents k = ys @ d # zs" and "\<forall>y\<in>set ys. \<not> status y" and "status d"
    and "length (QLED_Data d) = 1024" and "0 \<le> QLED_Data_Len d" and "QLED_Data_Len d \<le> 1024"
  shows "\<exists>a k'. task_step (k, [], None, fl, tr) (k, [], Some a, fl, tr) \<and>
    task_step (k, [], Some a, fl, tr) (k', [], None, fl, tr @ [Taken (Line d) (fst (frame_of d)) (snd (frame_of d))]) \<and>
    klist_ok k' \<and> Junk k' = Junk k \<and> contents k' = ys @ d\<lparr>status := False\<rparr> # zs"
proof -
  obtain as a bs where n: "nodes k = as @ a # bs" "map (payload (Heap k)) as = ys" "payload (Heap k) a = d"
      "map (payload (Heap k)) bs = zs"
    using assms(2) unfolding contents_def by (auto simp: map_eq_append_conv map_eq_Cons_conv)
  have "\<forall>x\<in>set as. \<not> status (payload (Heap k) x)"
    using assms(3) n(2) by auto
  then have "find (\<lambda>a. status (payload (Heap k) a) = True) (nodes k) = Some a"
    unfolding n(1) using assms(4) n(3) by (induction as) auto
  then have "FindNode True k = Inr (Some a)"
    using FindNode_ok [OF assms(1), of True] by simp
  moreover obtain k' where "fetch_node a k = Inr (frame_of d, k')" "klist_ok k'" "Junk k' = Junk k"
      "contents k' = ys @ d\<lparr>status := False\<rparr> # zs"
    using fetch_node_at [OF assms(1) n(1)] assms(5-7) n(2-4) by auto
  ultimately show ?thesis
    using task_step.search [of k "Some a" fl tr] task_step.copy [of a k "fst (frame_of d)" "snd (frame_of d)" k' fl tr] n(3)
    by (intro exI [of _ a] exI [of _ k']) simp
qed

text \<open>
  Two producers post to a line that has no node: both search before either has inserted its node, and both
  insert one. A third frame goes to the first of the two nodes, the thread sends it, and then sends the older
  frame of the second node: the display ends up showing an outdated text.
\<close>

lemma miss_line:
  assumes "klist_ok k" and "l \<notin> Line ` set (contents k)" and "length fr \<le> length (QLED_Data (Junk k))"
  shows "task_step (k, todo, n, fl, tr) (k, todo, n, fl @ [shown (Junk k) l fr t], tr @ [Missed l])"
proof (rule task_step.miss)
  show "show_data l (fr @ []) (int (length fr)) t k = Inr (shown (Junk k) l fr t)"
    using show_data_ok [OF assms(3)] .
  show "change_node (shown (Junk k) l fr t) k = Inr (False, k)"
    using change_node_missed [OF assms(1)] assms(2) by (simp add: shown_def)
qed

lemma make_lines:
  assumes "task_reach junk (k, todo, n, fl, tr)" and "klist_ok k"
  shows "\<exists>k'. task_reach junk (k', [], n, fl, tr) \<and> klist_ok k' \<and> Junk k' = Junk k \<and>
    contents k' = contents k @ map (\<lambda>i. (Junk k)\<lparr>status := False, Line := i\<rparr>) todo"
  using assms
proof (induction todo arbitrary: k)
  case Nil
  then show ?case by auto
next
  case (Cons i todo)
  obtain k1 where k1: "add_task_node i k = Inr k1" "klist_ok k1" "Junk k1 = Junk k"
      "contents k1 = contents k @ [(Junk k)\<lparr>status := False, Line := i\<rparr>]"
    using add_task_node_ok [OF Cons.prems(2)] by blast
  have "task_reach junk (k1, todo, n, fl, tr)"
    using task_reach.step [OF Cons.prems(1) task_step.make [OF k1(1)]] .
  from Cons.IH [OF this k1(2)] show ?case
    using k1(3,4) by auto
qed

lemma two_nodes:
  assumes "length (QLED_Data junk) = 1024" and "length f1 \<le> 1024" and "length f2 \<le> 1024"
  shows "\<exists>k zs. task_reach junk (k, [], None, [], [Missed L, Missed L, Posted L f1 t, Posted L f2 t]) \<and>
    klist_ok k \<and> Junk k = junk \<and>
    contents k = (shown junk L f1 t)\<lparr>status := True\<rparr> # (shown junk L f2 t)\<lparr>status := True\<rparr> # zs"
proof -
  let ?k0 = "Klist_new junk" and ?d1 = "shown junk L f1 t" and ?d2 = "shown junk L f2 t"
  have f: "frame_of ?d1 = (f1, t)" "frame_of ?d2 = (f2, t)" "Line ?d1 = L" "Line ?d2 = L"
    by (simp_all add: frame_of_def shown_def)
  have k0: "klist_ok ?k0" "contents ?k0 = []" "Junk ?k0 = junk"
    by (simp_all add: Klist_new_ok contents_Klist_new)
  have r2: "task_reach junk (?k0, [0..10], None, [?d1, ?d2], [Missed L, Missed L])"
    using task_reach.step [OF task_reach.step [OF task_reach.start miss_line [OF k0(1), of L f1 _ _ _ _ t]]
        miss_line [OF k0(1), of L f2 _ _ _ _ t]] assms k0(2,3) by simp
  obtain k1 where k1: "append_change ?d1 ?k0 = Inr k1" "klist_ok k1" "contents k1 = [?d1\<lparr>status := True\<rparr>]" "Junk k1 = junk"
    using append_change_ok [OF k0(1), of ?d1] k0(2,3) by auto
  obtain k2 where k2: "append_change ?d2 k1 = Inr k2" "klist_ok k2"
      "contents k2 = [?d1\<lparr>status := True\<rparr>, ?d2\<lparr>status := True\<rparr>]" "Junk k2 = junk"
    using append_change_ok [OF k1(2), of ?d2] k1(3,4) by auto
  have r4: "task_reach junk (k2, [0..10], None, [], [Missed L, Missed L, Posted L f1 t, Posted L f2 t])"
    using task_reach.step [OF task_reach.step [OF r2 task_step.add_new [OF k1(1), of _ _ "[]" "[?d2]", simplified]]
        task_step.add_new [OF k2(1), of _ _ "[]" "[]", simplified]] f by simp
  then show ?thesis
    using make_lines [OF r4 k2(2)] k2(3,4) by auto
qed

text \<open>The search and the copy in a row.\<close>

lemma take_reach:
  assumes "task_reach junk (k, [], None, fl, tr)" and "klist_ok k" and "contents k = ys @ d # zs"
    and "\<forall>y\<in>set ys. \<not> status y" and "status d"
    and "length (QLED_Data d) = 1024" and "0 \<le> QLED_Data_Len d" and "QLED_Data_Len d \<le> 1024"
  shows "\<exists>k'. task_reach junk (k', [], None, fl, tr @ [Taken (Line d) (fst (frame_of d)) (snd (frame_of d))]) \<and>
    klist_ok k' \<and> contents k' = ys @ d\<lparr>status := False\<rparr> # zs"
  using take_first [OF assms(2-8), of fl tr] task_reach.step [OF task_reach.step [OF assms(1)]] by blast

lemma older_frame_sent_last:
  assumes J: "length (QLED_Data junk) = 1024" and l: "length f1 \<le> 1024" "length f2 \<le> 1024" "length f3 \<le> 1024"
  shows "\<exists>k. task_reach junk (k, [], None, [], [Missed L, Missed L, Posted L f1 t, Posted L f2 t, Posted L f3 t,
    Taken L f3 t, Taken L f2 t])"
proof -
  let ?d2 = "(shown junk L f2 t)\<lparr>status := True\<rparr>" and ?d3 = "shown junk L f3 t"
  let ?e3 = "?d3\<lparr>status := True\<rparr>"
  have f: "frame_of ?d2 = (f2, t)" "frame_of ?e3 = (f3, t)" "Line ?d2 = L" "Line ?d3 = L"
    and ok: "length (QLED_Data ?d2) = 1024" "0 \<le> QLED_Data_Len ?d2" "QLED_Data_Len ?d2 \<le> 1024"
      "length (QLED_Data ?e3) = 1024" "0 \<le> QLED_Data_Len ?e3" "QLED_Data_Len ?e3 \<le> 1024"
    using J l by (simp_all add: frame_of_def shown_def)
  obtain k3 zs where k3: "task_reach junk (k3, [], None, [], [Missed L, Missed L, Posted L f1 t, Posted L f2 t])"
      "klist_ok k3" "Junk k3 = junk" "contents k3 = (shown junk L f1 t)\<lparr>status := True\<rparr> # ?d2 # zs"
    using two_nodes [OF J l(1,2)] by blast
  have "Line ?d3 \<in> Line ` set (contents k3)"
    by (simp add: k3(4) shown_def)
  then obtain k4 where k4: "change_node ?d3 k3 = Inr (True, k4)" "klist_ok k4" "contents k4 = ?e3 # ?d2 # zs"
    using change_node_found [OF k3(2), of ?d3] k3(4) by (auto simp: shown_def)
  have "show_data L (f3 @ []) (int (length f3)) t k3 = Inr ?d3"
    using show_data_ok [of f3 k3 L "[]" t] J l(3) k3(3) by simp
  from task_reach.step [OF k3(1) task_step.change [OF this k4(1)]]
  have "task_reach junk (k4, [], None, [], [Missed L, Missed L, Posted L f1 t, Posted L f2 t, Posted L f3 t])"
    by simp
  from take_reach [OF this k4(2), of "[]" ?e3 "?d2 # zs"] obtain k5
    where k5: "task_reach junk (k5, [], None, [], [Missed L, Missed L, Posted L f1 t, Posted L f2 t, Posted L f3 t, Taken L f3 t])"
      "klist_ok k5" "contents k5 = [?e3\<lparr>status := False\<rparr>] @ ?d2 # zs"
    using k4(3) ok f by auto
  from take_reach [OF k5] ok f show ?thesis
    by auto
qed

section \<open>Properties\<close>

text \<open>
  C13. Whatever the interleaving of producers and display thread, from the first node that \<open>ListTaskInit\<close> makes on:
  as long as no post misses, that is, finds no node of its line, a frame the thread takes for a
  line is the newest one posted to that line and is taken once; what is still waiting is exactly
  what was posted and not yet taken; and the copy of a node found earlier never follows a dangling
  pointer or leaves its buffer. And once \<open>ListTaskInit\<close> is through, no post of at most 1024 bytes to one of the lines 0 to 10,
  the only ones the program posts to, misses.
\<close>

theorem display_takes_newest:
  assumes "length (QLED_Data junk) = 1024" and "task_reach junk (k, todo, n, fl, tr)" and "\<forall>l. Missed l \<notin> set tr"
  shows "newest_taken tr Map.empty \<and> waiting k = still_waiting tr Map.empty \<and>
    (\<forall>a. n = Some a \<longrightarrow> (\<exists>x k'. fetch_node a k = Inr (x, k'))) \<and>
    (\<forall>l fr rest t. todo = [] \<and> l \<in> {0..10} \<and> length fr \<le> 1024 \<longrightarrow>
       (\<exists>d k'. show_data l (fr @ rest) (int (length fr)) t k = Inr d \<and> change_node d k = Inr (True, k')))"
proof -
  have inv: "task_inv (k, todo, n, fl, tr)"
    using task_reach_inv [OF assms(2,1)] assms(3) by (simp add: none_missed_def)
  then show ?thesis
    using fetch_node_ok [of k] line_has_node [of k n fl tr] by (fastforce simp: task_inv_def)
qed

theorem display_takes_newest_witness:
  "\<exists>k. task_reach \<lparr>status = True, Line = 0, QLED_Data_Len = 0, TimeOut = 0, QLED_Data = replicate 1024 0xCC\<rparr>
      (k, [], None, [], [Posted 9 (switch_frame 1) 150]) \<and>
    waiting k = [9 \<mapsto> (switch_frame 1, 150)]"
proof -
  let ?J = "\<lparr>status = True, Line = 0, QLED_Data_Len = 0, TimeOut = 0, QLED_Data = replicate 1024 0xCC\<rparr>"
  let ?fr = "switch_frame 1"
  have J: "length (QLED_Data ?J) = 1024" and l: "length ?fr \<le> 1024"
    by (simp_all add: length_const_frames)
  obtain k where r: "task_reach ?J (k, [], None, [], [])"
    using make_lines [OF task_reach.start Klist_new_ok] by blast
  have nm: "\<forall>l. Missed l \<notin> set []"
    by simp
  obtain d k' where d: "show_data 9 (?fr @ []) (int (length ?fr)) 150 k = Inr d" "change_node d k = Inr (True, k')"
    using display_takes_newest [OF J r nm, THEN conjunct2, THEN conjunct2, THEN conjunct2, rule_format, of 9 ?fr "[]" 150] l
    by auto
  have r': "task_reach ?J (k', [], None, [], [Posted 9 ?fr 150])"
    using task_reach.step [OF r task_step.change [OF d]] by simp
  then show ?thesis
    using display_takes_newest [OF J r'] by (intro exI [of _ k']) simp
qed

end
