(* ===== verification/Barrier.thy ===== *)
theory Barrier
  imports Machine
begin

text \<open>
  The barrier command in small steps. \<open>BalusTrade\<close> (src/IMachine.cpp) is called by both receiving threads and takes
  no lock; it blocks in \<open>join\<close> until the pulse of the former command is over, which takes up to a second, then
  drives the two motor outputs one after the other and starts the thread of the next pulse. Here it is
  cut into the steps between which another thread may act. It is proved which calls may overlap: the two outputs
  are never asked to be on together as long as one command is handled at a time, and they can be when
  two are.
\<close>

section \<open>The steps\<close>

text \<open>
  Where a receiving thread is in \<open>BalusTrade\<close>, with the byte \<open>Cmd[1]\<close>: not in it, before the test of
  \<open>joinable\<close>, in \<open>join\<close>, before the first write, between the two, before the start of the new thread.
\<close>

datatype barrier_pc = Outside | Test byte | Join byte | First byte | Second byte | Spawn byte

text \<open>
  The controller, whether the pulse thread has made the first of its two writes, and the place of each
  receiving thread. With \<open>exclusive\<close>, a command begins only when none is being handled. \<open>join\<close> waits for the
  end of the pulse thread. What two threads in \<open>join\<close> at once, or assigning to a thread object that is
  joinable, lead to is undefined or ends the program: there is no step for it.
\<close>

type_synonym ('c, 'w) barrier_state = "('c, 'w) machine \<times> bool \<times> (nat \<Rightarrow> barrier_pc)"

inductive barrier_step ::
  "bool \<Rightarrow> ('w, 'cd) platform \<Rightarrow> ('c, 'w) barrier_state \<Rightarrow> ('c, 'w) barrier_state \<Rightarrow> bool" for exclusive P where
  enter: "k \<in> {1, 2} \<Longrightarrow> pcs k = Outside \<Longrightarrow> exclusive \<longrightarrow> (\<forall>j. pcs j = Outside) \<Longrightarrow>
    barrier_step exclusive P (m, h, pcs) (m, h, pcs(k := Test c))"
| test: "pcs k = Test c \<Longrightarrow>
    barrier_step exclusive P (m, h, pcs) (m, h, pcs(k := if joinable (balustradeThread m) then Join c else First c))"
| join: "pcs k = Join c \<Longrightarrow> balustradeThread m = Finished \<Longrightarrow>
    barrier_step exclusive P (m, h, pcs) (m\<lparr>balustradeThread := NotStarted\<rparr>, h, pcs(k := First c))"
| first: "pcs k = First c \<Longrightarrow> c \<in> {0, 1} \<Longrightarrow>
    run_pin (if c = 0 then SetOff else SetOn) P (Balustrade_up m) m = Inr m' \<Longrightarrow>
    barrier_step exclusive P (m, h, pcs) (m', h, pcs(k := Second c))"
| second: "pcs k = Second c \<Longrightarrow>
    run_pin (if c = 0 then SetOn else SetOff) P (Balustrade_down m) m = Inr m' \<Longrightarrow>
    barrier_step exclusive P (m, h, pcs) (m', h, pcs(k := Spawn c))"
| spawn: "pcs k = Spawn c \<Longrightarrow> \<not> joinable (balustradeThread m) \<Longrightarrow>
    barrier_step exclusive P (m, h, pcs) (m\<lparr>balustradeThread := Running\<rparr>, False, pcs(k := Outside))"
| neither: "pcs k = First c \<Longrightarrow> c \<notin> {0, 1} \<Longrightarrow>
    barrier_step exclusive P (m, h, pcs) (m, h, pcs(k := Outside))"
| pulse_up: "balustradeThread m = Running \<Longrightarrow> \<not> h \<Longrightarrow> run_pin SetOff P (Balustrade_up m) m = Inr m' \<Longrightarrow>
    barrier_step exclusive P (m, h, pcs) (m', True, pcs)"
| pulse_down: "balustradeThread m = Running \<Longrightarrow> h \<Longrightarrow> run_pin SetOff P (Balustrade_down m) m = Inr m' \<Longrightarrow>
    barrier_step exclusive P (m, h, pcs) (m'\<lparr>balustradeThread := Finished\<rparr>, False, pcs)"
| other: "calls (machine_os m') = calls (machine_os m) @ cs \<Longrightarrow> motor_silent m cs \<Longrightarrow> pins_ok m' \<Longrightarrow>
    Balustrade_up m' = Balustrade_up m \<Longrightarrow> Balustrade_down m' = Balustrade_down m \<Longrightarrow>
    balustradeThread m' = balustradeThread m \<Longrightarrow> barrier_step exclusive P (m, h, pcs) (m', h, pcs)"

definition outside :: "nat \<Rightarrow> barrier_pc" where
  "outside k = Outside"

section \<open>The steps of one command make up the handler\<close>

definition motor_ready :: "int \<Rightarrow> int \<Rightarrow> ('c, 'w) machine \<Rightarrow> bool" where
  "motor_ready u d m \<longleftrightarrow> pins_ok m \<and> isOpen (Balustrade_up m) \<and> isOpen (Balustrade_down m) \<and>
     fd (Balustrade_up m) = Some u \<and> fd (Balustrade_down m) = Some d"

lemma motor_ready_updates [simp]:
  "motor_ready u d (m\<lparr>machine_os := s\<rparr>) = motor_ready u d m"
  "motor_ready u d (m\<lparr>balustradeThread := t\<rparr>) = motor_ready u d m"
  by (simp_all add: motor_ready_def pins_ok_def)

lemma run_motor_pin:
  assumes "motor_ready u d m"
  shows "run_pin SetOff P (Balustrade_up m) m = Inr (m\<lparr>machine_os := pin_os (kernel P) (Balustrade_up m) False (machine_os m)\<rparr>)"
    and "run_pin SetOn P (Balustrade_up m) m = Inr (m\<lparr>machine_os := pin_os (kernel P) (Balustrade_up m) True (machine_os m)\<rparr>)"
    and "run_pin SetOff P (Balustrade_down m) m = Inr (m\<lparr>machine_os := pin_os (kernel P) (Balustrade_down m) False (machine_os m)\<rparr>)"
    and "run_pin SetOn P (Balustrade_down m) m = Inr (m\<lparr>machine_os := pin_os (kernel P) (Balustrade_down m) True (machine_os m)\<rparr>)"
    and "pin_calls (Balustrade_up m) a = [Write_fd u (level_bytes a)]"
    and "pin_calls (Balustrade_down m) a = [Write_fd d (level_bytes a)]"
  using assms by (simp_all add: motor_ready_def pins_ok_def pin_simps pin_calls_def)

text \<open>The pulse thread from its start to its end is \<open>Balustrade_Thread\<close>.\<close>

lemma pulse_steps:
  assumes "pins_ok m" and "balustradeThread m = Running" and "Balustrade_Thread P m = Inr m'"
  shows "(barrier_step ex P)\<^sup>*\<^sup>* (m, False, pcs) (m', False, pcs)"
proof -
  let ?s = "pin_os (kernel P) (Balustrade_up m) False (machine_os m)"
  have g: "gpio_ok (Balustrade_up m)" "gpio_ok (Balustrade_down m)"
    using assms(1) by (simp_all add: pins_ok_def)
  have m': "m' = m\<lparr>machine_os := pin_os (kernel P) (Balustrade_down m) False ?s, balustradeThread := Finished\<rparr>"
    using assms(3) Balustrade_Thread_ok [OF assms(1), of P] by (simp add: motor_os_def)
  have "barrier_step ex P (m, False, pcs) (m\<lparr>machine_os := ?s\<rparr>, True, pcs)"
    using assms(2) g by (intro barrier_step.pulse_up) (simp_all add: pin_simps)
  moreover have "barrier_step ex P (m\<lparr>machine_os := ?s\<rparr>, True, pcs) (m', False, pcs)"
    using barrier_step.pulse_down [of "m\<lparr>machine_os := ?s\<rparr>" True P "m\<lparr>machine_os := pin_os (kernel P) (Balustrade_down m) False ?s\<rparr>"
        ex pcs] assms(2) g by (simp add: m' pin_simps)
  ultimately show ?thesis
    by (rule converse_rtranclp_into_rtranclp [OF _ r_into_rtranclp])
qed

lemma wait_steps:
  assumes "pins_ok m" and "pcs k = Test c"
  shows "(barrier_step ex P)\<^sup>*\<^sup>* (m, False, pcs)
    (m\<lparr>machine_os := joined_os (kernel P) m, balustradeThread := NotStarted\<rparr>, False, pcs(k := First c))"
proof (cases "balustradeThread m = NotStarted")
  case True
  then have "m\<lparr>machine_os := joined_os (kernel P) m, balustradeThread := NotStarted\<rparr> = m"
    by (cases m) (simp add: joined_os_def)
  then show ?thesis
    using barrier_step.test [of pcs k c ex P m False] assms(2) True by (simp add: joinable_def r_into_rtranclp)
next
  case False
  then have t: "barrier_step ex P (m, False, pcs) (m, False, pcs(k := Join c))"
    using barrier_step.test [of pcs k c ex P m False] assms(2) by (simp add: joinable_def)
  let ?m1 = "m\<lparr>machine_os := joined_os (kernel P) m, balustradeThread := Finished\<rparr>"
  have "(barrier_step ex P)\<^sup>*\<^sup>* (m, False, pcs(k := Join c)) (?m1, False, pcs(k := Join c))"
  proof (cases "balustradeThread m = Running")
    case True
    then show ?thesis
      using pulse_steps [OF assms(1) True] Balustrade_Thread_ok [OF assms(1), of P] by (simp add: joined_os_def)
  next
    case F: False
    then have "?m1 = m"
      using False by (cases m; cases "balustradeThread m") (simp_all add: joined_os_def)
    then show ?thesis
      by simp
  qed
  moreover have "barrier_step ex P (?m1, False, pcs(k := Join c))
      (m\<lparr>machine_os := joined_os (kernel P) m, balustradeThread := NotStarted\<rparr>, False, pcs(k := First c))"
    using barrier_step.join [of "pcs(k := Join c)" k c ?m1 ex P False] by simp
  ultimately show ?thesis
    using t by (meson converse_rtranclp_into_rtranclp rtranclp.rtrancl_into_rtrancl)
qed

lemma drive_steps:
  assumes "pins_ok m" and "pcs k = First c" and "balustradeThread m = NotStarted"
  shows "(barrier_step ex P)\<^sup>*\<^sup>* (m, False, pcs) (m\<lparr>machine_os := requested_os (kernel P) c m (machine_os m),
    balustradeThread := if c \<in> {0, 1} then Running else NotStarted\<rparr>, False, pcs(k := Outside))"
proof (cases "c \<in> {0, 1}")
  case True
  have g: "gpio_ok (Balustrade_up m)" "gpio_ok (Balustrade_down m)"
    using assms(1) by (simp_all add: pins_ok_def)
  let ?s1 = "pin_os (kernel P) (Balustrade_up m) (c \<noteq> 0) (machine_os m)"
  let ?s2 = "pin_os (kernel P) (Balustrade_down m) (c = 0) ?s1"
  let ?m1 = "m\<lparr>machine_os := ?s1\<rparr>" and ?m2 = "m\<lparr>machine_os := ?s2\<rparr>"
  have "barrier_step ex P (m, False, pcs) (?m1, False, pcs(k := Second c))"
    using assms(2) True g by (intro barrier_step.first) (auto simp: pin_simps)
  moreover have "barrier_step ex P (?m1, False, pcs(k := Second c)) (?m2, False, pcs(k := Spawn c))"
    using barrier_step.second [of "pcs(k := Second c)" k c P ?m1 ?m2 ex False] g by (auto simp: pin_simps)
  moreover have "barrier_step ex P (?m2, False, pcs(k := Spawn c)) (?m2\<lparr>balustradeThread := Running\<rparr>, False, pcs(k := Outside))"
    using barrier_step.spawn [of "pcs(k := Spawn c)" k c ?m2 ex P False] assms(3) by (simp add: joinable_def)
  moreover have "?s2 = requested_os (kernel P) c m (machine_os m)"
    using True by (auto simp: requested_os_def motor_os_def)
  ultimately show ?thesis
    using True by simp
next
  case False
  then have "m\<lparr>machine_os := requested_os (kernel P) c m (machine_os m), balustradeThread := NotStarted\<rparr> = m"
    using assms(3) by (cases m) (auto simp: requested_os_def)
  then show ?thesis
    using barrier_step.neither [of pcs k c ex P m False] assms(2) False by (simp add: r_into_rtranclp)
qed

text \<open>A command that no other thread interrupts has the effect of \<open>BalusTrade\<close>, whose wait runs the rest of the pulse.\<close>

lemma command_steps:
  fixes k :: nat
  assumes "pins_ok m" and "1 < length Cmd" and "BalusTrade P Cmd n Oput m = Inr (r, Oput', m')" and "k \<in> {1, 2}"
  shows "(barrier_step ex P)\<^sup>*\<^sup>* (m, False, outside) (m', False, outside)"
proof -
  let ?c = "Cmd ! 1" and ?pcs = "outside(k := Test (Cmd ! 1))"
  let ?m1 = "m\<lparr>machine_os := joined_os (kernel P) m, balustradeThread := NotStarted\<rparr>"
  have m': "m' = after_barrier (kernel P) ?c m"
    using BalusTrade_ok [OF assms(1,2), of P n Oput] assms(3) by simp
  have eq: "m' = ?m1\<lparr>machine_os := requested_os (kernel P) ?c ?m1 (machine_os ?m1),
      balustradeThread := if ?c \<in> {0, 1} then Running else NotStarted\<rparr>"
    by (simp add: m' after_barrier_def requested_os_def motor_os_def)
  have out: "?pcs(k := First ?c, k := Outside) = outside"
    by (simp add: outside_def fun_eq_iff)
  have "pins_ok ?m1"
    using assms(1) by (simp add: pins_ok_def)
  then have "(barrier_step ex P)\<^sup>*\<^sup>* (?m1, False, ?pcs(k := First ?c)) (m', False, ?pcs(k := First ?c, k := Outside))"
    unfolding eq by (intro drive_steps) simp_all
  then have drive: "(barrier_step ex P)\<^sup>*\<^sup>* (?m1, False, ?pcs(k := First ?c)) (m', False, outside)"
    unfolding out .
  have wait: "(barrier_step ex P)\<^sup>*\<^sup>* (m, False, ?pcs) (?m1, False, ?pcs(k := First ?c))"
    using assms(1) by (intro wait_steps) simp_all
  have "barrier_step ex P (m, False, outside) (m, False, ?pcs)"
    using assms(4) by (intro barrier_step.enter) (auto simp: outside_def)
  from converse_rtranclp_into_rtranclp [of "barrier_step ex P", OF this rtranclp_trans [OF wait drive]] show ?thesis .
qed

section \<open>One command at a time\<close>

text \<open>What holds of the outputs at each place of a command, and while no command drives them.\<close>

fun place_ok :: "int \<Rightarrow> int \<Rightarrow> ('c, 'w) machine \<Rightarrow> barrier_pc \<Rightarrow> bool" where
  "place_ok u d m (First c) \<longleftrightarrow> balustradeThread m = NotStarted \<and>
     \<not> level u (calls (machine_os m)) \<and> \<not> level d (calls (machine_os m))"
| "place_ok u d m (Second c) \<longleftrightarrow> balustradeThread m = NotStarted \<and>
     level u (calls (machine_os m)) = (c \<noteq> 0) \<and> \<not> level d (calls (machine_os m))"
| "place_ok u d m (Spawn c) \<longleftrightarrow> balustradeThread m = NotStarted"
| "place_ok u d m _ \<longleftrightarrow> (balustradeThread m \<noteq> Running \<longrightarrow>
     \<not> level u (calls (machine_os m)) \<and> \<not> level d (calls (machine_os m)))"

definition one_place :: "(nat \<Rightarrow> barrier_pc) \<Rightarrow> bool" where
  "one_place pcs \<longleftrightarrow> (\<forall>j k. pcs j \<noteq> Outside \<and> pcs k \<noteq> Outside \<longrightarrow> j = k)"

text \<open>The place that matters: that of the thread that handles a command, if there is one.\<close>

definition barrier_inv :: "int \<Rightarrow> int \<Rightarrow> ('c, 'w) barrier_state \<Rightarrow> bool" where
  "barrier_inv u d x = (case x of (m, h, pcs) \<Rightarrow>
     motor_ready u d m \<and> never_both u d (calls (machine_os m)) \<and> one_place pcs \<and>
     (h \<longrightarrow> balustradeThread m = Running \<and> \<not> level u (calls (machine_os m))) \<and>
     (\<forall>k. (\<forall>j. j \<noteq> k \<longrightarrow> pcs j = Outside) \<longrightarrow> place_ok u d m (pcs k)))"

lemma one_placeD: "one_place pcs \<Longrightarrow> pcs k \<noteq> Outside \<Longrightarrow> j \<noteq> k \<Longrightarrow> pcs j = Outside"
  by (auto simp: one_place_def)

lemma barrier_inv_at:
  assumes "barrier_inv u d (m, h, pcs)" and "pcs k \<noteq> Outside"
  shows "place_ok u d m (pcs k)"
  using assms one_placeD [of pcs k] by (auto simp: barrier_inv_def)

lemma barrier_inv_move:
  assumes "motor_ready u d m" and "never_both u d (calls (machine_os m))"
    and "h \<longrightarrow> balustradeThread m = Running \<and> \<not> level u (calls (machine_os m))"
    and "\<forall>j. j \<noteq> k \<longrightarrow> pcs j = Outside" and "place_ok u d m pc"
  shows "barrier_inv u d (m, h, pcs(k := pc))"
proof -
  have "place_ok u d m ((pcs(k := pc)) i)" if "\<forall>j. j \<noteq> i \<longrightarrow> (pcs(k := pc)) j = Outside" for i
  proof (cases "i = k")
    case False
    then have "pc = Outside" and "pcs i = Outside"
      using that assms(4) by (auto dest: spec [of _ k])
    then show ?thesis
      using assms(5) False by simp
  qed (use assms(5) in simp)
  then show ?thesis
    using assms(1-4) by (auto simp: barrier_inv_def one_place_def)
qed

text \<open>Steps that move no command: what holds at every place has to be kept.\<close>

lemma barrier_inv_stay:
  assumes "barrier_inv u d (m, h, pcs)" and "motor_ready u d m'" and "never_both u d (calls (machine_os m'))"
    and "h' \<longrightarrow> balustradeThread m' = Running \<and> \<not> level u (calls (machine_os m'))"
    and "\<And>pc. place_ok u d m pc \<Longrightarrow> place_ok u d m' pc"
  shows "barrier_inv u d (m', h', pcs)"
  using assms by (auto simp: barrier_inv_def)

lemma never_both_off:
  "never_both u d tr \<Longrightarrow> \<not> level d tr \<or> \<not> a \<Longrightarrow> u \<noteq> d \<Longrightarrow> never_both u d (tr @ [Write_fd u (level_bytes a)])"
  "never_both u d tr \<Longrightarrow> \<not> level u tr \<or> \<not> a \<Longrightarrow> u \<noteq> d \<Longrightarrow> never_both u d (tr @ [Write_fd d (level_bytes a)])"
  by (auto simp: never_both_snoc)

lemma barrier_step_inv:
  assumes "barrier_step True P x y" and "barrier_inv u d x" and "u \<noteq> d"
  shows "barrier_inv u d y"
  using assms
proof (induction rule: barrier_step.induct)
  case (enter k pcs m h c)
  then have "\<forall>j. j \<noteq> k \<longrightarrow> pcs j = Outside" and "place_ok u d m (pcs k)"
    by (auto simp: barrier_inv_def)
  with enter show ?case
    by (intro barrier_inv_move) (auto simp: barrier_inv_def)
next
  case (test pcs k c m h)
  have "place_ok u d m (Test c)" and "\<forall>j. j \<noteq> k \<longrightarrow> pcs j = Outside"
    using barrier_inv_at [OF test(2), of k] one_placeD [of pcs k] test by (auto simp: barrier_inv_def)
  with test show ?case
    by (intro barrier_inv_move) (auto simp: barrier_inv_def joinable_def)
next
  case (join pcs k c m h)
  have "place_ok u d m (Join c)" and "\<forall>j. j \<noteq> k \<longrightarrow> pcs j = Outside"
    using barrier_inv_at [OF join(3), of k] one_placeD [of pcs k] join by (auto simp: barrier_inv_def)
  with join show ?case
    by (intro barrier_inv_move) (auto simp: barrier_inv_def)
next
  case (first pcs k c m m' h)
  have at: "place_ok u d m (First c)" and o: "\<forall>j. j \<noteq> k \<longrightarrow> pcs j = Outside"
    using barrier_inv_at [OF first(4), of k] one_placeD [of pcs k] first by (auto simp: barrier_inv_def)
  have r: "motor_ready u d m" and n: "never_both u d (calls (machine_os m))" and h: "\<not> h"
    using first at by (auto simp: barrier_inv_def)
  have "m' = m\<lparr>machine_os := pin_os (kernel P) (Balustrade_up m) (c \<noteq> 0) (machine_os m)\<rparr>"
    using first(3) run_motor_pin(1-4) [OF r, of P] by (cases "c = 0") simp_all
  then show ?case
    using r n h o at run_motor_pin(5) [OF r] never_both_off(1) [OF n, of "c \<noteq> 0"] \<open>u \<noteq> d\<close>
    by (intro barrier_inv_move) (auto simp: run_motor_pin(5) [OF r])
next
  case (second pcs k c m m' h)
  have at: "place_ok u d m (Second c)" and o: "\<forall>j. j \<noteq> k \<longrightarrow> pcs j = Outside"
    using barrier_inv_at [OF second(3), of k] one_placeD [of pcs k] second by (auto simp: barrier_inv_def)
  have r: "motor_ready u d m" and n: "never_both u d (calls (machine_os m))" and h: "\<not> h"
    using second at by (auto simp: barrier_inv_def)
  have "m' = m\<lparr>machine_os := pin_os (kernel P) (Balustrade_down m) (c = 0) (machine_os m)\<rparr>"
    using second(2) run_motor_pin(1-4) [OF r, of P] by (cases "c = 0") simp_all
  then show ?case
    using r n h o at never_both_off(2) [OF n, of "c = 0"] \<open>u \<noteq> d\<close>
    by (intro barrier_inv_move) (auto simp: run_motor_pin(6) [OF r])
next
  case (spawn pcs k c m h)
  have o: "\<forall>j. j \<noteq> k \<longrightarrow> pcs j = Outside"
    using one_placeD [of pcs k] spawn by (auto simp: barrier_inv_def)
  with spawn show ?case
    by (intro barrier_inv_move) (auto simp: barrier_inv_def)
next
  case (neither pcs k c m h)
  have "place_ok u d m (First c)" and "\<forall>j. j \<noteq> k \<longrightarrow> pcs j = Outside"
    using barrier_inv_at [OF neither(3), of k] one_placeD [of pcs k] neither by (auto simp: barrier_inv_def)
  with neither show ?case
    by (intro barrier_inv_move) (auto simp: barrier_inv_def)
next
  case (pulse_up m h m' pcs)
  have r: "motor_ready u d m" and n: "never_both u d (calls (machine_os m))"
    using pulse_up by (auto simp: barrier_inv_def)
  have "m' = m\<lparr>machine_os := pin_os (kernel P) (Balustrade_up m) False (machine_os m)\<rparr>"
    using pulse_up(3) run_motor_pin(1) [OF r, of P] by simp
  moreover have "place_ok u d m pc \<Longrightarrow> place_ok u d m' pc" for pc
    using calculation pulse_up(1) by (cases pc) simp_all
  ultimately show ?case
    using pulse_up(1,4,5) r never_both_off(1) [OF n, of False]
    by (intro barrier_inv_stay [OF pulse_up(4)]) (simp_all add: run_motor_pin(5) [OF r])
next
  case (pulse_down m h m' pcs)
  have r: "motor_ready u d m" and n: "never_both u d (calls (machine_os m))" and off: "\<not> level u (calls (machine_os m))"
    using pulse_down by (auto simp: barrier_inv_def)
  have m': "m' = m\<lparr>machine_os := pin_os (kernel P) (Balustrade_down m) False (machine_os m)\<rparr>"
    using pulse_down(3) run_motor_pin(3) [OF r, of P] by simp
  have "place_ok u d m pc \<Longrightarrow> place_ok u d (m'\<lparr>balustradeThread := Finished\<rparr>) pc" for pc
    using m' pulse_down(1,5) off by (cases pc) (simp_all add: run_motor_pin(6) [OF r])
  then show ?case
    using m' pulse_down(5) r never_both_off(2) [OF n, of False]
    by (intro barrier_inv_stay [OF pulse_down(4)]) (simp_all add: run_motor_pin(6) [OF r])
next
  case (other m' m cs h pcs)
  have lv: "level f (calls (machine_os m')) = level f (calls (machine_os m))" if "f \<in> {u, d}" for f
    using other that by (auto simp: barrier_inv_def motor_ready_def motor_silent_def level_silent)
  have "never_both u d (calls (machine_os m'))"
    using other by (auto simp: barrier_inv_def motor_ready_def motor_silent_def never_both_silent)
  moreover have "place_ok u d m pc \<Longrightarrow> place_ok u d m' pc" for pc
    using lv other(6) by (cases pc) simp_all
  ultimately show ?case
    using other lv by (intro barrier_inv_stay [OF other(7)]) (auto simp: barrier_inv_def motor_ready_def)
qed

lemma barrier_steps_inv:
  "(barrier_step True P)\<^sup>*\<^sup>* x y \<Longrightarrow> barrier_inv u d x \<Longrightarrow> u \<noteq> d \<Longrightarrow> barrier_inv u d y"
  by (induction rule: rtranclp_induct) (auto intro: barrier_step_inv)

section \<open>Two commands at once\<close>

text \<open>
  The interleaving that turns both outputs on: the first connection's command to raise the barrier and the
  second's to lower it are both past the wait for the old pulse; the second clears the up output, the first
  sets it, the second sets the down output.
\<close>

lemma overlap_reaches_both:
  assumes "motor_ready u d m" and "u \<noteq> d"
  shows "\<exists>m' pcs. (barrier_step False P)\<^sup>*\<^sup>* (m, False, outside) (m', False, pcs) \<and>
    level u (calls (machine_os m')) \<and> level d (calls (machine_os m'))"
proof -
  have pk: "pins_ok m"
    using assms(1) by (simp add: motor_ready_def)
  let ?K = "kernel P"
  let ?p1 = "outside(1 := Test 1)" and ?q1 = "outside(1 := First 1)"
  let ?p2 = "outside(1 := First 1, 2 := Test 0)" and ?q2 = "outside(1 := First 1, 2 := First 0)"
  let ?m1 = "m\<lparr>machine_os := joined_os ?K m, balustradeThread := NotStarted\<rparr>"
  have a1: "barrier_step False P (m, False, outside) (m, False, ?p1)"
    by (intro barrier_step.enter) (simp_all add: outside_def)
  have "(barrier_step False P)\<^sup>*\<^sup>* (m, False, ?p1) (?m1, False, ?p1(1 := First 1))"
    using pk by (intro wait_steps) simp_all
  then have a2: "(barrier_step False P)\<^sup>*\<^sup>* (m, False, ?p1) (?m1, False, ?q1)"
    by simp
  have b1: "barrier_step False P (?m1, False, ?q1) (?m1, False, ?p2)"
    by (intro barrier_step.enter) (simp_all add: outside_def)
  have b2: "barrier_step False P (?m1, False, ?p2) (?m1, False, ?q2)"
    using barrier_step.test [of ?p2 2 0 False P ?m1 False] by (simp add: joinable_def)
  let ?s1 = "pin_os ?K (Balustrade_up m) False (machine_os ?m1)"
  let ?s2 = "pin_os ?K (Balustrade_up m) True ?s1"
  let ?s3 = "pin_os ?K (Balustrade_down m) True ?s2"
  have r: "motor_ready u d (?m1\<lparr>machine_os := s\<rparr>)" for s
    using assms(1) by simp
  have c1: "barrier_step False P (?m1, False, ?q2) (?m1\<lparr>machine_os := ?s1\<rparr>, False, ?q2(2 := Second 0))"
    using run_motor_pin(1) [of u d ?m1 P] assms(1) by (intro barrier_step.first) simp_all
  have c2: "barrier_step False P (?m1\<lparr>machine_os := ?s1\<rparr>, False, ?q2(2 := Second 0))
      (?m1\<lparr>machine_os := ?s2\<rparr>, False, ?q2(2 := Second 0, 1 := Second 1))"
    using run_motor_pin(2) [OF r, of P ?s1] by (intro barrier_step.first) simp_all
  have c3: "barrier_step False P (?m1\<lparr>machine_os := ?s2\<rparr>, False, ?q2(2 := Second 0, 1 := Second 1))
      (?m1\<lparr>machine_os := ?s3\<rparr>, False, ?q2(2 := Second 0, 1 := Second 1, 2 := Spawn 0))"
    using run_motor_pin(4) [OF r, of P ?s2] by (intro barrier_step.second) simp_all
  note steps = converse_rtranclp_into_rtranclp [of "barrier_step False P", OF a1 a2]
    rtranclp.rtrancl_into_rtrancl [of "barrier_step False P", OF _ b1] rtranclp.rtrancl_into_rtrancl [of "barrier_step False P", OF _ b2]
    rtranclp.rtrancl_into_rtrancl [of "barrier_step False P", OF _ c1] rtranclp.rtrancl_into_rtrancl [of "barrier_step False P", OF _ c2]
    rtranclp.rtrancl_into_rtrancl [of "barrier_step False P", OF _ c3]
  have "(barrier_step False P)\<^sup>*\<^sup>* (m, False, outside)
      (?m1\<lparr>machine_os := ?s3\<rparr>, False, ?q2(2 := Second 0, 1 := Second 1, 2 := Spawn 0))"
    by (rule steps(6), rule steps(5), rule steps(4), rule steps(3), rule steps(2), rule steps(1))
  moreover have "level u (calls ?s3)" and "level d (calls ?s3)"
    using assms by (simp_all add: run_motor_pin(5,6) [OF assms(1)] level_def)
  ultimately show ?thesis
    by (intro exI [of _ "?m1\<lparr>machine_os := ?s3\<rparr>"] exI [of _ "?q2(2 := Second 0, 1 := Second 1, 2 := Spawn 0)"]) simp
qed

section \<open>Properties\<close>

text \<open>
  C10. From a state in which no command is being handled, the two motor outputs are open on different descriptors, have never been
  both on, and are off unless a pulse is running: the steps of barrier commands (the test for the old pulse thread, the wait for its
  end, the write to each output, the start of the new pulse thread) interleave with the two writes of the
  pulse thread and with anything that leaves the motor's outputs alone. As long as one barrier command is handled at a time,
  the two outputs are at no moment both on, and between commands, while no pulse is running, both are off.
  Nothing in the code sees to that condition, \<open>BalusTrade\<close> takes no lock: when the commands of the two connections overlap,
  a state with both outputs on is reached. On is the level last asked for: a write that the kernel refuses, which the code does
  not look at, is not covered.
\<close>

theorem motor_safe_one_command:
  assumes "motor_inv u d m" and "u \<noteq> d"
  shows "(\<forall>m' h pcs. (barrier_step True P)\<^sup>*\<^sup>* (m, False, outside) (m', h, pcs) \<longrightarrow>
      never_both u d (calls (machine_os m')) \<and>
      (pcs = outside \<and> balustradeThread m' \<noteq> Running \<longrightarrow>
         \<not> level u (calls (machine_os m')) \<and> \<not> level d (calls (machine_os m')))) \<and>
    (\<exists>m' pcs. (barrier_step False P)\<^sup>*\<^sup>* (m, False, outside) (m', False, pcs) \<and>
      level u (calls (machine_os m')) \<and> level d (calls (machine_os m')))"
proof -
  have "barrier_inv u d (m, False, outside)"
    using assms(1) by (simp add: barrier_inv_def motor_inv_def motor_ready_def one_place_def outside_def)
  then have "barrier_inv u d (m', h, pcs)" if "(barrier_step True P)\<^sup>*\<^sup>* (m, False, outside) (m', h, pcs)" for m' h pcs
    using barrier_steps_inv [OF that] assms(2) by blast
  then have "never_both u d (calls (machine_os m')) \<and> (pcs = outside \<and> balustradeThread m' \<noteq> Running \<longrightarrow>
      \<not> level u (calls (machine_os m')) \<and> \<not> level d (calls (machine_os m')))"
    if "(barrier_step True P)\<^sup>*\<^sup>* (m, False, outside) (m', h, pcs)" for m' h pcs
    using that by (fastforce simp: barrier_inv_def outside_def)
  moreover have "motor_ready u d m"
    using assms(1) by (simp add: motor_inv_def motor_ready_def)
  ultimately show ?thesis
    using overlap_reaches_both [OF _ assms(2)] by blast
qed

theorem motor_safe_one_command_witness:
  "\<exists>m'. (barrier_step True example_platform)\<^sup>*\<^sup>* (example_machine, False, outside) (m', False, outside) \<and>
    level 15 (calls (machine_os m')) \<and> never_both 15 16 (calls (machine_os m'))"
proof -
  have i: "motor_inv 15 16 example_machine" and pk: "pins_ok example_machine"
    using example_ok by (simp_all add: motor_inv_def machine_ok_def never_both_def level_def example_machine_def example_pin_def)
  let ?Cmd = "[0xA3, 1] :: byte list" and ?m' = "after_barrier (kernel example_platform) 1 example_machine"
  have "BalusTrade example_platform ?Cmd 2 [0, 0] example_machine = Inr (4, motor_answer 1 [0xA3, 0], ?m')"
    using BalusTrade_ok [OF pk, of ?Cmd example_platform 2 "[0, 0]"] by simp
  then have r: "(barrier_step True example_platform)\<^sup>*\<^sup>* (example_machine, False, outside) (?m', False, outside)"
    using command_steps [OF pk, of ?Cmd example_platform 2 "[0, 0]" _ _ ?m' 1] by simp
  have "level 15 (calls (machine_os ?m'))"
    by (simp add: calls_after_barrier motor_request_def motor_calls_def pin_calls_def example_machine_def example_pin_def level_def)
  moreover have "never_both 15 16 (calls (machine_os ?m'))"
    using motor_safe_one_command [OF i, of example_platform] r by simp
  ultimately show ?thesis
    using r by blast
qed

end
