(* ===== verification/Spec2Isabelle.thy ===== *)
theory Spec2Isabelle
  imports Convert Frame_Stream Transport Settings Sequence TimeHelpers DisplayLine Process Interleaving Barrier
begin

text \<open>
  \<^bold>\<open>The lane controller IMachine_HB.\<close> The program (src/) drives the devices of one toll lane: a barrier
  motor, a traffic light and an alarm light on output pins, loop detectors and a mode switch on input
  pins, a display on a serial or network line, and a speech player. Two clients command it, a robot on
  one TCP port and a manual client on another; the mode switch says which of the two is in charge.

  \<^bold>\<open>How the parts interact.\<close> \<open>main\<close> loads the configuration and builds the controller; \<open>Init\<close> opens the
  display and starts five threads. The two receiving threads read frames, check them and hand them to
  \<open>CommunicationAnalysis\<close>, which runs one handler per kind of command and answers on the connection of
  the client. The handlers switch pins, post frames to the display's task list, and start the thread
  that ends a motor pulse. The display thread sends what was posted, each frame twice. The detector
  thread reports changes to the client in charge, the heartbeat thread greets both, and the timer thread
  shows a default text after ten idle seconds. All of them log.

  \<^bold>\<open>Theories and the code they model\<close> (file names are those of src/src and src/include):

  \<^item> \<open>Prelude\<close>: results that may be a fault (undefined behaviour, an uncaught exception), checked arrays,
    exclusive or over bytes. \<open>CString\<close>: string searching, cutting, and decimal numbers of the C++ library.
    \<open>Os\<close>: system calls as data, the kernel as a parameter, and the trace of calls.
  \<^item> \<open>Bcc\<close>: \<open>BCCDataCheck\<close> of IMachine.cpp, the check byte of a frame.
  \<^item> \<open>Framing\<close>, \<open>Frame_Stream\<close>: the parser in the loop of \<open>ReceiveCmd1\<close> and \<open>ReceiveCmd2\<close>, and what it makes
    of a stream of frames cut in any way into reads.
  \<^item> \<open>Convert\<close>: convert.c, base64 and character sets.
  \<^item> \<open>LinkedList\<close>, \<open>ListOps\<close>, \<open>Hlist\<close>: list.h on an explicit store of nodes: what the program uses of it, the
    other operations and walks, and the lists with a single-pointer head. \<open>Sequence\<close>: the contract both kinds of
    list meet. \<open>KernelList\<close>, \<open>Mailbox\<close>: kernel_list.cpp, and the contract of a mailbox with one place per line that the task list implements.
  \<^item> \<open>Display\<close>: QYLED.cpp, the frames of the display, their posting and the display thread.
  \<^item> \<open>Gpio\<close>: IODevice.cpp. \<open>Tcp_Server\<close>: TcpServer.cpp. \<open>Transport\<close>: Uart.cpp, Tcp.cpp, Udp.cpp and
    CommManage.cpp, with the contract of a transport as a locale. \<open>Tts\<close>, \<open>Synthesis\<close>: tts.cpp, the playing of a
    text and the thread that has it synthesised into a sound file. \<open>TimeHelpers\<close>: GetTime.cpp.
  \<^item> \<open>Voice\<close>: the phrases of \<open>DisplayVoice\<close> in IMachine.cpp. \<open>Machine\<close>: the controller's state, its command
    handlers, the dispatch, the answers and the barrier thread. \<open>Threads\<close>: one turn of the detector,
    heartbeat and timer threads. \<open>Receive\<close>: the receiving threads as a whole.
    \<open>Session\<close>: what a whole connection of a client does, from its stream of bytes to pins and answers, and what a
    display command shows. \<open>DisplayLine\<close>: the display thread over the serial port and the TCP client.
  \<^item> \<open>IniText\<close>, \<open>IniFile\<close>, \<open>Settings\<close>, \<open>IniSave\<close>: Get_Inifiles.cpp, the configuration as a multimap, and reading
    back what was written. \<open>Log_Message\<close>, \<open>Logging\<close>: Log_Message.cpp.
  \<^item> \<open>Startup\<close>: main.cpp, and \<open>ReadCfg\<close>, \<open>Init\<close>, \<open>Start\<close> and the destructor of IMachine.cpp.
  \<^item> \<open>Lane\<close>, \<open>Process\<close>: the step relation in which the turns of all threads interleave, its invariant, and the runs
    that begin with \<open>main\<close>.
  \<^item> \<open>Interleaving\<close>, \<open>Barrier\<close>: two places where a turn of \<open>Lane\<close> is not atomic in the code, in the steps between which
    another thread may act: the critical sections of the display's task list, and the barrier command with the thread
    of its pulse.

  \<^bold>\<open>How state and effects are modelled.\<close> An object is a record of its members; a pointer or descriptor that may
  be unassigned is an \<open>option\<close>. Some plain members that no constructor sets, such as the state of the mode switch, and the contents of
  arrays that are never initialised are arbitrary values that the theorems range over. A method takes the object and gives it
  back; reading what was never written, leaving an array, following NULL or freed memory and an uncaught
  exception are values of \<open>fault\<close>. Bytes are \<open>8 word\<close>, unsigned counters of 32 bits \<open>32 word\<close>. A system
  call is appended to the trace of the state, and the kernel, a parameter, answers it; so a property
  about outputs says which calls were added to the trace, whatever the kernel answers. Waiting leaves no
  trace, and in the control logic logging leaves none either. A thread is given by one turn of its
  loop. In \<open>lane_step\<close> a step is one turn of one thread: one read of a connection with every frame it
  completes, one round of the detector, heartbeat, display or accept loop, the default text, the end of a
  pulse, the making of the display's list, or the passing of time. Turns of different threads do not overlap there, which the code ensures for single
  operations on the display and the list by their mutexes and does not ensure elsewhere: \<open>BalusTrade\<close> takes no lock and waits up
  to a second for the old pulse, and posting to a line that has no node is two critical sections. \<open>Barrier\<close> and \<open>Interleaving\<close>
  cut these two into small steps, prove what holds with one command at a time or with a node for every line, and show a run
  that breaks the property without. A turn that faults or never returns ends a run of \<open>lane_step\<close>; that the turns
  return is a set of theorems of its own. \<open>CommunicationSend\<close> reaches its end without a value on the paths that send: undefined in
  C++, returning without a value here, as in the unoptimised program (debug.mak builds with -O0), whose callers ignore the value.

  The levels of outputs are those asked for: \<open>SetOn\<close> and \<open>SetOff\<close> report a refused write, and no caller looks at the result.

  \<^bold>\<open>What the lemmas show.\<close> Every component has an invariant that its operations keep
  (\<open>machine_ok\<close>, \<open>qled_ok\<close>, \<open>tasks_ok\<close>, \<open>gpio_ok\<close>,
  \<open>server_ok\<close>, \<open>vehicle_ok\<close>, \<open>wf_ini\<close>, \<open>buffer_ok\<close>),
  and lemmas that give the result of every operation under it. On top of them stand the properties: what
  each command does to pins, display and connection; that a stream of frames, cut in any good way into
  reads, is executed in order until the connection ends, and a damaged frame alone is lost; that what is
  logged reaches the file, and what is posted the display's line; that the two motor outputs are never both asked to be on, one command at a time; that the display shows the
  newest text of each line that has its node; what the threads send; that the start establishes \<open>machine_ok\<close>,
  and that every state reached from there, in any interleaving, is sound; what a synthesis writes, when
  it ends, and that it gives back its file and its sessions; that a voice command waits for the text before it, for ever if that never ends; that the lists behave as queues; the round
  trips of base64, of frames and of the configuration file. Where the code does not do what it means to,
  the property states what it does. The contracts of the lists, the mailbox, the transports and the
  configuration are locales, interpreted on the code's own operations.

  \<^bold>\<open>Bounds and fuel.\<close> The receive loop takes a number of reads as fuel, since it ends only with the
  connection: a turn theorem fixes one read, and the parser inside one read needs no fuel, its jumps back
  to the search for a header are a recursion with a proved measure. \<open>list_for_each_safe\<close> takes the number of
  nodes ever allocated, which bounds every walk of a well-formed list; the walks of the single-pointer
  lists take any number above the length. The loop that fetches sound from the speech library takes fuel,
  since the library may never end; \<open>synthesis_ends_iff\<close> says exactly when some fuel is enough. Changing to the next log file
  takes the number of full files the kernel may report; one more than that is enough.

  \<^bold>\<open>Not modelled.\<close> The speech library (a closed library: its answers are a parameter, as are those of iconv and of the
  kernel, and the time). Floating-point settings and the two stop-watches of GetTime.cpp, which nothing calls; the
  signal handlers of main.cpp; the copy of the log on the terminal. \<open>DisplayReply\<close> and the second half of
  TcpServer.cpp are commented out in the source; \<open>handleReceiveCmd\<close> and \<open>DeviceInit\<close> are declared and never
  defined. \<open>list_entry\<close> is the identity on addresses. The vendored headers under src/include/tts and iconv.h
  are declarations only.
\<close>

end
